(* ===== verification/Py_Prelude.thy ===== *)
theory Py_Prelude
  imports Main "HOL-Library.Sublist" "HOL-Library.Char_ord" "HOL-Library.List_Lexorder"
begin

text \<open>
  The part of Python that the modelled scripts use: exceptions as values, list indexing
  and slicing with Python's treatment of negative indices, and the methods of \<open>str\<close>.

  A Python \<open>str\<close> is a \<^typ>\<open>string\<close>, one \<^typ>\<open>char\<close> per code point; the model therefore
  speaks of texts whose code points are below 256, and classifies exactly those code points
  as Python 3 does.  Isabelle string literals cannot hold a backslash, so \<open>raw\<close> writes one
  as a backquote (no modelled pattern or message contains a backquote):
  \<open>raw ''`s*#''\<close> is Python's \<open>r'\s*#'\<close>.

  The collections at the end carry the automation of the component theories.
\<close>

section \<open>Collections\<close>

named_theorems py_str "facts on Python string methods"
named_theorems py_re "facts on regular expressions"
named_theorems lint_simps "unfolding rules of the linter's state operations"
named_theorems frame "fields an operation leaves alone"

section \<open>Exceptions\<close>

text \<open>
  The exceptions of the modelled code.  \<open>Diverges\<close> is not one of Python's: it is the result
  of a call that does not return, so that a theorem that excludes \<open>Inl\<close> excludes that too.
\<close>

datatype py_exc =
    ValueError string
  | IndexError
  | AttributeError
  | NameError
  | KeyError string
  | AssertionError
  | TypeError
  | ReError
  | IOError
  | CalledProcessError
  | SystemExit int
  | Diverges

type_synonym 'a py = "py_exc + 'a"

fun py_bind :: "'a py \<Rightarrow> ('a \<Rightarrow> 'b py) \<Rightarrow> 'b py" where
  "py_bind (Inl e) f = Inl e"
| "py_bind (Inr x) f = f x"

lemma py_bind_Inr_iff:
  "py_bind m f = Inr y \<longleftrightarrow> (\<exists>x. m = Inr x \<and> f x = Inr y)"
  by (cases m) auto

section \<open>Literals\<close>

definition backslash :: char where
  "backslash = CHR 0x5C"

definition newline :: char where
  "newline = CHR 0x0A"

definition raw :: "string \<Rightarrow> string" where
  "raw s = map (\<lambda>c. if c = CHR 0x60 then CHR 0x5C else c) s"

section \<open>Indexing and slicing\<close>

text \<open>\<open>xs[i]\<close>: a negative index counts from the end, anything else raises IndexError.\<close>

definition py_index :: "'a list \<Rightarrow> int \<Rightarrow> 'a py" where
  "py_index xs i =
     (if 0 \<le> i \<and> nat i < length xs then Inr (xs ! nat i)
      else if i < 0 \<and> nat (- i) \<le> length xs then Inr (xs ! (length xs - nat (- i)))
      else Inl IndexError)"

text \<open>A slice bound is clipped to the list, a negative one counts from the end.\<close>

definition slice_bound :: "nat \<Rightarrow> int \<Rightarrow> nat" where
  "slice_bound n i = (if i < 0 then nat (int n + i) else min (nat i) n)"

definition slice_from :: "'a list \<Rightarrow> int \<Rightarrow> 'a list" where
  "slice_from xs i = drop (slice_bound (length xs) i) xs"

definition slice_to :: "'a list \<Rightarrow> int \<Rightarrow> 'a list" where
  "slice_to xs i = take (slice_bound (length xs) i) xs"

definition py_slice :: "'a list \<Rightarrow> int \<Rightarrow> int \<Rightarrow> 'a list" where
  "py_slice xs i j = drop (slice_bound (length xs) i) (take (slice_bound (length xs) j) xs)"

lemma slice_from_nat [simp]: "slice_from xs (int n) = drop n xs"
  by (simp add: slice_from_def slice_bound_def min_def)

lemma slice_to_nat [simp]: "slice_to xs (int n) = take n xs"
  by (simp add: slice_to_def slice_bound_def min_def)

lemma slice_to_before: "y \<noteq> [] \<Longrightarrow> slice_to (x @ y) (- int (length y)) = x"
  by (simp add: slice_to_def slice_bound_def)

lemma py_index_nat [simp]: "n < length xs \<Longrightarrow> py_index xs (int n) = Inr (xs ! n)"
  by (simp add: py_index_def)

section \<open>Character classes\<close>

definition ord :: "char \<Rightarrow> nat" where
  "ord c = of_char c"

text \<open>\<open>str.isspace\<close> on one code point, also \<open>\s\<close> of a \<open>str\<close> pattern.\<close>

definition is_space :: "char \<Rightarrow> bool" where
  "is_space c = (let n = ord c in n = 32 \<or> (9 \<le> n \<and> n \<le> 13) \<or> (28 \<le> n \<and> n \<le> 31)
     \<or> n = 133 \<or> n = 160)"

text \<open>\<open>string.whitespace\<close>: the ASCII white space only.\<close>

definition in_string_whitespace :: "char \<Rightarrow> bool" where
  "in_string_whitespace c = (let n = ord c in n = 32 \<or> (9 \<le> n \<and> n \<le> 13))"

definition is_digit :: "char \<Rightarrow> bool" where
  "is_digit c = (let n = ord c in 48 \<le> n \<and> n \<le> 57)"

definition is_upper :: "char \<Rightarrow> bool" where
  "is_upper c = (let n = ord c in 65 \<le> n \<and> n \<le> 90)"

definition is_lower :: "char \<Rightarrow> bool" where
  "is_lower c = (let n = ord c in 97 \<le> n \<and> n \<le> 122)"

text \<open>\<open>\w\<close> of a \<open>str\<close> pattern: alphanumeric code points and the underscore.\<close>

definition is_word :: "char \<Rightarrow> bool" where
  "is_word c = (let n = ord c in is_digit c \<or> is_upper c \<or> is_lower c \<or> n = 95
     \<or> n \<in> {170, 178, 179, 181, 185, 186, 188, 189, 190}
     \<or> (192 \<le> n \<and> n \<noteq> 215 \<and> n \<noteq> 247))"

definition lower_char :: "char \<Rightarrow> char" where
  "lower_char c = (let n = ord c in
     if is_upper c \<or> (192 \<le> n \<and> n \<le> 222 \<and> n \<noteq> 215) then char_of (n + 32) else c)"

definition upper_char :: "char \<Rightarrow> char" where
  "upper_char c = (if is_lower c then char_of (ord c - 32) else c)"

text \<open>\<open>str.lower\<close> below code point 256; \<open>str.upper\<close> for ASCII text.\<close>

definition str_lower :: "string \<Rightarrow> string" where
  "str_lower = map lower_char"

definition str_upper :: "string \<Rightarrow> string" where
  "str_upper = map upper_char"

section \<open>Methods of \<open>str\<close>\<close>

abbreviation startswith :: "string \<Rightarrow> string \<Rightarrow> bool" where
  "startswith s p \<equiv> prefix p s"

abbreviation endswith :: "string \<Rightarrow> string \<Rightarrow> bool" where
  "endswith s p \<equiv> suffix p s"

fun find_nat :: "string \<Rightarrow> string \<Rightarrow> nat option" where
  "find_nat sub [] = (if sub = [] then Some 0 else None)"
| "find_nat sub (c # cs) =
     (if prefix sub (c # cs) then Some 0 else map_option Suc (find_nat sub cs))"

definition str_find :: "string \<Rightarrow> string \<Rightarrow> int" where
  "str_find s sub = (case find_nat sub s of None \<Rightarrow> -1 | Some n \<Rightarrow> int n)"

text \<open>\<open>sub in s\<close>\<close>

definition str_in :: "string \<Rightarrow> string \<Rightarrow> bool" where
  "str_in sub s = (find_nat sub s \<noteq> None)"

text \<open>\<open>s.find(sub, k)\<close> for a start position inside \<open>s\<close>.\<close>

definition str_find_at :: "string \<Rightarrow> string \<Rightarrow> nat \<Rightarrow> int" where
  "str_find_at s sub k = (case find_nat sub (drop k s) of None \<Rightarrow> -1 | Some n \<Rightarrow> int (k + n))"

definition str_rfind_char :: "string \<Rightarrow> char \<Rightarrow> int" where
  "str_rfind_char s c = (case find_nat [c] (rev s) of None \<Rightarrow> -1
     | Some n \<Rightarrow> int (length s) - 1 - int n)"

text \<open>
  Non-overlapping occurrences from left to right: the counter is the number of characters
  still to be skipped because they belong to the occurrence just found.
\<close>

fun count_go :: "string \<Rightarrow> nat \<Rightarrow> string \<Rightarrow> nat" where
  "count_go sub k [] = 0"
| "count_go sub (Suc k) (c # cs) = count_go sub k cs"
| "count_go sub 0 (c # cs) =
     (if prefix sub (c # cs) then Suc (count_go sub (length sub - 1) cs) else count_go sub 0 cs)"

definition str_count :: "string \<Rightarrow> string \<Rightarrow> nat" where
  "str_count s sub = count_go sub 0 s"

fun replace_go :: "string \<Rightarrow> string \<Rightarrow> nat \<Rightarrow> string \<Rightarrow> string" where
  "replace_go sub rep k [] = []"
| "replace_go sub rep (Suc k) (c # cs) = replace_go sub rep k cs"
| "replace_go sub rep 0 (c # cs) =
     (if prefix sub (c # cs) then rep @ replace_go sub rep (length sub - 1) cs
      else c # replace_go sub rep 0 cs)"

definition str_replace :: "string \<Rightarrow> string \<Rightarrow> string \<Rightarrow> string" where
  "str_replace s sub rep = replace_go sub rep 0 s"

definition str_lstrip :: "string \<Rightarrow> string" where
  "str_lstrip = dropWhile is_space"

definition str_rstrip :: "string \<Rightarrow> string" where
  "str_rstrip s = rev (dropWhile is_space (rev s))"

definition str_strip :: "string \<Rightarrow> string" where
  "str_strip s = str_rstrip (str_lstrip s)"

text \<open>\<open>s.lstrip(chars)\<close>, \<open>s.rstrip(chars)\<close> and \<open>s.strip(chars)\<close>\<close>

definition str_lstrip_chars :: "string \<Rightarrow> string \<Rightarrow> string" where
  "str_lstrip_chars s cs = dropWhile (\<lambda>c. c \<in> set cs) s"

definition str_rstrip_chars :: "string \<Rightarrow> string \<Rightarrow> string" where
  "str_rstrip_chars s cs = rev (dropWhile (\<lambda>c. c \<in> set cs) (rev s))"

definition str_strip_chars :: "string \<Rightarrow> string \<Rightarrow> string" where
  "str_strip_chars s cs = str_rstrip_chars (str_lstrip_chars s cs) cs"

text \<open>\<open>s.split(c)\<close> for a one-character separator: never empty, \<open>''.split(c) = ['']\<close>.\<close>

fun str_split :: "char \<Rightarrow> string \<Rightarrow> string list" where
  "str_split d [] = [[]]"
| "str_split d (c # cs) =
     (if c = d then [] # str_split d cs
      else (case str_split d cs of [] \<Rightarrow> [[c]] | w # ws \<Rightarrow> (c # w) # ws))"

text \<open>\<open>s.split()\<close>: runs of white space separate, no empty words.\<close>

definition str_words :: "string \<Rightarrow> string list" where
  "str_words s = filter (\<lambda>w. w \<noteq> []) (str_split (CHR '' '')
     (map (\<lambda>c. if is_space c then CHR '' '' else c) s))"

fun str_join :: "string \<Rightarrow> string list \<Rightarrow> string" where
  "str_join sep [] = []"
| "str_join sep [w] = w"
| "str_join sep (w # ws) = w @ sep @ str_join sep ws"

text \<open>\<open>s.partition(c)\<close>: the part before the first separator, and the part after it.\<close>

definition str_partition :: "char \<Rightarrow> string \<Rightarrow> string \<times> string" where
  "str_partition d s = (takeWhile (\<lambda>c. c \<noteq> d) s, tl (dropWhile (\<lambda>c. c \<noteq> d) s))"

definition str_isspace :: "string \<Rightarrow> bool" where
  "str_isspace s = (s \<noteq> [] \<and> list_all is_space s)"

fun str_of_nat :: "nat \<Rightarrow> string" where
  "str_of_nat n = (if n < 10 then [char_of (48 + n)]
     else str_of_nat (n div 10) @ [char_of (48 + n mod 10)])"

declare str_of_nat.simps [simp del]

definition str_of_int :: "int \<Rightarrow> string" where
  "str_of_int i = (if i < 0 then ''-'' @ str_of_nat (nat (- i)) else str_of_nat (nat i))"

section \<open>Facts on the string methods\<close>

lemma find_nat_Some:
  "find_nat sub s = Some n \<Longrightarrow> prefix sub (drop n s) \<and> n + length sub \<le> length s"
proof (induction s arbitrary: n)
  case Nil
  then show ?case by (auto split: if_splits)
next
  case (Cons c cs)
  show ?case
  proof (cases "prefix sub (c # cs)")
    case True
    with Cons.prems show ?thesis by (auto dest: prefix_length_le)
  next
    case False
    with Cons show ?thesis by auto
  qed
qed

lemma find_nat_least:
  "find_nat sub s = Some n \<Longrightarrow> m < n \<Longrightarrow> \<not> prefix sub (drop m s)"
proof (induction s arbitrary: n m)
  case Nil
  then show ?case by (auto split: if_splits)
next
  case (Cons c cs)
  then show ?case by (cases m) (auto split: if_splits)
qed

lemma find_nat_None: "find_nat sub s = None \<longleftrightarrow> \<not> sublist sub s"
  by (induction s) (auto simp: sublist_Cons_right)

lemma str_in_sublist [py_str]: "str_in sub s \<longleftrightarrow> sublist sub s"
  using find_nat_None [of sub s] by (simp add: str_in_def)

lemma str_find_neg [py_str]: "str_find s sub = -1 \<longleftrightarrow> \<not> sublist sub s"
  using find_nat_None [of sub s] by (auto simp: str_find_def split: option.splits)

lemma str_find_ge: "str_find s sub \<ge> -1"
  by (simp add: str_find_def split: option.split)

lemma str_find_nonneg: "0 \<le> str_find s sub \<longleftrightarrow> sublist sub s"
  using str_find_neg [of s sub] str_find_ge [of s sub] by linarith

lemma sublist_single [simp]: "sublist [c] s \<longleftrightarrow> c \<in> set s"
  by (induction s) (auto simp: sublist_Cons_right)

lemma endswith_char [py_str]: "endswith s [c] \<longleftrightarrow> s \<noteq> [] \<and> last s = c"
  by (cases s rule: rev_cases) (auto simp: suffix_def)

lemma count_go_char: "count_go [c] 0 s = count_list s c"
  by (induction s) auto

lemma str_count_char [py_str]: "str_count s [c] = count_list s c"
  by (simp add: str_count_def count_go_char)

lemma count_list_append_py [simp]: "count_list (xs @ ys) c = count_list xs c + count_list ys c"
  by (induction xs) auto

lemma replace_go_absent: "\<not> sublist sub s \<Longrightarrow> replace_go sub rep 0 s = s"
  by (induction s) (auto simp: sublist_Cons_right)

lemma str_replace_absent [py_str]: "\<not> sublist sub s \<Longrightarrow> str_replace s sub rep = s"
  by (simp add: str_replace_def replace_go_absent)

lemma str_split_not_Nil [simp]: "str_split d s \<noteq> []"
  by (induction s) (auto split: list.splits)

lemma str_split_join: "str_join [d] (str_split d s) = s"
proof (induction s)
  case Nil
  then show ?case by simp
next
  case (Cons c cs)
  obtain w ws where w: "str_split d cs = w # ws"
    by (cases "str_split d cs") auto
  with Cons show ?case by (cases ws) auto
qed

lemma str_split_no_sep: "w \<in> set (str_split d s) \<Longrightarrow> d \<notin> set w"
proof (induction s arbitrary: w)
  case Nil
  then show ?case by simp
next
  case (Cons c cs)
  obtain v vs where v: "str_split d cs = v # vs"
    by (cases "str_split d cs") auto
  with Cons show ?case by (auto split: if_splits)
qed

lemma str_rstrip_prefix: "prefix (str_rstrip s) s"
  by (metis str_rstrip_def prefix_def rev_append rev_rev_ident takeWhile_dropWhile_id)

lemma str_lstrip_suffix: "suffix (str_lstrip s) s"
  by (simp add: str_lstrip_def suffix_dropWhile)

section \<open>Positions of a text\<close>

lemma str_find_less: "sublist sub s \<Longrightarrow> sub \<noteq> [] \<Longrightarrow> nat (str_find s sub) < length s"
  using find_nat_None [of sub s] find_nat_Some [of sub s] by (cases sub) (force simp: str_find_def)+

lemma str_find_at_less: "0 < str_find_at s sub k \<Longrightarrow> sub \<noteq> [] \<Longrightarrow> nat (str_find_at s sub k) < length s"
  by (cases sub) (auto simp: str_find_at_def dest!: find_nat_Some split: option.splits)

lemma str_rfind_less: "s \<noteq> [] \<Longrightarrow> nat (str_rfind_char s c) < length s"
  by (cases s) (auto simp: str_rfind_char_def split: option.split)

end
