(* ===== verification/Py_Regex.thy ===== *)
theory Py_Regex
  imports Py_Prelude
begin

text \<open>
  The part of Python's \<open>re\<close> module that the modelled scripts use, as an executable model:
  \<open>re_compile\<close> translates a pattern string into a syntax tree, \<open>rx\<close> is the backtracking
  matcher in continuation-passing style (alternatives and repetitions are tried in the order
  the library documents, the first complete success wins), and \<open>re_match\<close>, \<open>re_search\<close>,
  \<open>re_sub\<close> are the entry points.  The relation \<open>matches\<close> says declaratively which
  stretches of text a pattern can match; \<open>rx_sound\<close> and \<open>rx_complete\<close> relate the
  two, and carry the proofs about code that only asks whether a pattern matches.

  A position in the subject is the pair of the character before it (if any) and the text
  after it.  Flags are given at compile time: dot matches newline, \<open>^\<close>/\<open>$\<close> match at
  line ends, letters match in both cases.  Repetitions expand (\<open>r+\<close> is \<open>r r*\<close>), and an
  iteration of \<open>*\<close> that consumes nothing is not taken: no modelled pattern repeats a
  group that can match the empty text.
\<close>

section \<open>Syntax trees\<close>

datatype citem = CChr char | CRange char char | CEsc char

datatype cset = CSet bool "citem list"

datatype regex =
    REmpty
  | RChr cset
  | RCStar bool cset
  | RSeq regex regex
  | RAlt regex regex
  | RStar bool regex
  | RGroup nat regex
  | RBol bool
  | REol bool
  | RWordB bool
  | RLook bool regex

text \<open>The escapes \<open>\s \S \d \D \w \W\<close>, also inside a class.\<close>

definition esc_class :: "char \<Rightarrow> char \<Rightarrow> bool" where
  "esc_class e c =
     (if e = CHR ''s'' then is_space c
      else if e = CHR ''S'' then \<not> is_space c
      else if e = CHR ''d'' then is_digit c
      else if e = CHR ''D'' then \<not> is_digit c
      else if e = CHR ''w'' then is_word c
      else if e = CHR ''W'' then \<not> is_word c
      else False)"

fun citem_match :: "citem \<Rightarrow> char \<Rightarrow> bool" where
  "citem_match (CChr d) c = (c = d)"
| "citem_match (CRange lo hi) c = (ord lo \<le> ord c \<and> ord c \<le> ord hi)"
| "citem_match (CEsc e) c = esc_class e c"

fun cmatch :: "cset \<Rightarrow> char \<Rightarrow> bool" where
  "cmatch (CSet neg items) c = (neg \<noteq> list_ex (\<lambda>i. citem_match i c) items)"

abbreviation RLit :: "char \<Rightarrow> regex" where
  "RLit c \<equiv> RChr (CSet False [CChr c])"

fun rseqs :: "regex list \<Rightarrow> regex" where
  "rseqs [] = REmpty"
| "rseqs [r] = r"
| "rseqs (r # rs) = RSeq r (rseqs rs)"

fun ralts :: "regex list \<Rightarrow> regex" where
  "ralts [] = REmpty"
| "ralts [r] = r"
| "ralts (r # rs) = RAlt r (ralts rs)"

fun mk_star :: "bool \<Rightarrow> regex \<Rightarrow> regex" where
  "mk_star g (RChr cs) = RCStar g cs"
| "mk_star g r = RStar g r"

definition mk_opt :: "bool \<Rightarrow> regex \<Rightarrow> regex" where
  "mk_opt g r = (if g then RAlt r REmpty else RAlt REmpty r)"

text \<open>At most \<open>n\<close> further copies.\<close>

fun mk_upto :: "bool \<Rightarrow> nat \<Rightarrow> regex \<Rightarrow> regex" where
  "mk_upto g 0 r = REmpty"
| "mk_upto g (Suc n) r = mk_opt g (if n = 0 then r else RSeq r (mk_upto g n r))"

fun mk_rep :: "bool \<Rightarrow> nat \<Rightarrow> nat option \<Rightarrow> regex \<Rightarrow> regex" where
  "mk_rep g lo None r = rseqs (replicate lo r @ [mk_star g r])"
| "mk_rep g lo (Some hi) r = rseqs (replicate lo r @ (if hi \<le> lo then [] else [mk_upto g (hi - lo) r]))"

section \<open>Compiling a pattern\<close>

text \<open>The character an escape stands for when it is not a class.\<close>

definition esc_char :: "char \<Rightarrow> char" where
  "esc_char e = (if e = CHR ''n'' then newline else if e = CHR ''r'' then CHR 0x0D
     else if e = CHR ''t'' then CHR 0x09 else e)"

definition is_class_esc :: "char \<Rightarrow> bool" where
  "is_class_esc e = (e \<in> set ''sSdDwW'')"

text \<open>The inside of \<open>[...]\<close>; the flag says whether a \<open>]\<close> here would be an ordinary character.\<close>

fun parse_class :: "nat \<Rightarrow> bool \<Rightarrow> citem list \<Rightarrow> string \<Rightarrow> (citem list \<times> string) option" where
  "parse_class 0 first acc s = None"
| "parse_class (Suc n) first acc [] = None"
| "parse_class (Suc n) first acc (c # cs) =
     (if c = CHR '']'' \<and> \<not> first then Some (rev acc, cs)
      else let (isc, lo, rest) =
             (if c = backslash then (case cs of [] \<Rightarrow> (False, c, [])
                | e # es \<Rightarrow> (is_class_esc e, (if is_class_esc e then e else esc_char e), es))
              else (False, c, cs))
        in if isc then parse_class n False (CEsc lo # acc) rest
           else (case rest of
               d # hi # rest' \<Rightarrow>
                 if d = CHR ''-'' \<and> hi \<noteq> CHR '']'' \<and> hi \<noteq> backslash
                 then parse_class n False (CRange lo hi # acc) rest'
                 else parse_class n False (CChr lo # acc) rest
             | _ \<Rightarrow> parse_class n False (CChr lo # acc) rest))"

definition digits_value :: "string \<Rightarrow> nat" where
  "digits_value = foldl (\<lambda>n c. 10 * n + (ord c - 48)) 0"

text \<open>\<open>{m}\<close>, \<open>{m,}\<close>, \<open>{,n}\<close> or \<open>{m,n}\<close> after the opening brace; anything else is no repetition.\<close>

definition parse_braces :: "string \<Rightarrow> (nat \<times> nat option \<times> string) option" where
  "parse_braces s =
     (let lo = takeWhile is_digit s; r1 = dropWhile is_digit s in
      case r1 of [] \<Rightarrow> None
      | c # r2 \<Rightarrow>
        if c = CHR ''}'' \<and> lo \<noteq> [] then Some (digits_value lo, Some (digits_value lo), r2)
        else if c = CHR '','' then
          (let hi = takeWhile is_digit r2; r3 = dropWhile is_digit r2 in
           case r3 of [] \<Rightarrow> None
           | d # r4 \<Rightarrow>
             if d = CHR ''}'' \<and> (lo \<noteq> [] \<or> hi \<noteq> [])
             then Some (digits_value lo, if hi = [] then None else Some (digits_value hi), r4)
             else None)
        else None)"

datatype gkind = GCapture nat | GPlain | GLook bool

fun close_group :: "gkind \<Rightarrow> regex \<Rightarrow> regex" where
  "close_group (GCapture n) r = RGroup n r"
| "close_group GPlain r = r"
| "close_group (GLook pos) r = RLook pos r"

type_synonym rframe = "gkind \<times> regex list \<times> regex list"

record rflags =
  dotall :: bool
  multiline :: bool
  ignorecase :: bool

definition no_flags :: rflags where
  "no_flags = \<lparr>dotall = False, multiline = False, ignorecase = False\<rparr>"

definition lit_node :: "rflags \<Rightarrow> char \<Rightarrow> regex" where
  "lit_node fl c = (if ignorecase fl \<and> lower_char c \<noteq> upper_char c
     then RChr (CSet False [CChr (lower_char c), CChr (upper_char c)]) else RLit c)"

text \<open>A quantifier: minimum, maximum and the rest of the pattern.\<close>

definition quantifier :: "char \<Rightarrow> string \<Rightarrow> (nat \<times> nat option \<times> string) option" where
  "quantifier c cs =
     (if c = CHR ''*'' then Some (0, None, cs)
      else if c = CHR ''+'' then Some (1, None, cs)
      else if c = CHR ''?'' then Some (0, Some 1, cs)
      else if c = CHR ''{'' then parse_braces cs
      else None)"

text \<open>
  One pass over the pattern.  The state holds the number of capture groups opened so far,
  the enclosing groups (kind, finished alternatives, atoms before the group), the finished
  alternatives and the atoms of the current group (both in reverse), and whether the last
  atom already carries a quantifier.
\<close>

fun parse_re :: "nat \<Rightarrow> rflags \<Rightarrow> nat \<Rightarrow> rframe list \<Rightarrow> regex list \<Rightarrow> regex list \<Rightarrow> bool
    \<Rightarrow> string \<Rightarrow> regex option" where
  "parse_re 0 fl n st alts cur q s = None"
| "parse_re (Suc f) fl n st alts cur q [] =
     (if st = [] then Some (ralts (rev (rseqs (rev cur) # alts))) else None)"
| "parse_re (Suc f) fl n st alts cur q (c # cs) =
     (case quantifier c cs of
        Some (lo, hi, rest) \<Rightarrow>
          (case cur of [] \<Rightarrow> None
           | r # rs \<Rightarrow> if q then None
             else (case rest of
                 l # rest' \<Rightarrow> if l = CHR ''?''
                   then parse_re f fl n st alts (mk_rep False lo hi r # rs) True rest'
                   else parse_re f fl n st alts (mk_rep True lo hi r # rs) True rest
               | [] \<Rightarrow> parse_re f fl n st alts (mk_rep True lo hi r # rs) True rest))
      | None \<Rightarrow>
        if c = CHR ''('' then
          (case cs of
             a # b # rest \<Rightarrow>
               if a = CHR ''?'' then
                 (if b = CHR '':'' then parse_re f fl n ((GPlain, alts, cur) # st) [] [] False rest
                  else if b = CHR ''='' then parse_re f fl n ((GLook True, alts, cur) # st) [] [] False rest
                  else if b = CHR ''!'' then parse_re f fl n ((GLook False, alts, cur) # st) [] [] False rest
                  else None)
               else parse_re f fl (Suc n) ((GCapture (Suc n), alts, cur) # st) [] [] False cs
           | _ \<Rightarrow> parse_re f fl (Suc n) ((GCapture (Suc n), alts, cur) # st) [] [] False cs)
        else if c = CHR '')'' then
          (case st of [] \<Rightarrow> None
           | (k, alts', cur') # st' \<Rightarrow>
               parse_re f fl n st' alts'
                 (close_group k (ralts (rev (rseqs (rev cur) # alts))) # cur') False cs)
        else if c = CHR ''|'' then parse_re f fl n st (rseqs (rev cur) # alts) [] False cs
        else if c = CHR ''.'' then
          parse_re f fl n st alts
            (RChr (CSet True (if dotall fl then [] else [CChr newline])) # cur) False cs
        else if c = CHR ''^'' then parse_re f fl n st alts (RBol (multiline fl) # cur) False cs
        else if c = CHR ''$'' then parse_re f fl n st alts (REol (multiline fl) # cur) False cs
        else if c = CHR ''['' then
          (let (neg, body) = (case cs of [] \<Rightarrow> (False, [])
                 | d # ds \<Rightarrow> if d = CHR ''^'' then (True, ds) else (False, cs)) in
           case parse_class (Suc (length body)) True [] body of None \<Rightarrow> None
           | Some (items, rest) \<Rightarrow> parse_re f fl n st alts (RChr (CSet neg items) # cur) False rest)
        else if c = backslash then
          (case cs of [] \<Rightarrow> None
           | e # es \<Rightarrow>
               if e = CHR ''b'' then parse_re f fl n st alts (RWordB True # cur) False es
               else if e = CHR ''B'' then parse_re f fl n st alts (RWordB False # cur) False es
               else if is_class_esc e then
                 parse_re f fl n st alts (RChr (CSet False [CEsc e]) # cur) False es
               else parse_re f fl n st alts (lit_node fl (esc_char e) # cur) False es)
        else parse_re f fl n st alts (lit_node fl c # cur) False cs)"

definition re_compile_flags :: "rflags \<Rightarrow> string \<Rightarrow> regex option" where
  "re_compile_flags fl p = parse_re (Suc (length p)) fl 0 [] [] [] False p"

definition re_compile :: "string \<Rightarrow> regex option" where
  "re_compile p = re_compile_flags no_flags p"

section \<open>Matching\<close>

type_synonym caps = "(nat \<times> string) list"
type_synonym rcont = "char option \<Rightarrow> string \<Rightarrow> caps \<Rightarrow> (string \<times> caps) option"

fun cstar :: "bool \<Rightarrow> cset \<Rightarrow> char option \<Rightarrow> string \<Rightarrow> (char option \<Rightarrow> string \<Rightarrow> 'r option) \<Rightarrow> 'r option" where
  "cstar g cs p [] k = k p []"
| "cstar g cs p (x # xs) k =
     (if cmatch cs x then
        (if g then (case cstar g cs (Some x) xs k of Some z \<Rightarrow> Some z | None \<Rightarrow> k p (x # xs))
         else (case k p (x # xs) of Some z \<Rightarrow> Some z | None \<Rightarrow> cstar g cs (Some x) xs k))
      else k p (x # xs))"

definition is_word_opt :: "char option \<Rightarrow> bool" where
  "is_word_opt p = (case p of None \<Rightarrow> False | Some c \<Rightarrow> is_word c)"

definition head_opt :: "'a list \<Rightarrow> 'a option" where
  "head_opt s = (case s of [] \<Rightarrow> None | c # _ \<Rightarrow> Some c)"

definition at_bol :: "bool \<Rightarrow> char option \<Rightarrow> bool" where
  "at_bol m p = (p = None \<or> m \<and> p = Some newline)"

definition at_eol :: "bool \<Rightarrow> string \<Rightarrow> bool" where
  "at_eol m s = (s = [] \<or> s = [newline] \<or> m \<and> head_opt s = Some newline)"

definition at_wordb :: "char option \<Rightarrow> string \<Rightarrow> bool" where
  "at_wordb p s = (is_word_opt p \<noteq> is_word_opt (head_opt s))"

function (sequential) rx :: "regex \<Rightarrow> char option \<Rightarrow> string \<Rightarrow> caps \<Rightarrow> rcont \<Rightarrow> (string \<times> caps) option" where
  "rx REmpty p s g k = k p s g"
| "rx (RChr cs) p [] g k = None"
| "rx (RChr cs) p (x # xs) g k = (if cmatch cs x then k (Some x) xs g else None)"
| "rx (RCStar gr cs) p s g k = cstar gr cs p s (\<lambda>p s. k p s g)"
| "rx (RSeq a b) p s g k = rx a p s g (\<lambda>p s g. rx b p s g k)"
| "rx (RAlt a b) p s g k = (case rx a p s g k of Some z \<Rightarrow> Some z | None \<Rightarrow> rx b p s g k)"
| "rx (RStar gr r) p [] g k = k p [] g"
| "rx (RStar gr r) p (x # xs) g k =
     (if gr then
        (case rx r p (x # xs) g (\<lambda>p s g. if length s \<le> length xs then rx (RStar gr r) p s g k else None)
         of Some z \<Rightarrow> Some z | None \<Rightarrow> k p (x # xs) g)
      else
        (case k p (x # xs) g of Some z \<Rightarrow> Some z
         | None \<Rightarrow> rx r p (x # xs) g (\<lambda>p s g. if length s \<le> length xs then rx (RStar gr r) p s g k else None)))"
| "rx (RGroup n r) p s g k =
     rx r p s g (\<lambda>p' s' g'. k p' s' ((n, take (length s - length s') s) # g'))"
| "rx (RBol m) p s g k = (if at_bol m p then k p s g else None)"
| "rx (REol m) p s g k = (if at_eol m s then k p s g else None)"
| "rx (RWordB b) p s g k = (if at_wordb p s = b then k p s g else None)"
| "rx (RLook pos r) p s g k =
     (case rx r p s g (\<lambda>p s g. Some (s, g)) of
        Some (_, g') \<Rightarrow> if pos then k p s g' else None
      | None \<Rightarrow> if pos then None else k p s g)"
  by pat_completeness auto
termination
  by (relation "measures [\<lambda>(r, p, s, g, k). size r, \<lambda>(r, p, s, g, k). length s]") auto

section \<open>Entry points\<close>

text \<open>A match object: where it starts and ends, the text matched, the captured groups.\<close>

record match_obj =
  m_start :: nat
  m_end :: nat
  m_text :: string
  m_caps :: caps

text \<open>\<open>m.group(n)\<close>: None for a group that took no part in the match.\<close>

definition m_group :: "match_obj \<Rightarrow> nat \<Rightarrow> string option" where
  "m_group m n = (if n = 0 then Some (m_text m) else map_of (m_caps m) n)"

text \<open>\<open>m.group(n)\<close> of a group that takes part in every match of the pattern.\<close>

definition m_grp :: "match_obj \<Rightarrow> nat \<Rightarrow> string" where
  "m_grp m n = (case m_group m n of None \<Rightarrow> [] | Some t \<Rightarrow> t)"

definition match_at :: "regex \<Rightarrow> char option \<Rightarrow> nat \<Rightarrow> string \<Rightarrow> match_obj option" where
  "match_at r p i s = (case rx r p s [] (\<lambda>p s g. Some (s, g)) of None \<Rightarrow> None
     | Some (s', g) \<Rightarrow> (let t = take (length s - length s') s in
         Some \<lparr>m_start = i, m_end = i + length t, m_text = t, m_caps = g\<rparr>))"

definition re_match :: "regex \<Rightarrow> string \<Rightarrow> match_obj option" where
  "re_match r s = match_at r None 0 s"

fun search_from :: "regex \<Rightarrow> char option \<Rightarrow> nat \<Rightarrow> string \<Rightarrow> match_obj option" where
  "search_from r p i [] = match_at r p i []"
| "search_from r p i (c # cs) =
     (case match_at r p i (c # cs) of Some m \<Rightarrow> Some m | None \<Rightarrow> search_from r (Some c) (Suc i) cs)"

definition re_search :: "regex \<Rightarrow> string \<Rightarrow> match_obj option" where
  "re_search r s = search_from r None 0 s"

text \<open>
  \<open>re.sub\<close> with a replacement computed from the match, and \<open>finditer\<close>: scan from left to
  right, the counter is the number of characters of the last match still to be skipped.  An
  empty match is not replaced (no modelled call has one).
\<close>

fun sub_go :: "regex \<Rightarrow> (match_obj \<Rightarrow> string) \<Rightarrow> char option \<Rightarrow> nat \<Rightarrow> string \<Rightarrow> string" where
  "sub_go r f p k [] = []"
| "sub_go r f p (Suc k) (c # cs) = sub_go r f (Some c) k cs"
| "sub_go r f p 0 (c # cs) =
     (case match_at r p 0 (c # cs) of
        Some m \<Rightarrow> if m_text m \<noteq> [] then f m @ sub_go r f (Some c) (length (m_text m) - 1) cs
                  else c # sub_go r f (Some c) 0 cs
      | None \<Rightarrow> c # sub_go r f (Some c) 0 cs)"

definition re_sub :: "regex \<Rightarrow> string \<Rightarrow> string \<Rightarrow> string" where
  "re_sub r rep s = sub_go r (\<lambda>_. rep) None 0 s"

definition re_sub_with :: "regex \<Rightarrow> (match_obj \<Rightarrow> string) \<Rightarrow> string \<Rightarrow> string" where
  "re_sub_with r f s = sub_go r f None 0 s"

fun finditer_go :: "regex \<Rightarrow> char option \<Rightarrow> nat \<Rightarrow> nat \<Rightarrow> string \<Rightarrow> match_obj list" where
  "finditer_go r p i k [] = []"
| "finditer_go r p i (Suc k) (c # cs) = finditer_go r (Some c) (Suc i) k cs"
| "finditer_go r p i 0 (c # cs) =
     (case match_at r p i (c # cs) of
        Some m \<Rightarrow> if m_text m \<noteq> []
                  then m # finditer_go r (Some c) (Suc i) (length (m_text m) - 1) cs
                  else finditer_go r (Some c) (Suc i) 0 cs
      | None \<Rightarrow> finditer_go r (Some c) (Suc i) 0 cs)"

definition re_finditer :: "regex \<Rightarrow> string \<Rightarrow> match_obj list" where
  "re_finditer r s = finditer_go r None 0 0 s"

text \<open>\<open>re.escape\<close>: every character that is special in a pattern gets a backslash.\<close>

definition re_escape :: "string \<Rightarrow> string" where
  "re_escape s = concat (map (\<lambda>c. if c \<in> set (raw ''()[]{}?*+-|^$`.&~# '') \<or> ord c \<in> {9, 10, 11, 12, 13}
     then [backslash, c] else [c]) s)"

text \<open>
  A pattern written in the source.  Its compilation cannot fail at run time unless the
  pattern is malformed; \<open>re_const\<close> is total, and a pattern that does not compile would
  match nothing.
\<close>

definition re_const :: "string \<Rightarrow> regex" where
  "re_const p = (case re_compile p of Some r \<Rightarrow> r | None \<Rightarrow> RLook False REmpty)"

section \<open>What a pattern can match\<close>

text \<open>\<open>matches r p s p' s'\<close>: from the position with \<open>p\<close> before and \<open>s\<close> after it, the
  pattern can consume text up to the position \<open>p'\<close>, \<open>s'\<close>.\<close>

inductive cstar_to :: "cset \<Rightarrow> char option \<Rightarrow> string \<Rightarrow> char option \<Rightarrow> string \<Rightarrow> bool" for cs where
  cstar_stop: "cstar_to cs p s p s"
| cstar_step: "cmatch cs x \<Longrightarrow> cstar_to cs (Some x) xs p' s' \<Longrightarrow> cstar_to cs p (x # xs) p' s'"

primrec matches :: "regex \<Rightarrow> char option \<Rightarrow> string \<Rightarrow> char option \<Rightarrow> string \<Rightarrow> bool" where
  "matches REmpty p s p' s' = (p' = p \<and> s' = s)"
| "matches (RChr cs) p s p' s' = (\<exists>x. s = x # s' \<and> p' = Some x \<and> cmatch cs x)"
| "matches (RCStar g cs) p s p' s' = cstar_to cs p s p' s'"
| "matches (RSeq a b) p s p' s' = (\<exists>p1 s1. matches a p s p1 s1 \<and> matches b p1 s1 p' s')"
| "matches (RAlt a b) p s p' s' = (matches a p s p' s' \<or> matches b p s p' s')"
| "matches (RStar g r) p s p' s' =
     (\<lambda>(p, s) (p', s'). matches r p s p' s' \<and> length s' < length s)\<^sup>*\<^sup>* (p, s) (p', s')"
| "matches (RGroup n r) p s p' s' = matches r p s p' s'"
| "matches (RBol m) p s p' s' = (p' = p \<and> s' = s \<and> at_bol m p)"
| "matches (REol m) p s p' s' = (p' = p \<and> s' = s \<and> at_eol m s)"
| "matches (RWordB b) p s p' s' = (p' = p \<and> s' = s \<and> at_wordb p s = b)"
| "matches (RLook pos r) p s p' s' =
     (p' = p \<and> s' = s \<and> (\<exists>p1 s1. matches r p s p1 s1) = pos)"

lemma cstar_sound:
  "cstar g cs p s k = Some z \<Longrightarrow> \<exists>p' s'. cstar_to cs p s p' s' \<and> k p' s' = Some z"
proof (induction s arbitrary: p)
  case Nil
  then show ?case by (auto intro: cstar_to.intros)
next
  case (Cons x xs)
  then show ?case
    by (fastforce split: if_splits option.splits intro: cstar_to.intros)
qed

lemma cstar_complete:
  "cstar_to cs p s p' s' \<Longrightarrow> k p' s' \<noteq> None \<Longrightarrow> cstar g cs p s k \<noteq> None"
proof (induction rule: cstar_to.induct)
  case (cstar_stop p s)
  then show ?case by (cases s) (auto split: option.splits)
next
  case (cstar_step x xs p' s' p)
  then show ?case by (auto split: option.splits)
qed

lemma cstar_to_suffix:
  "cstar_to cs p s p' s' \<Longrightarrow> \<exists>t. s = t @ s' \<and> list_all (cmatch cs) t \<and> p' = (if t = [] then p else Some (last t))"
proof (induction rule: cstar_to.induct)
  case (cstar_stop p s)
  then show ?case by simp
next
  case (cstar_step x xs p' s' p)
  then obtain t where "xs = t @ s'" "list_all (cmatch cs) t" "p' = (if t = [] then Some x else Some (last t))"
    by auto
  with cstar_step.hyps show ?case by (intro exI [of _ "x # t"]) auto
qed

lemma cstar_to_append:
  "list_all (cmatch cs) t \<Longrightarrow> cstar_to cs p (t @ s) (if t = [] then p else Some (last t)) s"
proof (induction t arbitrary: p)
  case Nil
  then show ?case by (auto intro: cstar_to.intros)
next
  case (Cons x t)
  then have "cstar_to cs (Some x) (t @ s) (if t = [] then Some x else Some (last t)) s"
    by simp
  with Cons.prems show ?case by (auto intro: cstar_to.cstar_step split: if_splits)
qed

text \<open>
  The matcher and the relation agree: a success of the matcher reaches its continuation at
  a position the relation allows, and if the relation allows a position that the
  continuation accepts, the matcher succeeds.  Negative lookahead needs both at once.
\<close>

definition rx_sound_for :: "regex \<Rightarrow> bool" where
  "rx_sound_for r = (\<forall>p s g k z. rx r p s g k = Some z \<longrightarrow>
     (\<exists>p' s' g'. matches r p s p' s' \<and> k p' s' g' = Some z))"

definition rx_complete_for :: "regex \<Rightarrow> bool" where
  "rx_complete_for r = (\<forall>p s p' s' g k. matches r p s p' s' \<longrightarrow> (\<forall>g'. k p' s' g' \<noteq> None) \<longrightarrow>
     rx r p s g k \<noteq> None)"

lemma rx_soundD:
  "rx_sound_for r \<Longrightarrow> rx r p s g k = Some z \<Longrightarrow> \<exists>p' s' g'. matches r p s p' s' \<and> k p' s' g' = Some z"
  unfolding rx_sound_for_def by blast

lemma rx_completeD:
  "rx_complete_for r \<Longrightarrow> matches r p s p' s' \<Longrightarrow> (\<And>g'. k p' s' g' \<noteq> None) \<Longrightarrow> rx r p s g k \<noteq> None"
  unfolding rx_complete_for_def by blast

lemma rx_star_sound:
  assumes r: "rx_sound_for r"
  shows "rx (RStar gr r) p s g k = Some z \<Longrightarrow>
    \<exists>p' s' g'. matches (RStar gr r) p s p' s' \<and> k p' s' g' = Some z"
proof (induction "length s" arbitrary: p s g rule: less_induct)
  case less
  let ?step = "\<lambda>(p, s) (p', s'). matches r p s p' s' \<and> length s' < length s"
  show ?case
  proof (cases s)
    case Nil
    with less.prems show ?thesis by auto
  next
    case (Cons x xs)
    let ?K = "\<lambda>p s g. if length s \<le> length xs then rx (RStar gr r) p s g k else None"
    have body: "\<exists>p' s' g'. matches (RStar gr r) p s p' s' \<and> k p' s' g' = Some z"
      if "rx r p s g ?K = Some z"
    proof -
      from rx_soundD [OF r that] obtain p1 s1 g1
        where 1: "matches r p s p1 s1" "?K p1 s1 g1 = Some z" by blast
      then have 2: "length s1 < length s" "rx (RStar gr r) p1 s1 g1 k = Some z"
        by (auto simp: Cons split: if_splits)
      from less.hyps [OF this] obtain p' s' g'
        where 3: "matches (RStar gr r) p1 s1 p' s'" "k p' s' g' = Some z" by blast
      have 4: "?step (p, s) (p1, s1)" using 1(1) 2(1) by simp
      have "?step\<^sup>*\<^sup>* (p1, s1) (p', s')" using 3(1) by simp
      from converse_rtranclp_into_rtranclp [of ?step, OF 4 this] 3(2) show ?thesis by auto
    qed
    have stop: "\<exists>p' s' g'. matches (RStar gr r) p s p' s' \<and> k p' s' g' = Some z"
      if "k p s g = Some z"
      using that by auto
    from less.prems body stop show ?thesis
      by (simp add: Cons del: matches.simps split: if_splits option.splits)
  qed
qed

lemma rx_star_complete:
  assumes r: "rx_complete_for r"
  shows "matches (RStar gr r) p s p' s' \<Longrightarrow> (\<And>g'. k p' s' g' \<noteq> None) \<Longrightarrow> rx (RStar gr r) p s g k \<noteq> None"
proof (induction "length s" arbitrary: p s g rule: less_induct)
  case less
  let ?step = "\<lambda>(p, s) (p', s'). matches r p s p' s' \<and> length s' < length s"
  from less.prems(1) have "?step\<^sup>*\<^sup>* (p, s) (p', s')" by simp
  then show ?case
  proof (cases rule: converse_rtranclpE)
    case base
    with less.prems(2) show ?thesis by (cases s) (auto split: option.splits)
  next
    case (step y)
    obtain p1 s1 where y: "y = (p1, s1)" by (cases y)
    from step y have 1: "matches r p s p1 s1" "length s1 < length s" "?step\<^sup>*\<^sup>* (p1, s1) (p', s')"
      by auto
    then obtain x xs where s: "s = x # xs" by (cases s) auto
    let ?K = "\<lambda>p s g. if length s \<le> length xs then rx (RStar gr r) p s g k else None"
    have "?K p1 s1 g' \<noteq> None" for g'
      using 1 s less.hyps [OF 1(2) _ less.prems(2)] by auto
    from rx_completeD [OF r 1(1), of ?K] this have "rx r p s g ?K \<noteq> None" by blast
    then show ?thesis by (auto simp: s split: option.splits)
  qed
qed

lemma rx_cstar_agrees: "rx_sound_for (RCStar gr cs)" "rx_complete_for (RCStar gr cs)"
proof -
  have "\<exists>p' s' g'. matches (RCStar gr cs) p s p' s' \<and> k p' s' g' = Some z" if "rx (RCStar gr cs) p s g k = Some z" for p s g k z
    using cstar_sound [OF that [unfolded rx.simps]] by auto
  then show "rx_sound_for (RCStar gr cs)" unfolding rx_sound_for_def by blast
  have "rx (RCStar gr cs) p s g k \<noteq> None" if "matches (RCStar gr cs) p s p' s'" "\<forall>g'. k p' s' g' \<noteq> None" for p s p' s' g k
    using that cstar_complete [of cs p s p' s' "\<lambda>p s. k p s g" gr] by simp
  then show "rx_complete_for (RCStar gr cs)" unfolding rx_complete_for_def by blast
qed

lemma rx_seq_sound:
  assumes "rx_sound_for a" "rx_sound_for b"
  shows "rx_sound_for (RSeq a b)"
  unfolding rx_sound_for_def
proof (intro allI impI)
  fix p s g z and k :: rcont
  assume "rx (RSeq a b) p s g k = Some z"
  then have "rx a p s g (\<lambda>p s g. rx b p s g k) = Some z" by simp
  from rx_soundD [OF assms(1) this] obtain p1 s1 g1
    where 1: "matches a p s p1 s1" "rx b p1 s1 g1 k = Some z" by blast
  from rx_soundD [OF assms(2) 1(2)] 1(1)
  show "\<exists>p' s' g'. matches (RSeq a b) p s p' s' \<and> k p' s' g' = Some z" by auto
qed

lemma rx_seq_complete:
  assumes "rx_complete_for a" "rx_complete_for b"
  shows "rx_complete_for (RSeq a b)"
  unfolding rx_complete_for_def
proof (intro allI impI)
  fix p s p' s' g and k :: rcont
  assume "matches (RSeq a b) p s p' s'" and k: "\<forall>g'. k p' s' g' \<noteq> None"
  then obtain p1 s1 where 1: "matches a p s p1 s1" "matches b p1 s1 p' s'" by auto
  have "rx b p1 s1 g1 k \<noteq> None" for g1 using rx_completeD [OF assms(2) 1(2)] k by blast
  from rx_completeD [OF assms(1) 1(1), of "\<lambda>p s g. rx b p s g k"] this
  show "rx (RSeq a b) p s g k \<noteq> None" by auto
qed

lemma rx_alt_agrees:
  "rx_sound_for a \<Longrightarrow> rx_sound_for b \<Longrightarrow> rx_sound_for (RAlt a b)"
  "rx_complete_for a \<Longrightarrow> rx_complete_for b \<Longrightarrow> rx_complete_for (RAlt a b)"
proof -
  have alt: "rx (RAlt a b) p s g k = (case rx a p s g k of None \<Rightarrow> rx b p s g k | Some z \<Rightarrow> Some z)" for p s g k
    by simp
  then have none: "rx (RAlt a b) p s g k \<noteq> None \<longleftrightarrow> rx a p s g k \<noteq> None \<or> rx b p s g k \<noteq> None" for p s g k
    by (cases "rx a p s g k") simp_all
  show "rx_sound_for a \<Longrightarrow> rx_sound_for b \<Longrightarrow> rx_sound_for (RAlt a b)"
    unfolding rx_sound_for_def matches.simps alt by (auto split: option.splits) blast+
  show "rx_complete_for a \<Longrightarrow> rx_complete_for b \<Longrightarrow> rx_complete_for (RAlt a b)"
    unfolding rx_complete_for_def matches.simps none by blast
qed

lemma rx_look_agrees:
  assumes "rx_sound_for r" "rx_complete_for r"
  shows "rx_sound_for (RLook pos r) \<and> rx_complete_for (RLook pos r)"
proof -
  have iff: "rx r p s g (\<lambda>p s g. Some (s, g)) \<noteq> None \<longleftrightarrow> (\<exists>p1 s1. matches r p s p1 s1)" for p s g
    using rx_soundD [OF assms(1), of p s g "\<lambda>p s g. Some (s, g)"]
      rx_completeD [OF assms(2), of p s _ _ "\<lambda>p s g. Some (s, g)" g] by fastforce
  then show ?thesis
    unfolding rx_sound_for_def rx_complete_for_def
    by (auto split: option.splits if_splits) (metis option.distinct(1))+
qed

lemma rx_agrees: "rx_sound_for r \<and> rx_complete_for r"
proof (induction r)
  case (RChr cs)
  have "rx (RChr cs) p s g k = (case s of [] \<Rightarrow> None | x # xs \<Rightarrow> if cmatch cs x then k (Some x) xs g else None)" for p s g k
    by (cases s) auto
  then show ?case
    by (auto simp: rx_sound_for_def rx_complete_for_def split: list.splits if_splits)
next
  case (RStar gr r)
  then show ?case
    unfolding rx_sound_for_def [of "RStar gr r"] rx_complete_for_def [of "RStar gr r"]
    using rx_star_sound rx_star_complete by blast
next
  case (RGroup n r)
  then show ?case
    unfolding rx_sound_for_def rx_complete_for_def by fastforce
next
  case (RLook pos r)
  then show ?case by (intro rx_look_agrees) simp_all
next
  case (RSeq a b)
  then show ?case by (simp add: rx_seq_sound rx_seq_complete)
next
  case (RAlt a b)
  then show ?case by (simp add: rx_alt_agrees)
next
  case (RCStar gr cs)
  show ?case by (simp only: rx_cstar_agrees)
qed (auto simp: rx_sound_for_def rx_complete_for_def split: if_splits)

lemmas rx_sound = rx_soundD [OF rx_agrees [THEN conjunct1]]
lemmas rx_complete = rx_completeD [OF rx_agrees [THEN conjunct2]]

lemma match_at_iff: "match_at r p i s \<noteq> None \<longleftrightarrow> (\<exists>p' s'. matches r p s p' s')"
proof -
  have "rx r p s [] (\<lambda>p s g. Some (s, g)) \<noteq> None \<longleftrightarrow> (\<exists>p' s'. matches r p s p' s')"
    using rx_sound [of r p s "[]" "\<lambda>p s g. Some (s, g)"]
      rx_complete [of r p s _ _ "\<lambda>p s g. Some (s, g)" "[]"] by fastforce
  then show ?thesis by (auto simp: match_at_def Let_def split: option.splits)
qed

text \<open>Whether a pattern matches, asked of the relation.\<close>

lemma re_match_iff: "re_match r s \<noteq> None \<longleftrightarrow> (\<exists>p' s'. matches r None s p' s')"
  unfolding re_match_def by (rule match_at_iff)

text \<open>A match consumes a prefix of the text.\<close>

text \<open>The text consumed on the way from one position to another.\<close>

definition leads_to :: "char option \<Rightarrow> string \<Rightarrow> char option \<Rightarrow> string \<Rightarrow> bool" where
  "leads_to p s p' s' = (\<exists>t. s = t @ s' \<and> p' = (if t = [] then p else Some (last t)))"

lemma leads_to_refl [simp]: "leads_to p s p s"
  by (simp add: leads_to_def)

lemma leads_to_trans: "leads_to p s p1 s1 \<Longrightarrow> leads_to p1 s1 p' s' \<Longrightarrow> leads_to p s p' s'"
  unfolding leads_to_def by (elim exE, rule_tac x = "t @ ta" in exI) auto

lemma star_leads_to:
  assumes "\<And>p s p' s'. matches r p s p' s' \<Longrightarrow> leads_to p s p' s'"
    and "(\<lambda>(p, s) (p', s'). matches r p s p' s' \<and> length s' < length s)\<^sup>*\<^sup>* (p, s) (p', s')"
  shows "leads_to p s p' s'"
  using assms(2)
proof (induction "(p', s')" arbitrary: p' s' rule: rtranclp_induct)
  case (step y)
  then show ?case using assms(1) by (cases y) (auto intro: leads_to_trans)
qed simp

lemma matches_leads_to: "matches r p s p' s' \<Longrightarrow> leads_to p s p' s'"
proof (induction r arbitrary: p s p' s')
  case (RCStar g cs)
  then show ?case using cstar_to_suffix by (fastforce simp: leads_to_def)
next
  case (RSeq a b)
  then show ?case by simp (meson leads_to_trans)
next
  case (RStar g r)
  then show ?case using star_leads_to [of r p s p' s'] by simp
next
  case (RChr cs)
  then obtain x where "s = x # s'" "p' = Some x" by auto
  then show ?case unfolding leads_to_def by (intro exI [of _ "[x]"]) simp
qed (auto split: if_splits)

lemma matches_suffix:
  "matches r p s p' s' \<Longrightarrow> \<exists>t. s = t @ s' \<and> p' = (if t = [] then p else Some (last t))"
  using matches_leads_to unfolding leads_to_def .

lemma split_Cons: "(\<exists>t u. c # cs = t @ u \<and> P t u) \<longleftrightarrow> P [] (c # cs) \<or> (\<exists>t u. cs = t @ u \<and> P (c # t) u)"
  unfolding Cons_eq_append_conv by metis

lemma search_from_iff:
  "search_from r p i s \<noteq> None \<longleftrightarrow>
     (\<exists>t u q p' s'. s = t @ u \<and> q = (if t = [] then p else Some (last t)) \<and> matches r q u p' s')"
proof (induction s arbitrary: p i)
  case Nil
  then show ?case using match_at_iff [of r p i "[]"] by auto
next
  case (Cons c cs)
  have "search_from r p i (c # cs) \<noteq> None \<longleftrightarrow>
      match_at r p i (c # cs) \<noteq> None \<or> search_from r (Some c) (Suc i) cs \<noteq> None"
    by (auto split: option.splits)
  also have "\<dots> \<longleftrightarrow> (\<exists>p' s'. matches r p (c # cs) p' s') \<or>
      (\<exists>t u. cs = t @ u \<and> (\<exists>p' s'. matches r (if t = [] then Some c else Some (last t)) u p' s'))"
    unfolding match_at_iff Cons.IH by blast
  also have "\<dots> \<longleftrightarrow> (\<exists>t u. c # cs = t @ u \<and> (\<exists>p' s'. matches r (if t = [] then p else Some (last t)) u p' s'))"
    unfolding split_Cons by (simp cong: if_cong)
  finally show ?case by blast
qed

lemma re_search_iff:
  "re_search r s \<noteq> None \<longleftrightarrow>
     (\<exists>t u p' s'. s = t @ u \<and> matches r (if t = [] then None else Some (last t)) u p' s')"
  unfolding re_search_def search_from_iff by blast

lemma match_at_text:
  "match_at r p i s = Some m \<Longrightarrow> prefix (m_text m) s \<and> m_start m = i \<and> m_end m = i + length (m_text m)"
  by (auto simp: match_at_def Let_def take_is_prefix split: option.splits)

lemma sub_go_no_match:
  assumes "\<And>t u p' s'. s = t @ u \<Longrightarrow> \<not> matches r (if t = [] then p else Some (last t)) u p' s'"
  shows "sub_go r f p 0 s = s"
  using assms
proof (induction s arbitrary: p)
  case Nil
  then show ?case by simp
next
  case (Cons c cs)
  have 1: "match_at r p 0 (c # cs) = None"
    using match_at_iff [of r p 0 "c # cs"] Cons.prems [of "[]" "c # cs"] by auto
  have "\<not> matches r (if t = [] then Some c else Some (last t)) u p' s'" if "cs = t @ u" for t u p' s'
    using Cons.prems [of "c # t" u p' s'] that by (auto split: if_splits)
  from Cons.IH [OF this] 1 show ?case by simp
qed

text \<open>Substitution leaves a text alone in which the pattern is not found.\<close>

lemma re_sub_no_match: "re_search r s = None \<Longrightarrow> re_sub r rep s = s"
  unfolding re_sub_def
  by (rule sub_go_no_match) (use re_search_iff [of r s] in fastforce)

section \<open>What the groups capture\<close>

text \<open>\<open>mcap r p s g p' s' g'\<close>: like \<open>matches\<close>, with the captures before and after.  On
  the syntax tree of a given pattern the equations unfold into a decomposition of the text
  and the pieces that the groups hold.\<close>

primrec mcap :: "regex \<Rightarrow> char option \<Rightarrow> string \<Rightarrow> caps \<Rightarrow> char option \<Rightarrow> string \<Rightarrow> caps \<Rightarrow> bool" where
  "mcap REmpty p s g p' s' g' = (p' = p \<and> s' = s \<and> g' = g)"
| "mcap (RChr cs) p s g p' s' g' = ((\<exists>x. s = x # s' \<and> p' = Some x \<and> cmatch cs x) \<and> g' = g)"
| "mcap (RCStar b cs) p s g p' s' g' = (cstar_to cs p s p' s' \<and> g' = g)"
| "mcap (RSeq a b) p s g p' s' g' = (\<exists>p1 s1 g1. mcap a p s g p1 s1 g1 \<and> mcap b p1 s1 g1 p' s' g')"
| "mcap (RAlt a b) p s g p' s' g' = (mcap a p s g p' s' g' \<or> mcap b p s g p' s' g')"
| "mcap (RStar b r) p s g p' s' g' =
     (\<lambda>(p, s, g) (p', s', g'). mcap r p s g p' s' g' \<and> length s' < length s)\<^sup>*\<^sup>* (p, s, g) (p', s', g')"
| "mcap (RGroup n r) p s g p' s' g' =
     (\<exists>g1. mcap r p s g p' s' g1 \<and> g' = (n, take (length s - length s') s) # g1)"
| "mcap (RBol m) p s g p' s' g' = (p' = p \<and> s' = s \<and> g' = g \<and> at_bol m p)"
| "mcap (REol m) p s g p' s' g' = (p' = p \<and> s' = s \<and> g' = g \<and> at_eol m s)"
| "mcap (RWordB b) p s g p' s' g' = (p' = p \<and> s' = s \<and> g' = g \<and> at_wordb p s = b)"
| "mcap (RLook pos r) p s g p' s' g' =
     (p' = p \<and> s' = s \<and> (if pos then \<exists>p1 s1. mcap r p s g p1 s1 g' else g' = g))"

lemma rx_star_caps:
  assumes r: "\<And>p s g k z. rx r p s g k = Some z \<Longrightarrow> \<exists>p' s' g'. mcap r p s g p' s' g' \<and> k p' s' g' = Some z"
  shows "rx (RStar gr r) p s g k = Some z \<Longrightarrow>
    \<exists>p' s' g'. mcap (RStar gr r) p s g p' s' g' \<and> k p' s' g' = Some z"
proof (induction "length s" arbitrary: p s g rule: less_induct)
  case less
  let ?step = "\<lambda>(p, s, g) (p', s', g'). mcap r p s g p' s' g' \<and> length s' < length s"
  show ?case
  proof (cases s)
    case Nil
    with less.prems show ?thesis by auto
  next
    case (Cons x xs)
    let ?K = "\<lambda>p s g. if length s \<le> length xs then rx (RStar gr r) p s g k else None"
    have body: "\<exists>p' s' g'. mcap (RStar gr r) p s g p' s' g' \<and> k p' s' g' = Some z"
      if "rx r p s g ?K = Some z"
    proof -
      from r [OF that] obtain p1 s1 g1
        where 1: "mcap r p s g p1 s1 g1" "?K p1 s1 g1 = Some z" by blast
      then have 2: "length s1 < length s" "rx (RStar gr r) p1 s1 g1 k = Some z"
        by (auto simp: Cons split: if_splits)
      from less.hyps [OF this] obtain p' s' g'
        where 3: "mcap (RStar gr r) p1 s1 g1 p' s' g'" "k p' s' g' = Some z" by blast
      have 4: "?step (p, s, g) (p1, s1, g1)" using 1(1) 2(1) by simp
      have "?step\<^sup>*\<^sup>* (p1, s1, g1) (p', s', g')" using 3(1) by simp
      from converse_rtranclp_into_rtranclp [of ?step, OF 4 this] 3(2) show ?thesis by auto
    qed
    have stop: "\<exists>p' s' g'. mcap (RStar gr r) p s g p' s' g' \<and> k p' s' g' = Some z"
      if "k p s g = Some z"
      using that by auto
    from less.prems body stop show ?thesis
      by (simp add: Cons del: mcap.simps split: if_splits option.splits)
  qed
qed

lemma rx_caps:
  "rx r p s g k = Some z \<Longrightarrow> \<exists>p' s' g'. mcap r p s g p' s' g' \<and> k p' s' g' = Some z"
proof (induction r arbitrary: p s g k z)
  case (RChr cs)
  then show ?case by (cases s) (auto split: if_splits)
next
  case (RCStar gr cs)
  from cstar_sound [OF RCStar [simplified]] show ?case by auto
next
  case (RSeq a b)
  from RSeq.prems have "rx a p s g (\<lambda>p s g. rx b p s g k) = Some z" by simp
  from RSeq.IH(1) [OF this] obtain p1 s1 g1
    where 1: "mcap a p s g p1 s1 g1" "rx b p1 s1 g1 k = Some z" by blast
  from RSeq.IH(2) [OF 1(2)] 1(1) show ?case unfolding mcap.simps by blast
next
  case (RAlt a b)
  from RAlt.prems have "rx a p s g k = Some z \<or> rx b p s g k = Some z" by (auto split: option.splits)
  with RAlt.IH [of p s g k z] show ?case unfolding mcap.simps by blast
next
  case (RStar gr r)
  from rx_star_caps [OF RStar.IH RStar.prems] show ?case .
next
  case (RGroup n r)
  from RGroup.prems have
    "rx r p s g (\<lambda>p' s' g'. k p' s' ((n, take (length s - length s') s) # g')) = Some z" by simp
  from RGroup.IH [OF this] show ?case by auto
next
  case (RLook pos r)
  show ?case
  proof (cases "rx r p s g (\<lambda>p s g. Some (s, g))")
    case None
    with RLook.prems show ?thesis by (auto split: if_splits)
  next
    case (Some a)
    from RLook.IH [OF Some] Some RLook.prems show ?thesis by (fastforce split: if_splits)
  qed
qed (auto split: if_splits)

lemma match_at_caps:
  assumes "match_at r p i s = Some m"
  obtains p' s' where "mcap r p s [] p' s' (m_caps m)"
proof -
  from assms obtain s' where "rx r p s [] (\<lambda>p s g. Some (s, g)) = Some (s', m_caps m)"
    by (auto simp: match_at_def Let_def split: option.splits)
  from rx_caps [OF this] that show thesis by auto
qed

lemma re_match_caps:
  assumes "re_match r s = Some m"
  obtains p' s' where "mcap r None s [] p' s' (m_caps m)"
  using assms by (auto simp: re_match_def elim: match_at_caps)

lemma re_search_caps:
  assumes "re_search r s = Some m"
  obtains t u p p' s' where "s = t @ u" "mcap r p u [] p' s' (m_caps m)" "m_start m = length t"
proof -
  have "\<exists>t u p p' s'. s = t @ u \<and> mcap r p u [] p' s' (m_caps m) \<and> m_start m = i + length t"
    if "search_from r p i s = Some m" for p i
    using that
  proof (induction s arbitrary: p i)
    case Nil
    then have "match_at r p i [] = Some m" by simp
    then obtain p' s' where "mcap r p [] [] p' s' (m_caps m)" by (rule match_at_caps)
    with Nil show ?case by (auto dest: match_at_text)
  next
    case (Cons c cs)
    show ?case
    proof (cases "match_at r p i (c # cs)")
      case None
      with Cons.prems have "search_from r (Some c) (Suc i) cs = Some m" by simp
      from Cons.IH [OF this] obtain t u q p' s'
        where "cs = t @ u" "mcap r q u [] p' s' (m_caps m)" "m_start m = Suc i + length t"
        by blast
      then show ?thesis by (intro exI [of _ "c # t"] exI [of _ u]) auto
    next
      case (Some m')
      with Cons.prems have m: "match_at r p i (c # cs) = Some m" by simp
      then obtain p' s' where "mcap r p (c # cs) [] p' s' (m_caps m)" by (rule match_at_caps)
      with match_at_text [OF m] show ?thesis by (intro exI [of _ "[]"] exI [of _ "c # cs"]) auto
    qed
  qed
  from this [of None 0] assms that show thesis by (auto simp: re_search_def)
qed

lemma mcap_suffix: "mcap r p s g p' s' g' \<Longrightarrow> suffix s' s"
proof (induction r arbitrary: p s g p' s' g')
  case (RCStar b cs)
  then have "cstar_to cs p s p' s'" by simp
  then show ?case using cstar_to_suffix by (fastforce simp: suffix_def)
next
  case (RSeq a b)
  then obtain p1 s1 g1 where "mcap a p s g p1 s1 g1" "mcap b p1 s1 g1 p' s' g'" by auto
  with RSeq.IH show ?case by (blast intro: suffix_order.trans)
next
  case (RAlt a b)
  then show ?case unfolding mcap.simps by blast
next
  case (RStar b r)
  let ?step = "\<lambda>(p, s, g) (p', s', g'). mcap r p s g p' s' g' \<and> length s' < length s"
  from RStar.prems have "?step\<^sup>*\<^sup>* (p, s, g) (p', s', g')" by simp
  then show ?case
  proof (induction "(p', s', g')" arbitrary: p' s' g' rule: rtranclp_induct)
    case base
    then show ?case by simp
  next
    case (step y)
    obtain p1 s1 g1 where y: "y = (p1, s1, g1)" by (cases y)
    from step.hyps(3) [OF y] step.hyps(2) RStar.IH [of p1 s1 g1 p' s' g'] show ?case
      unfolding y by (auto intro: suffix_order.trans)
  qed
next
  case (RGroup n r)
  then obtain g1 where "mcap r p s g p' s' g1" by auto
  then show ?case by (rule RGroup.IH)
next
  case (RLook pos r)
  then show ?case by simp
qed (auto simp: suffix_def)

text \<open>The decomposition that a repeated character class gives.\<close>

lemma cstar_to_iff:
  "cstar_to cs p s p' s' \<longleftrightarrow>
     (\<exists>t. s = t @ s' \<and> list_all (cmatch cs) t \<and> p' = (if t = [] then p else Some (last t)))"
  using cstar_to_suffix cstar_to_append by blast

section \<open>Evaluating the matcher on partly known text\<close>

text \<open>A pattern that starts with the literal text \<open>w\<close>.\<close>

definition rlits :: "string \<Rightarrow> regex \<Rightarrow> regex" where
  "rlits w r = foldr (\<lambda>c. RSeq (RLit c)) w r"

lemma rlits_simps [simp]: "rlits [] r = r" "rlits (c # w) r = RSeq (RLit c) (rlits w r)"
  by (simp_all add: rlits_def)

lemma rx_rlits: "rx (rlits w r) p (w @ s) g k = rx r (if w = [] then p else Some (last w)) s g k"
  by (induction w arbitrary: p) auto

lemma rx_rlits_None: "\<not> prefix w s \<Longrightarrow> rx (rlits w r) p s g k = None"
proof (induction w arbitrary: p s)
  case Nil
  then show ?case by simp
next
  case (Cons c w)
  then show ?case by (cases s) auto
qed

lemma cstar_span:
  assumes "list_all (cmatch cs) t" "s = [] \<or> \<not> cmatch cs (hd s)"
    "k (if t = [] then p else Some (last t)) s = Some z"
  shows "cstar True cs p (t @ s) k = Some z"
  using assms
proof (induction t arbitrary: p)
  case Nil
  then show ?case by (cases s) auto
next
  case (Cons x t)
  then have "cstar True cs (Some x) (t @ s) k = Some z" by (auto split: if_splits)
  with Cons.prems show ?case by simp
qed

lemma search_from_skip:
  assumes "\<And>u v. t = u @ v \<Longrightarrow> v \<noteq> [] \<Longrightarrow>
     match_at r (if u = [] then p else Some (last u)) (i + length u) (v @ s) = None"
  shows "search_from r p i (t @ s) = search_from r (if t = [] then p else Some (last t)) (i + length t) s"
  using assms
proof (induction t arbitrary: p i)
  case Nil
  then show ?case by simp
next
  case (Cons c t)
  have 1: "match_at r p i (c # t @ s) = None" using Cons.prems [of "[]" "c # t"] by simp
  have "match_at r (if u = [] then Some c else Some (last u)) (Suc i + length u) (v @ s) = None"
    if "t = u @ v" "v \<noteq> []" for u v
    using Cons.prems [of "c # u" v] that by (auto split: if_splits)
  from Cons.IH [OF this] 1 show ?case by simp
qed

lemma rx_seq_word: "rx (RSeq (RWordB b) (rlits w r)) p s g k = Some z \<Longrightarrow> prefix w s"
  using rx_rlits_None by (fastforce split: if_splits)

lemma prefix_not_into:
  assumes "prefix w (v @ c # s)" "c \<notin> set w"
  shows "prefix w v"
proof (cases "length w \<le> length v")
  case True
  with assms(1) show ?thesis by (metis prefix_length_prefix prefixI)
next
  case False
  with assms(1) have "prefix v w" by (metis prefix_length_prefix prefixI nat_le_linear)
  then obtain y where y: "w = v @ y" by (auto simp: prefix_def)
  with False assms(1) have "prefix y (c # s)" "y \<noteq> []" by auto
  then have "c \<in> set y" by (cases y) auto
  with assms(2) y show ?thesis by auto
qed

lemma dot_star_all:
  assumes "newline \<notin> set s"
  shows "cstar_to (CSet True [CChr newline]) p s (if s = [] then p else Some (last s)) []"
proof -
  have "list_all (cmatch (CSet True [CChr newline])) s" using assms by (auto simp: list_all_iff)
  from cstar_to_append [OF this, of p "[]"] show ?thesis by simp
qed

section \<open>Text that every match contains\<close>

text \<open>
  \<open>starts r w\<close> and \<open>needs r w\<close> are computable sufficient conditions for every match of
  \<open>r\<close> to begin with, and to contain, the literal text \<open>w\<close>.  They settle by evaluation that
  a pattern of the source cannot match a line that lacks the text.
\<close>

fun lit_of :: "regex \<Rightarrow> char option" where
  "lit_of (RChr (CSet False [CChr d])) = Some d"
| "lit_of r = None"

fun zero_width :: "regex \<Rightarrow> bool" where
  "zero_width (RBol m) = True"
| "zero_width (RWordB m) = True"
| "zero_width (RLook pos r) = True"
| "zero_width r = False"

primrec starts :: "regex \<Rightarrow> string \<Rightarrow> bool" where
  "starts REmpty w = (w = [])"
| "starts (RChr cs) w = (w = [] \<or> lit_of (RChr cs) = Some (hd w) \<and> tl w = [])"
| "starts (RCStar g cs) w = (w = [])"
| "starts (RSeq a b) w = (w = [] \<or>
     (case lit_of a of Some d \<Rightarrow> hd w = d \<and> starts b (tl w)
      | None \<Rightarrow> if zero_width a then starts b w else starts a w))"
| "starts (RAlt a b) w = (starts a w \<and> starts b w)"
| "starts (RStar g r) w = (w = [])"
| "starts (RGroup n r) w = starts r w"
| "starts (RBol m) w = (w = [])"
| "starts (REol m) w = (w = [])"
| "starts (RWordB m) w = (w = [])"
| "starts (RLook pos r) w = (w = [])"

primrec needs :: "regex \<Rightarrow> string \<Rightarrow> bool" where
  "needs REmpty w = (w = [])"
| "needs (RChr cs) w = starts (RChr cs) w"
| "needs (RCStar g cs) w = (w = [])"
| "needs (RSeq a b) w = (starts (RSeq a b) w \<or> needs a w \<or> needs b w)"
| "needs (RAlt a b) w = (needs a w \<and> needs b w)"
| "needs (RStar g r) w = (w = [])"
| "needs (RGroup n r) w = needs r w"
| "needs (RBol m) w = (w = [])"
| "needs (REol m) w = (w = [])"
| "needs (RWordB m) w = (w = [])"
| "needs (RLook pos r) w = (w = [])"

lemma lit_of_Some: "lit_of r = Some d \<Longrightarrow> r = RLit d"
  by (cases r rule: lit_of.cases) auto

lemma zero_width_matches: "zero_width r \<Longrightarrow> matches r p s p' s' \<Longrightarrow> s' = s"
  by (cases r rule: zero_width.cases) auto

lemma starts_matches: "starts r w \<Longrightarrow> matches r p s p' s' \<Longrightarrow> prefix w s"
proof (induction r arbitrary: w p s p' s')
  case (RChr cs)
  show ?case
  proof (cases w)
    case (Cons c cs')
    with RChr have "RChr cs = RLit c" "cs' = []" by (auto dest: lit_of_Some)
    with RChr.prems(2) Cons show ?thesis by auto
  qed simp
next
  case (RSeq a b)
  from RSeq.prems(2) obtain p1 s1 where m: "matches a p s p1 s1" "matches b p1 s1 p' s'" by auto
  show ?case
  proof (cases w)
    case (Cons c w')
    show ?thesis
    proof (cases "lit_of a")
      case None
      with RSeq.prems(1) Cons RSeq.IH m zero_width_matches [of a p s p1 s1] show ?thesis
        by (auto split: if_splits)
    next
      case (Some d)
      with RSeq.prems(1) Cons have "c = d" "starts b w'" by auto
      moreover have "s = d # s1" using m(1) lit_of_Some [OF Some] by auto
      ultimately show ?thesis using RSeq.IH(2) [OF _ m(2)] Cons by simp
    qed
  qed simp
next
  case (RAlt a b)
  then show ?case unfolding matches.simps starts.simps by blast
next
  case (RGroup n r)
  then show ?case unfolding matches.simps starts.simps by blast
qed auto

lemma needs_matches: "needs r w \<Longrightarrow> matches r p s p' s' \<Longrightarrow> sublist w s"
proof (induction r arbitrary: p s p' s')
  case (RChr cs)
  then show ?case using starts_matches [of "RChr cs" w p s p' s'] by (auto intro: prefix_imp_sublist)
next
  case (RSeq a b)
  from RSeq.prems(2) obtain p1 s1 where m: "matches a p s p1 s1" "matches b p1 s1 p' s'" by auto
  from matches_suffix [OF m(1)] have s1: "sublist s1 s" by auto
  from RSeq.prems(1) consider "starts (RSeq a b) w" | "needs a w" | "needs b w" by auto
  then show ?case
  proof cases
    case 1
    from starts_matches [OF this RSeq.prems(2)] show ?thesis by (rule prefix_imp_sublist)
  next
    case 2
    then show ?thesis using RSeq.IH(1) m(1) by blast
  next
    case 3
    then have "sublist w s1" using RSeq.IH(2) m(2) by blast
    with s1 show ?thesis by (rule sublist_order.order_trans [rotated])
  qed
next
  case (RAlt a b)
  then show ?case unfolding matches.simps needs.simps by blast
next
  case (RGroup n r)
  then show ?case unfolding matches.simps needs.simps by blast
qed auto

lemma re_match_needs: "needs r w \<Longrightarrow> \<not> sublist w s \<Longrightarrow> re_match r s = None"
  using re_match_iff [of r s] needs_matches by blast

lemma re_match_starts: "starts r w \<Longrightarrow> \<not> prefix w s \<Longrightarrow> re_match r s = None"
  using re_match_iff [of r s] starts_matches by blast

lemma re_search_needs:
  assumes "needs r w" "\<not> sublist w s"
  shows "re_search r s = None"
proof (rule ccontr)
  assume "re_search r s \<noteq> None"
  then obtain t u p p' s' where "s = t @ u" "matches r p u p' s'" using re_search_iff [of r s] by blast
  with needs_matches [OF assms(1)] have "sublist w u" "sublist u s" by auto
  with assms(2) show False using sublist_order.order_trans by blast
qed

lemma re_sub_needs: "needs r w \<Longrightarrow> \<not> sublist w s \<Longrightarrow> re_sub r rep s = s"
  by (intro re_sub_no_match re_search_needs)

section \<open>Patterns with literal text in them\<close>

lemma re_sub_char: "re_sub (RChr cs) [r] s = map (\<lambda>c. if cmatch cs c then r else c) s"
proof -
  have "sub_go (RChr cs) (\<lambda>_. [r]) p 0 s = map (\<lambda>c. if cmatch cs c then r else c) s" for p
    by (induction s arbitrary: p) (auto simp: match_at_def Let_def)
  then show ?thesis by (simp add: re_sub_def)
qed

definition plain_re_char :: "char \<Rightarrow> bool" where
  "plain_re_char c = (c \<notin> set (raw ''*+?{()|.^$[`''))"

declare parse_re.simps [simp del]

lemma parse_literal_char:
  assumes "plain_re_char c"
  shows "parse_re (Suc f) no_flags n st alts cur q (c # cs) = parse_re f no_flags n st alts (RLit c # cur) False cs"
proof -
  have c: "c \<noteq> CHR ''*'' \<and> c \<noteq> CHR ''+'' \<and> c \<noteq> CHR ''?'' \<and> c \<noteq> CHR ''{''"
    "c \<noteq> CHR ''(''" "c \<noteq> CHR '')''" "c \<noteq> CHR ''|''" "c \<noteq> CHR ''.''" "c \<noteq> CHR ''^''" "c \<noteq> CHR ''$''"
    "c \<noteq> CHR ''[''" "c \<noteq> backslash"
    using assms by (simp_all add: plain_re_char_def raw_def backslash_def)
  have q: "quantifier c cs = None" using c(1) by (simp add: quantifier_def)
  have l: "lit_node no_flags c = RLit c" by (simp add: lit_node_def no_flags_def)
  show ?thesis unfolding parse_re.simps(3) q option.case if_not_P [OF c(2)] if_not_P [OF c(3)] if_not_P [OF c(4)]
      if_not_P [OF c(5)] if_not_P [OF c(6)] if_not_P [OF c(7)] if_not_P [OF c(8)] if_not_P [OF c(9)] l ..
qed

lemma parse_literal:
  "list_all plain_re_char w \<Longrightarrow> w \<noteq> [] \<Longrightarrow> parse_re (length w + f) no_flags n st alts cur q (w @ rest) =
     parse_re f no_flags n st alts (rev (map RLit w) @ cur) False rest"
proof (induction w arbitrary: cur q)
  case Nil
  then show ?case by simp
next
  case (Cons c w)
  then show ?case by (cases "w = []") (simp_all add: parse_literal_char)
qed

abbreviation spaces :: regex where
  "spaces \<equiv> RCStar True (CSet False [CEsc CHR ''s''])"

lemma parse_spaces:
  assumes "c \<noteq> CHR ''?''"
  shows "parse_re (Suc (Suc f)) no_flags n st alts cur q (backslash # CHR ''s'' # CHR ''*'' # c # cs) =
    parse_re f no_flags n st alts (spaces # cur) True (c # cs)"
  using assms
  by (simp add: parse_re.simps(3) quantifier_def backslash_def is_class_esc_def)

lemma rseqs_Cons: "rs \<noteq> [] \<Longrightarrow> rseqs (r # rs) = RSeq r (rseqs rs)"
  by (cases rs) auto

lemma matches_lits:
  "rs \<noteq> [] \<Longrightarrow> matches (rseqs (map RLit w @ rs)) p s p' s' \<longleftrightarrow>
     (\<exists>t. s = w @ t \<and> matches (rseqs rs) (if w = [] then p else Some (last w)) t p' s')"
  by (induction w arbitrary: p s) (auto simp: rseqs_Cons)

lemma mcap_lits:
  "rs \<noteq> [] \<Longrightarrow> mcap (rseqs (map RLit w @ rs)) p s g p' s' g' \<longleftrightarrow>
     (\<exists>t. s = w @ t \<and> mcap (rseqs rs) (if w = [] then p else Some (last w)) t g p' s' g')"
  by (induction w arbitrary: p s) (auto simp: rseqs_Cons)

lemma mcap_spaces:
  assumes "mcap (rseqs ([spaces] @ rs)) p s g p' s' g'" "rs \<noteq> []"
  obtains a t q where "s = a @ t" "list_all is_space a" "mcap (rseqs rs) q t g p' s' g'"
proof -
  from assms(2) have r: "rseqs ([spaces] @ rs) = RSeq spaces (rseqs rs)" by (cases rs) auto
  from assms(1) obtain q t where c: "cstar_to (CSet False [CEsc CHR ''s'']) p s q t" and m: "mcap (rseqs rs) q t g p' s' g'"
    unfolding r by auto
  from c obtain a where a: "s = a @ t" "list_all (cmatch (CSet False [CEsc CHR ''s''])) a"
    unfolding cstar_to_iff by blast
  from a(2) have "list_all is_space a" by (simp add: list_all_iff esc_class_def)
  with a(1) m that show thesis by blast
qed

lemma span_unique:
  assumes "a @ x = b @ y" "list_all P a" "list_all P b" "x = [] \<or> \<not> P (hd x)" "y = [] \<or> \<not> P (hd y)"
  shows "a = b \<and> x = y"
proof -
  have t: "takeWhile P (u @ z) = u" if "list_all P u" "z = [] \<or> \<not> P (hd z)" for u z
    using that by (induction u) (auto simp: takeWhile_eq_Nil_iff)
  from assms(1) have "takeWhile P (a @ x) = takeWhile P (b @ y)" by simp
  with t [OF assms(2,4)] t [OF assms(3,5)] assms(1) show ?thesis by simp
qed

section \<open>Matches that consume text\<close>

text \<open>
  \<open>consumes r\<close>: every match of \<open>r\<close> takes at least one character.  \<open>tail_group n r\<close>: group
  \<open>n\<close> is the last but the end of \<open>r\<close>, and something before it consumes, so that what the
  group holds is shorter than the text.  Both are settled by evaluation, and give the
  termination of the loops that go on with the rest of a line.
\<close>

primrec consumes :: "regex \<Rightarrow> bool" where
  "consumes REmpty = False"
| "consumes (RChr cs) = True"
| "consumes (RCStar g cs) = False"
| "consumes (RSeq a b) = (consumes a \<or> consumes b)"
| "consumes (RAlt a b) = (consumes a \<and> consumes b)"
| "consumes (RStar g r) = False"
| "consumes (RGroup n r) = consumes r"
| "consumes (RBol m) = False"
| "consumes (REol m) = False"
| "consumes (RWordB m) = False"
| "consumes (RLook pos r) = False"

fun is_group :: "regex \<Rightarrow> nat \<Rightarrow> bool" where
  "is_group (RGroup k r) n = (k = n)"
| "is_group r n = False"

fun is_eol :: "regex \<Rightarrow> bool" where
  "is_eol (REol m) = True"
| "is_eol r = False"

primrec ends_group :: "regex \<Rightarrow> nat \<Rightarrow> bool" where
  "ends_group REmpty n = False"
| "ends_group (RChr cs) n = False"
| "ends_group (RCStar g cs) n = False"
| "ends_group (RSeq a b) n = (is_group a n \<and> is_eol b \<or> ends_group b n)"
| "ends_group (RAlt a b) n = False"
| "ends_group (RStar g r) n = False"
| "ends_group (RGroup k r) n = False"
| "ends_group (RBol m) n = False"
| "ends_group (REol m) n = False"
| "ends_group (RWordB m) n = False"
| "ends_group (RLook pos r) n = False"

primrec tail_group :: "regex \<Rightarrow> nat \<Rightarrow> bool" where
  "tail_group REmpty n = False"
| "tail_group (RChr cs) n = False"
| "tail_group (RCStar g cs) n = False"
| "tail_group (RSeq a b) n = (consumes a \<and> ends_group b n \<or> tail_group b n)"
| "tail_group (RAlt a b) n = False"
| "tail_group (RStar g r) n = False"
| "tail_group (RGroup k r) n = False"
| "tail_group (RBol m) n = False"
| "tail_group (REol m) n = False"
| "tail_group (RWordB m) n = False"
| "tail_group (RLook pos r) n = False"

lemma mcap_length: "mcap r p s g p' s' g' \<Longrightarrow> length s' \<le> length s"
  using mcap_suffix suffix_length_le by blast

lemma consumes_mcap: "consumes r \<Longrightarrow> mcap r p s g p' s' g' \<Longrightarrow> length s' < length s"
proof (induction r arbitrary: p s g p' s' g')
  case (RSeq a b)
  from RSeq.prems(2) obtain p1 s1 g1 where m: "mcap a p s g p1 s1 g1" "mcap b p1 s1 g1 p' s' g'" by auto
  from RSeq.prems(1) show ?case
  proof (simp, elim disjE)
    assume "consumes a"
    from RSeq.IH(1) [OF this m(1)] mcap_length [OF m(2)] show ?thesis by simp
  next
    assume "consumes b"
    from RSeq.IH(2) [OF this m(2)] mcap_length [OF m(1)] show ?thesis by simp
  qed
next
  case (RAlt a b)
  then show ?case unfolding mcap.simps consumes.simps by blast
next
  case (RGroup n r)
  then show ?case unfolding mcap.simps consumes.simps by blast
qed auto

lemma ends_group_mcap:
  "ends_group r n \<Longrightarrow> mcap r p s g p' s' g' \<Longrightarrow> \<exists>u. map_of g' n = Some u \<and> length u \<le> length s"
proof (induction r arbitrary: p s g p' s' g')
  case (RSeq a b)
  from RSeq.prems(2) obtain p1 s1 g1 where m: "mcap a p s g p1 s1 g1" "mcap b p1 s1 g1 p' s' g'" by auto
  show ?case
  proof (cases "is_group a n \<and> is_eol b")
    case True
    then obtain r m where "a = RGroup n r" "b = REol m" by (cases a; cases b) auto
    with m show ?thesis by auto
  next
    case False
    with RSeq.prems(1) have "ends_group b n" by simp
    from RSeq.IH(2) [OF this m(2)] mcap_length [OF m(1)] show ?thesis by fastforce
  qed
qed auto

lemma tail_group_mcap:
  "tail_group r n \<Longrightarrow> mcap r p s g p' s' g' \<Longrightarrow> \<exists>u. map_of g' n = Some u \<and> length u < length s"
proof (induction r arbitrary: p s g p' s' g')
  case (RSeq a b)
  from RSeq.prems(2) obtain p1 s1 g1 where m: "mcap a p s g p1 s1 g1" "mcap b p1 s1 g1 p' s' g'" by auto
  show ?case
  proof (cases "tail_group b n")
    case True
    from RSeq.IH(2) [OF this m(2)] mcap_length [OF m(1)] show ?thesis by fastforce
  next
    case False
    with RSeq.prems(1) have "consumes a" "ends_group b n" by auto
    from consumes_mcap [OF this(1) m(1)] ends_group_mcap [OF this(2) m(2)] show ?thesis by fastforce
  qed
qed auto

lemma consumes_text:
  assumes "consumes r" "match_at r p i s = Some m"
  shows "m_text m \<noteq> []"
proof -
  from assms(2) obtain s' where rx: "rx r p s [] (\<lambda>p s g. Some (s, g)) = Some (s', m_caps m)"
      and t: "m_text m = take (length s - length s') s"
    by (auto simp: match_at_def Let_def split: option.splits)
  from rx_caps [OF rx] obtain p1 where "mcap r p s [] p1 s' (m_caps m)" by auto
  from consumes_mcap [OF assms(1) this] show ?thesis by (cases s) (auto simp: t)
qed

lemma tail_group_shorter:
  assumes "tail_group r n" "0 < n" "re_match r s = Some m"
  shows "length (m_grp m n) < length s"
proof -
  from assms(3) obtain p' s' where "mcap r None s [] p' s' (m_caps m)" by (rule re_match_caps)
  from tail_group_mcap [OF assms(1) this] assms(2) show ?thesis by (auto simp: m_grp_def m_group_def)
qed

end
