(* ===== verification/Lint_State.thy ===== *)
theory Lint_State
  imports Py_Regex "HOL-Library.AList"
begin

text \<open>
  The module-wide state of \<open>src/build_support/cpplint.py\<close> and the functions that decide
  whether an error is reported: the error categories, the class \<open>_CppLintState\<close> (filters,
  verbosity, error counts, output), the NOLINT suppressions, the file extension settings, and
  \<open>Error\<close>.

  A function of the program that may report errors becomes a function from the module state
  to a result: the new state, or the exception it raises.  \<open>run\<close> executes a list of such
  actions in order and \<open>whenever\<close> guards one, so that a body of the source reads as a list of
  its statements.  The error callback that the checks take as their argument is an argument
  here as well.  The locale \<open>reporter\<close> is the contract between the checks and that
  callback: a state predicate that every report of a known category keeps is kept by every
  check (proved once per check), and \<open>Error\<close> is an instance of it.
\<close>

section \<open>Error categories and defaults\<close>

definition ERROR_CATEGORIES :: "string list" where
  "ERROR_CATEGORIES =
     [''build/class'', ''build/c++11'', ''build/c++14'', ''build/c++tr1'', ''build/deprecated'',
      ''build/endif_comment'', ''build/explicit_make_pair'', ''build/forward_decl'',
      ''build/header_guard'', ''build/include'', ''build/include_subdir'',
      ''build/include_alpha'', ''build/include_order'', ''build/include_what_you_use'',
      ''build/namespaces_literals'', ''build/namespaces'', ''build/printf_format'',
      ''build/storage_class'', ''legal/copyright'', ''readability/alt_tokens'',
      ''readability/braces'', ''readability/casting'', ''readability/check'',
      ''readability/constructors'', ''readability/fn_size'', ''readability/inheritance'',
      ''readability/multiline_comment'', ''readability/multiline_string'',
      ''readability/namespace'', ''readability/nolint'', ''readability/nul'',
      ''readability/strings'', ''readability/todo'', ''readability/utf8'', ''runtime/arrays'',
      ''runtime/casting'', ''runtime/explicit'', ''runtime/int'', ''runtime/init'',
      ''runtime/invalid_increment'', ''runtime/member_string_references'', ''runtime/memset'',
      ''runtime/indentation_namespace'', ''runtime/operator'', ''runtime/printf'',
      ''runtime/printf_format'', ''runtime/references'', ''runtime/string'',
      ''runtime/threadsafe_fn'', ''runtime/vlog'', ''whitespace/blank_line'',
      ''whitespace/braces'', ''whitespace/comma'', ''whitespace/comments'',
      ''whitespace/empty_conditional_body'', ''whitespace/empty_if_body'',
      ''whitespace/empty_loop_body'', ''whitespace/end_of_line'', ''whitespace/ending_newline'',
      ''whitespace/forcolon'', ''whitespace/indent'', ''whitespace/line_length'',
      ''whitespace/newline'', ''whitespace/operators'', ''whitespace/parens'',
      ''whitespace/semicolon'', ''whitespace/tab'', ''whitespace/todo'']"

definition LEGACY_ERROR_CATEGORIES :: "string list" where
  "LEGACY_ERROR_CATEGORIES =
     [''readability/streams'', ''readability/function'']"

definition DEFAULT_FILTERS :: "string list" where
  "DEFAULT_FILTERS =
     [''-build/include_alpha'']"

definition DEFAULT_C_SUPPRESSED_CATEGORIES :: "string list" where
  "DEFAULT_C_SUPPRESSED_CATEGORIES =
     [''readability/casting'']"

definition DEFAULT_KERNEL_SUPPRESSED_CATEGORIES :: "string list" where
  "DEFAULT_KERNEL_SUPPRESSED_CATEGORIES =
     [''whitespace/tab'']"


section \<open>The module state\<close>

record cpplint_state =
  verbose_level :: int
  error_count :: nat
  filters :: "string list"
  filters_backup :: "string list"
  counting :: string
  errors_by_category :: "(string \<times> nat) list"
  quiet :: bool
  output_format :: string
  junit_errors :: "string list"
  junit_failures :: "(string \<times> int option \<times> string \<times> string \<times> int) list"

text \<open>
  The globals of the module.  A Python set is a list without repetitions; where the source
  iterates over a set, the order is that of the list.
\<close>

record lint =
  lstate :: cpplint_state
  error_suppressions :: "string option \<rightharpoonup> int set"
  global_error_suppressions :: "string \<rightharpoonup> bool"
  valid_extensions :: "string list"
  hpp_headers :: "string list"
  root :: "string option"
  repository :: "string option"
  module_quiet :: bool
  line_length :: int
  stdout :: string
  stderr :: string

text \<open>The state after the module has been loaded.\<close>

definition lint_init :: "cpplint_state \<Rightarrow> lint" where
  "lint_init s = \<lparr>lstate = s, error_suppressions = Map.empty, global_error_suppressions = Map.empty,
     valid_extensions = [], hpp_headers = [], root = None, repository = None,
     module_quiet = False, line_length = 80, stdout = [], stderr = []\<rparr>"

type_synonym action = "lint \<Rightarrow> lint py"
type_synonym error_fn = "string \<Rightarrow> int option \<Rightarrow> string \<Rightarrow> int \<Rightarrow> string \<Rightarrow> action"

fun run :: "action list \<Rightarrow> action" where
  "run [] st = Inr st"
| "run (a # as) st = py_bind (a st) (run as)"

definition whenever :: "bool \<Rightarrow> action \<Rightarrow> action" where
  "whenever b a st = (if b then a st else Inr st)"

text \<open>A \<open>for\<close> loop over a list whose body is an action.\<close>

definition for_each :: "'a list \<Rightarrow> ('a \<Rightarrow> action) \<Rightarrow> action" where
  "for_each xs f = run (map f xs)"

section \<open>Class \<open>_CppLintState\<close>\<close>

definition CppLintState_init :: cpplint_state where
  "CppLintState_init = \<lparr>verbose_level = 1, error_count = 0, filters = DEFAULT_FILTERS,
     filters_backup = DEFAULT_FILTERS, counting = ''total'', errors_by_category = [],
     quiet = False, output_format = ''emacs'', junit_errors = [], junit_failures = []\<rparr>"

definition SetOutputFormat :: "string \<Rightarrow> cpplint_state \<Rightarrow> cpplint_state" where
  "SetOutputFormat f s = s\<lparr>output_format := f\<rparr>"

text \<open>The setters that return the previous setting return it beside the new state.\<close>

definition SetQuiet :: "bool \<Rightarrow> cpplint_state \<Rightarrow> bool \<times> cpplint_state" where
  "SetQuiet q s = (quiet s, s\<lparr>quiet := q\<rparr>)"

definition SetVerboseLevel :: "int \<Rightarrow> cpplint_state \<Rightarrow> int \<times> cpplint_state" where
  "SetVerboseLevel l s = (verbose_level s, s\<lparr>verbose_level := l\<rparr>)"

definition SetCountingStyle :: "string \<Rightarrow> cpplint_state \<Rightarrow> cpplint_state" where
  "SetCountingStyle c s = s\<lparr>counting := c\<rparr>"

definition filter_ok :: "string \<Rightarrow> bool" where
  "filter_ok f = (startswith f ''+'' \<or> startswith f ''-'')"

definition AddFilters :: "string \<Rightarrow> cpplint_state \<Rightarrow> cpplint_state py" where
  "AddFilters fs s =
     (let clean = filter (\<lambda>f. f \<noteq> []) (map str_strip (str_split (CHR '','') fs));
          fs' = filters s @ clean
      in case List.find (\<lambda>f. \<not> filter_ok f) fs' of
           None \<Rightarrow> Inr (s\<lparr>filters := fs'\<rparr>)
         | Some f \<Rightarrow> Inl (ValueError (''Every filter in --filters must start with + or - ('' @ f @ '' does not)'')))"

definition SetFilters :: "string \<Rightarrow> cpplint_state \<Rightarrow> cpplint_state py" where
  "SetFilters fs s = AddFilters fs (s\<lparr>filters := DEFAULT_FILTERS\<rparr>)"

definition BackupFilters :: "cpplint_state \<Rightarrow> cpplint_state" where
  "BackupFilters s = s\<lparr>filters_backup := filters s\<rparr>"

definition RestoreFilters :: "cpplint_state \<Rightarrow> cpplint_state" where
  "RestoreFilters s = s\<lparr>filters := filters_backup s\<rparr>"

definition ResetErrorCounts :: "cpplint_state \<Rightarrow> cpplint_state" where
  "ResetErrorCounts s = s\<lparr>error_count := 0, errors_by_category := []\<rparr>"

definition IncrementErrorCount :: "string \<Rightarrow> cpplint_state \<Rightarrow> cpplint_state" where
  "IncrementErrorCount category s =
     (let s = s\<lparr>error_count := error_count s + 1\<rparr> in
      if counting s \<in> {''toplevel'', ''detailed''} then
        (let category = (if counting s \<noteq> ''detailed'' then hd (str_split (CHR ''/'') category) else category);
             d = errors_by_category s;
             d = (if map_of d category = None then AList.update category 0 d else d)
         in s\<lparr>errors_by_category := AList.update category (the (map_of d category) + 1) d\<rparr>)
      else s)"

definition AddJUnitFailure :: "string \<Rightarrow> int option \<Rightarrow> string \<Rightarrow> string \<Rightarrow> int \<Rightarrow> cpplint_state \<Rightarrow> cpplint_state" where
  "AddJUnitFailure filename linenum message category confidence s =
     s\<lparr>junit_failures := junit_failures s @ [(filename, linenum, message, category, confidence)]\<rparr>"

text \<open>Writing to the standard streams.\<close>

definition stderr_write :: "string \<Rightarrow> lint \<Rightarrow> lint" where
  "stderr_write m st = st\<lparr>stderr := stderr st @ m\<rparr>"

definition PrintInfo :: "string \<Rightarrow> lint \<Rightarrow> lint" where
  "PrintInfo message st =
     (if \<not> module_quiet st \<and> output_format (lstate st) \<noteq> ''junit''
      then st\<lparr>stdout := stdout st @ message\<rparr> else st)"

definition PrintError :: "string \<Rightarrow> lint \<Rightarrow> lint" where
  "PrintError message st =
     (if output_format (lstate st) = ''junit''
      then st\<lparr>lstate := (lstate st)\<lparr>junit_errors := junit_errors (lstate st) @ [message]\<rparr>\<rparr>
      else stderr_write message st)"

definition PrintErrorCounts :: "lint \<Rightarrow> lint" where
  "PrintErrorCounts st =
     (let st1 = fold (\<lambda>(category, n). PrintInfo (''Category '' @ [CHR 0x27] @ category @ [CHR 0x27]
            @ '' errors found: '' @ str_of_nat n @ [newline])) (sort_key fst (errors_by_category (lstate st))) st
      in if error_count (lstate st) > 0
         then PrintInfo (''Total errors found: '' @ str_of_nat (error_count (lstate st)) @ [newline]) st1
         else st1)"

section \<open>File extension settings\<close>

definition comma_set :: "string \<Rightarrow> string list" where
  "comma_set val = remdups (map str_strip (str_split (CHR '','') val))"

definition ProcessHppHeadersOption :: "string \<Rightarrow> lint \<Rightarrow> lint" where
  "ProcessHppHeadersOption val st = st\<lparr>hpp_headers := comma_set val\<rparr>"

definition ProcessExtensionsOption :: "string \<Rightarrow> lint \<Rightarrow> lint" where
  "ProcessExtensionsOption val st = st\<lparr>valid_extensions := comma_set val\<rparr>"

definition GetHeaderExtensions :: "lint \<Rightarrow> string list" where
  "GetHeaderExtensions st =
     (if hpp_headers st \<noteq> [] then hpp_headers st
      else if valid_extensions st \<noteq> [] then filter (\<lambda>h. str_in ''h'' h) (valid_extensions st)
      else [''h'', ''hh'', ''hpp'', ''hxx'', ''h++'', ''cuh''])"

definition IsHeaderExtension :: "lint \<Rightarrow> string \<Rightarrow> bool" where
  "IsHeaderExtension st file_extension = (file_extension \<in> set (GetHeaderExtensions st))"

definition GetAllExtensions :: "lint \<Rightarrow> string list" where
  "GetAllExtensions st =
     remdups (GetHeaderExtensions st @
       (if valid_extensions st \<noteq> [] then valid_extensions st
        else [''c'', ''cc'', ''cpp'', ''cxx'', ''c++'', ''cu'']))"

definition GetNonHeaderExtensions :: "lint \<Rightarrow> string list" where
  "GetNonHeaderExtensions st =
     filter (\<lambda>e. e \<notin> set (GetHeaderExtensions st)) (GetAllExtensions st)"

definition IsSourceExtension :: "lint \<Rightarrow> string \<Rightarrow> bool" where
  "IsSourceExtension st s = (s \<in> set (GetNonHeaderExtensions st))"

section \<open>Pattern matching wrappers\<close>

text \<open>The compilation cache of \<open>Match\<close>, \<open>Search\<close> and \<open>ReplaceAll\<close> does not change their results.\<close>

definition Match :: "string \<Rightarrow> string \<Rightarrow> match_obj option" where
  "Match pattern s = re_match (re_const pattern) s"

definition Search :: "string \<Rightarrow> string \<Rightarrow> match_obj option" where
  "Search pattern s = re_search (re_const pattern) s"

definition ReplaceAll :: "string \<Rightarrow> string \<Rightarrow> string \<Rightarrow> string" where
  "ReplaceAll pattern rep s = re_sub (re_const pattern) rep s"

section \<open>NOLINT suppressions\<close>

definition add_suppression :: "string option \<Rightarrow> int \<Rightarrow> lint \<Rightarrow> lint" where
  "add_suppression category line st =
     st\<lparr>error_suppressions := (error_suppressions st)(category \<mapsto>
          insert line (case error_suppressions st category of None \<Rightarrow> {} | Some ls \<Rightarrow> ls))\<rparr>"

definition ParseNolintSuppressions :: "error_fn \<Rightarrow> string \<Rightarrow> string \<Rightarrow> int \<Rightarrow> action" where
  "ParseNolintSuppressions error filename raw_line linenum st =
     (case Search (raw ''`bNOLINT(NEXTLINE)?`b(`([^)]+`))?'') raw_line of
        None \<Rightarrow> Inr st
      | Some matched \<Rightarrow>
        (let suppressed_line = (if m_group matched 1 \<notin> {None, Some []} then linenum + 1 else linenum) in
         case m_group matched 2 of
           None \<Rightarrow> Inr (add_suppression None suppressed_line st)
         | Some category \<Rightarrow>
             if category = ''(*)'' then Inr (add_suppression None suppressed_line st)
             else if startswith category ''('' \<and> endswith category '')'' then
               (let category = py_slice category 1 (-1) in
                if category \<in> set ERROR_CATEGORIES
                then Inr (add_suppression (Some category) suppressed_line st)
                else if category \<notin> set LEGACY_ERROR_CATEGORIES
                then error filename (Some linenum) ''readability/nolint'' 5
                       (''Unknown NOLINT error category: '' @ category) st
                else Inr st)
             else Inr st))"

definition SEARCH_C_FILE :: string where
  "SEARCH_C_FILE = raw ''`b(?:LINT_C_FILE|vim?:`s*.*(`s*|:)filetype=c(`s*|:|$))''"

definition SEARCH_KERNEL_FILE :: string where
  "SEARCH_KERNEL_FILE = raw ''`b(?:LINT_KERNEL_FILE)''"

definition suppress_globally :: "string list \<Rightarrow> lint \<Rightarrow> lint" where
  "suppress_globally categories st = fold (\<lambda>c st. st\<lparr>global_error_suppressions :=
     (global_error_suppressions st)(c \<mapsto> True)\<rparr>) categories st"

definition ProcessGlobalSuppresions :: "string list \<Rightarrow> lint \<Rightarrow> lint" where
  "ProcessGlobalSuppresions lines st =
     fold (\<lambda>line st.
       (let st1 = (if Search SEARCH_C_FILE line \<noteq> None
                   then suppress_globally DEFAULT_C_SUPPRESSED_CATEGORIES st else st)
        in if Search SEARCH_KERNEL_FILE line \<noteq> None
           then suppress_globally DEFAULT_KERNEL_SUPPRESSED_CATEGORIES st1 else st1)) lines st"

definition ResetNolintSuppressions :: "lint \<Rightarrow> lint" where
  "ResetNolintSuppressions st =
     st\<lparr>error_suppressions := Map.empty, global_error_suppressions := Map.empty\<rparr>"

definition suppressed_on :: "lint \<Rightarrow> string option \<Rightarrow> int option \<Rightarrow> bool" where
  "suppressed_on st category linenum =
     (case error_suppressions st category of None \<Rightarrow> False
      | Some ls \<Rightarrow> (case linenum of None \<Rightarrow> False | Some n \<Rightarrow> n \<in> ls))"

definition IsErrorSuppressedByNolint :: "lint \<Rightarrow> string \<Rightarrow> int option \<Rightarrow> bool" where
  "IsErrorSuppressedByNolint st category linenum =
     (global_error_suppressions st category = Some True \<or>
      suppressed_on st (Some category) linenum \<or>
      suppressed_on st None linenum)"

section \<open>Reporting an error\<close>

text \<open>The loop over the filters, with the assertion in its last branch.\<close>

fun apply_filters :: "string \<Rightarrow> string list \<Rightarrow> bool \<Rightarrow> bool py" where
  "apply_filters category [] is_filtered = Inr is_filtered"
| "apply_filters category (one_filter # fs) is_filtered =
     (if startswith one_filter ''-'' then
        apply_filters category fs (if startswith category (tl one_filter) then True else is_filtered)
      else if startswith one_filter ''+'' then
        apply_filters category fs (if startswith category (tl one_filter) then False else is_filtered)
      else Inl AssertionError)"

definition ShouldPrintError :: "lint \<Rightarrow> string \<Rightarrow> int \<Rightarrow> int option \<Rightarrow> bool py" where
  "ShouldPrintError st category confidence linenum =
     (if IsErrorSuppressedByNolint st category linenum then Inr False
      else if confidence < verbose_level (lstate st) then Inr False
      else py_bind (apply_filters category (filters (lstate st)) False) (\<lambda>is_filtered. Inr (\<not> is_filtered)))"

definition show_linenum :: "int option \<Rightarrow> string" where
  "show_linenum n = (case n of None \<Rightarrow> ''None'' | Some i \<Rightarrow> str_of_int i)"

definition Error :: error_fn where
  "Error filename linenum category confidence message st =
     py_bind (ShouldPrintError st category confidence linenum) (\<lambda>b.
       if b then
         (let st = st\<lparr>lstate := IncrementErrorCount category (lstate st)\<rparr>;
              fmt = output_format (lstate st)
          in if fmt = ''vs7'' then
               Inr (PrintError (filename @ ''('' @ show_linenum linenum @ ''): error cpplint: ['' @ category
                 @ ''] '' @ message @ '' ['' @ str_of_int confidence @ '']'' @ [newline]) st)
             else if fmt = ''eclipse'' then
               Inr (stderr_write (filename @ '':'' @ show_linenum linenum @ '': warning: '' @ message
                 @ ''  ['' @ category @ ''] ['' @ str_of_int confidence @ '']'' @ [newline]) st)
             else if fmt = ''junit'' then
               Inr (st\<lparr>lstate := AddJUnitFailure filename linenum message category confidence (lstate st)\<rparr>)
             else
               Inr (stderr_write (filename @ '':'' @ show_linenum linenum @ '':  '' @ message
                 @ ''  ['' @ category @ ''] ['' @ str_of_int confidence @ '']'' @ [newline]) st))
       else Inr st)"

section \<open>Actions that cannot raise and keep a state predicate\<close>

definition safe :: "(lint \<Rightarrow> bool) \<Rightarrow> action \<Rightarrow> bool" where
  "safe P a = (\<forall>st. P st \<longrightarrow> (\<exists>st'. a st = Inr st' \<and> P st'))"

definition keeps :: "(lint \<Rightarrow> bool) \<Rightarrow> action \<Rightarrow> bool" where
  "keeps P a = (\<forall>st st'. P st \<longrightarrow> a st = Inr st' \<longrightarrow> P st')"

lemma safeI: "(\<And>st. P st \<Longrightarrow> \<exists>st'. a st = Inr st' \<and> P st') \<Longrightarrow> safe P a"
  by (simp add: safe_def)

lemma safeD: "safe P a \<Longrightarrow> P st \<Longrightarrow> \<exists>st'. a st = Inr st' \<and> P st'"
  by (simp add: safe_def)

lemma safe_keeps: "safe P a \<Longrightarrow> keeps P a"
  by (fastforce simp: safe_def keeps_def)

lemma run_safe [intro]: "list_all (safe P) as \<Longrightarrow> safe P (run as)"
proof (induction "as")
  case Nil
  then show ?case by (simp add: safe_def)
next
  case (Cons a "as")
  then have a: "safe P a" and b: "safe P (run as)" by auto
  show ?case
  proof (rule safeI)
    fix st assume "P st"
    from safeD [OF a this] obtain st1 where "a st = Inr st1" "P st1" by blast
    with safeD [OF b, of st1] show "\<exists>st'. run (a # as) st = Inr st' \<and> P st'" by simp
  qed
qed

lemma whenever_safe [intro]: "(b \<Longrightarrow> safe P a) \<Longrightarrow> safe P (whenever b a)"
  by (auto simp: safe_def whenever_def)

lemma for_each_safe [intro]: "(\<And>x. x \<in> set xs \<Longrightarrow> safe P (f x)) \<Longrightarrow> safe P (for_each xs f)"
  unfolding for_each_def by (rule run_safe) (simp add: list_all_iff)

lemma run_append: "run (as @ bs) st = py_bind (run as st) (run bs)"
proof (induction "as" arbitrary: st)
  case Nil
  then show ?case by simp
next
  case (Cons a "as")
  then show ?case by (cases "a st") auto
qed

lemma run_keeps [intro]: "list_all (keeps P) as \<Longrightarrow> keeps P (run as)"
proof (induction "as")
  case Nil
  then show ?case by (simp add: keeps_def)
next
  case (Cons a "as")
  then have a: "keeps P a" and b: "keeps P (run as)" by auto
  show ?case
    unfolding keeps_def
  proof (intro allI impI)
    fix st st' assume "P st" "run (a # as) st = Inr st'"
    then obtain st1 where "a st = Inr st1" "run as st1 = Inr st'"
      by (auto simp: py_bind_Inr_iff)
    with a b \<open>P st\<close> show "P st'" unfolding keeps_def by blast
  qed
qed

lemma whenever_keeps [intro]: "(b \<Longrightarrow> keeps P a) \<Longrightarrow> keeps P (whenever b a)"
  by (auto simp: keeps_def whenever_def)

lemma safe_return [intro]: "safe P Inr"
  by (simp add: safe_def)

lemma safe_return' [intro]: "safe P (\<lambda>st. Inr st)"
  by (simp add: safe_def)

lemma safe_bind:
  assumes "safe P a" "safe P b"
  shows "safe P (\<lambda>st. py_bind (a st) (\<lambda>st. b st))"
proof (rule safeI)
  fix st assume "P st"
  from safeD [OF assms(1) this] obtain st1 where "a st = Inr st1" "P st1" by blast
  with safeD [OF assms(2), of st1] show "\<exists>st'. py_bind (a st) (\<lambda>st. b st) = Inr st' \<and> P st'" by simp
qed

lemma safe_value: "\<exists>x. m = Inr x \<Longrightarrow> (\<And>x. m = Inr x \<Longrightarrow> safe P (f x)) \<Longrightarrow> safe P (\<lambda>st. py_bind m (\<lambda>x. f x st))"
  by (auto simp: safe_def)

lemma safe_if: "(b \<Longrightarrow> safe P x) \<Longrightarrow> (\<not> b \<Longrightarrow> safe P y) \<Longrightarrow> safe P (\<lambda>st. if b then x st else y st)"
  by (simp add: safe_def)

lemma safe_option:
  "(opt = None \<Longrightarrow> safe P x) \<Longrightarrow> (\<And>v. opt = Some v \<Longrightarrow> safe P (y v)) \<Longrightarrow>
   safe P (\<lambda>st. case opt of None \<Rightarrow> x st | Some v \<Rightarrow> y v st)"
  by (simp add: safe_def split: option.split)

lemma safe_prod: "(\<And>a b. q = (a, b) \<Longrightarrow> safe P (f a b)) \<Longrightarrow> safe P (\<lambda>st. case q of (a, b) \<Rightarrow> f a b st)"
  by (simp add: safe_def split: prod.split)

lemma run_Nil_safe: "safe P (run [])"
  by (simp add: safe_def)

lemma run_Cons_safe: "safe P a \<Longrightarrow> safe P (run as) \<Longrightarrow> safe P (run (a # as))"
  using safe_bind [of P a "run as"] by (simp add: safe_def)

lemma safe_if_action: "(b \<Longrightarrow> safe P x) \<Longrightarrow> (\<not> b \<Longrightarrow> safe P y) \<Longrightarrow> safe P (if b then x else y)"
  by simp

lemma safe_option_action:
  "(opt = None \<Longrightarrow> safe P x) \<Longrightarrow> (\<And>v. opt = Some v \<Longrightarrow> safe P (y v)) \<Longrightarrow>
   safe P (case opt of None \<Rightarrow> x | Some v \<Rightarrow> y v)"
  by (simp split: option.split)

lemma safe_prod_action: "(\<And>a b. q = (a, b) \<Longrightarrow> safe P (f a b)) \<Longrightarrow> safe P (case q of (a, b) \<Rightarrow> f a b)"
  by (cases q) simp

lemma safe_triple: "\<exists>r. call = Inr r \<Longrightarrow> (\<And>a b c. call = Inr (a, b, c) \<Longrightarrow> safe P (f a b c)) \<Longrightarrow>
  safe P (\<lambda>st. py_bind call (\<lambda>(a, b, c). f a b c st))"
  by (auto simp: safe_def)

lemmas safe_flow = run_Nil_safe run_Cons_safe safe_if safe_option safe_if_action safe_option_action safe_prod whenever_safe

section \<open>Actions that may raise IndexError\<close>

text \<open>Like \<open>safe\<close>, but under the condition \<open>b\<close> the action may raise IndexError as well.\<close>

definition safe_unless :: "bool \<Rightarrow> (lint \<Rightarrow> bool) \<Rightarrow> action \<Rightarrow> bool" where
  "safe_unless b P a = (\<forall>st. P st \<longrightarrow> (\<exists>st'. a st = Inr st' \<and> P st') \<or> a st = Inl IndexError \<and> b)"

lemma safe_unlessD:
  assumes "safe_unless b P a" "P st"
  obtains st' where "a st = Inr st'" "P st'" | "a st = Inl IndexError" b
  using assms unfolding safe_unless_def by blast

lemma safe_unless_safe: "safe P a \<Longrightarrow> safe_unless b P a"
  by (simp add: safe_def safe_unless_def)

lemma safe_unless_mono: "safe_unless b P a \<Longrightarrow> (b \<Longrightarrow> c) \<Longrightarrow> safe_unless c P a"
  by (auto simp: safe_unless_def)

lemma safe_unless_split: "(\<not> b \<Longrightarrow> safe P a) \<Longrightarrow> (b \<Longrightarrow> safe_unless b P a) \<Longrightarrow> safe_unless b P a"
  using safe_unless_safe by blast

lemma run_Cons_unless: "safe_unless b P a \<Longrightarrow> safe_unless b P (run as) \<Longrightarrow> safe_unless b P (run (a # as))"
  unfolding safe_unless_def by (metis py_bind.simps run.simps(2))

lemma run_append_unless: "safe_unless b P (run as) \<Longrightarrow> safe_unless b P (run bs) \<Longrightarrow> safe_unless b P (run (as @ bs))"
  unfolding safe_unless_def run_append by (metis py_bind.simps)

section \<open>The contract of an error callback\<close>

text \<open>
  \<open>Inv\<close> is a predicate on the module state that survives a report of any listed category
  with a confidence from 0 to 5, and the recording of a suppression; and under \<open>Inv\<close> the
  callback returns.  What a check does to the state is then known to keep \<open>Inv\<close>.
\<close>

locale reporter =
  fixes error :: error_fn
    and Inv :: "lint \<Rightarrow> bool"
  assumes report: "\<And>filename linenum category confidence message st.
      category \<in> set ERROR_CATEGORIES \<Longrightarrow> 0 \<le> confidence \<Longrightarrow> confidence \<le> 5 \<Longrightarrow> Inv st \<Longrightarrow>
      \<exists>st'. error filename linenum category confidence message st = Inr st' \<and> Inv st'"
    and suppression: "\<And>category line st. Inv st \<Longrightarrow> Inv (add_suppression category line st)"
begin

lemma report_safe:
  "category \<in> set ERROR_CATEGORIES \<Longrightarrow> 0 \<le> confidence \<Longrightarrow> confidence \<le> 5 \<Longrightarrow>
   safe Inv (error filename linenum category confidence message)"
  by (rule safeI) (rule report)

lemma report_if:
  assumes "category \<in> set ERROR_CATEGORIES" "0 \<le> confidence" "confidence \<le> 5" "Inv st"
  obtains st' where "whenever b (error filename linenum category confidence message) st = Inr st'" "Inv st'"
  using safeD [OF whenever_safe [OF report_safe [OF assms(1-3)]] assms(4)] by blast

lemma nolint_safe: "safe Inv (ParseNolintSuppressions error filename raw_line linenum)"
proof (rule safeI)
  fix st assume st: "Inv st"
  have cat: "''readability/nolint'' \<in> set ERROR_CATEGORIES"
    by (simp add: ERROR_CATEGORIES_def)
  show "\<exists>st'. ParseNolintSuppressions error filename raw_line linenum st = Inr st' \<and> Inv st'"
    using st suppression [OF st] report [OF cat _ _ st, of 5]
    by (auto simp: ParseNolintSuppressions_def Let_def split: option.splits)
qed

end

section \<open>Filters\<close>

text \<open>Which filter decides: the last one whose text is a prefix of the category.\<close>

definition filtered_by_last :: "string \<Rightarrow> string list \<Rightarrow> bool" where
  "filtered_by_last category fs =
     (case List.find (\<lambda>f. startswith category (tl f)) (rev fs) of
        None \<Rightarrow> False | Some f \<Rightarrow> startswith f ''-'')"

lemma find_append: "List.find P (xs @ ys) = (case List.find P xs of None \<Rightarrow> List.find P ys | Some x \<Rightarrow> Some x)"
  by (induction xs) auto

lemma find_not_list_all: "List.find (\<lambda>x. \<not> P x) xs = None \<longleftrightarrow> list_all P xs"
  by (auto simp: find_None_iff list_all_iff)

lemma filter_ok_cases: "filter_ok f \<longleftrightarrow> (\<exists>t. f = CHR ''+'' # t \<or> f = CHR ''-'' # t)"
  by (auto simp: filter_ok_def prefix_def)

lemma apply_filters_last:
  "list_all filter_ok fs \<Longrightarrow> apply_filters category fs b =
     Inr (case List.find (\<lambda>f. startswith category (tl f)) (rev fs) of
            None \<Rightarrow> b | Some f \<Rightarrow> startswith f ''-'')"
proof (induction fs arbitrary: b)
  case Nil
  then show ?case by simp
next
  case (Cons f fs)
  then have fs: "list_all filter_ok fs" and "filter_ok f" by auto
  then obtain t where "f = CHR ''+'' # t \<or> f = CHR ''-'' # t" by (auto simp: filter_ok_cases)
  with Cons.IH [OF fs] show ?case
    by (auto simp: find_append split: option.splits)
qed

lemma apply_filters_raises:
  "\<not> list_all filter_ok fs \<Longrightarrow> apply_filters category fs b = Inl AssertionError"
  by (induction fs arbitrary: b) (auto simp: filter_ok_def)

lemma AddFilters_Inr:
  assumes "AddFilters fs s = Inr s'"
  shows "list_all filter_ok (filters s')"
    and "s' = s\<lparr>filters := filters s @ filter (\<lambda>f. f \<noteq> []) (map str_strip (str_split (CHR '','') fs))\<rparr>"
  using assms
  by (auto simp: AddFilters_def Let_def find_None_iff list_all_iff split: option.splits)

section \<open>Error counts\<close>

definition count_total :: "cpplint_state \<Rightarrow> nat" where
  "count_total s = sum_list (map snd (errors_by_category s))"

definition toplevel_categories :: "string list" where
  "toplevel_categories = [''build'', ''legal'', ''readability'', ''runtime'', ''whitespace'']"

text \<open>The categories counted are known ones, each counted once, and their counts add up.\<close>

definition counts_ok :: "cpplint_state \<Rightarrow> bool" where
  "counts_ok s =
     (distinct (map fst (errors_by_category s)) \<and>
      (counting s \<in> {''toplevel'', ''detailed''} \<longrightarrow> count_total s = error_count s) \<and>
      (counting s = ''toplevel'' \<longrightarrow> set (map fst (errors_by_category s)) \<subseteq> set toplevel_categories) \<and>
      (counting s = ''detailed'' \<longrightarrow> set (map fst (errors_by_category s)) \<subseteq> set ERROR_CATEGORIES))"

lemma sum_list_update:
  "distinct (map fst d) \<Longrightarrow> map_of d k = Some (v::nat) \<Longrightarrow>
   sum_list (map snd (AList.update k (Suc v) d)) = Suc (sum_list (map snd d))"
  by (induction d) (auto split: if_splits)

lemma sum_list_update_new:
  "map_of d k = None \<Longrightarrow> sum_list (map snd (AList.update k v d)) = sum_list (map snd d) + (v::nat)"
  by (induction d) (auto split: if_splits)

definition bump :: "string \<Rightarrow> (string \<times> nat) list \<Rightarrow> (string \<times> nat) list" where
  "bump k d = (let d = (if map_of d k = None then AList.update k 0 d else d)
               in AList.update k (the (map_of d k) + 1) d)"

lemma bump_props:
  assumes "distinct (map fst d)"
  shows "distinct (map fst (bump k d))"
    and "sum_list (map snd (bump k d)) = Suc (sum_list (map snd d))"
    and "set (map fst (bump k d)) = insert k (set (map fst d))"
proof -
  let ?d = "if map_of d k = None then AList.update k 0 d else d"
  have d: "distinct (map fst ?d)" using assms by (simp add: distinct_update)
  have v: "map_of ?d k = Some (the (map_of ?d k))" by (auto simp: update_conv')
  have s: "sum_list (map snd ?d) = sum_list (map snd d)" by (simp add: sum_list_update_new)
  have b: "bump k d = AList.update k (Suc (the (map_of ?d k))) ?d" by (simp add: bump_def Let_def)
  show "distinct (map fst (bump k d))" unfolding b using d by (rule distinct_update)
  show "sum_list (map snd (bump k d)) = Suc (sum_list (map snd d))"
    unfolding b using sum_list_update [OF d v] s by simp
  have "set (map fst (bump k d)) = insert k (set (map fst ?d))"
    unfolding b by (simp add: dom_update)
  also have "\<dots> = insert k (set (map fst d))" by (auto simp: dom_update)
  finally show "set (map fst (bump k d)) = insert k (set (map fst d))" .
qed

lemma IncrementErrorCount_bump:
  "IncrementErrorCount category s =
     s\<lparr>error_count := Suc (error_count s),
       errors_by_category :=
         (if counting s \<in> {''toplevel'', ''detailed''}
          then bump (if counting s \<noteq> ''detailed'' then hd (str_split (CHR ''/'') category) else category)
                 (errors_by_category s)
          else errors_by_category s)\<rparr>"
  by (simp add: IncrementErrorCount_def bump_def Let_def)

lemma toplevel_known:
  "list_all (\<lambda>c. hd (str_split (CHR ''/'') c) \<in> set toplevel_categories) ERROR_CATEGORIES"
  by code_simp

lemma IncrementErrorCount_counts_ok:
  assumes s: "counts_ok s" and c: "category \<in> set ERROR_CATEGORIES"
  shows "counts_ok (IncrementErrorCount category s)"
proof -
  have h: "hd (str_split (CHR ''/'') category) \<in> set toplevel_categories"
    using toplevel_known c by (simp add: list_all_iff)
  from s have d: "distinct (map fst (errors_by_category s))" by (simp add: counts_ok_def)
  show ?thesis
    using s c h bump_props [OF d]
    by (auto simp: counts_ok_def count_total_def IncrementErrorCount_bump)
qed

section \<open>The invariant of the module state\<close>

definition lint_inv :: "lint \<Rightarrow> bool" where
  "lint_inv st = (list_all filter_ok (filters (lstate st)) \<and> counts_ok (lstate st))"

lemma filters_increment [frame]: "filters (IncrementErrorCount c s) = filters s"
  by (simp add: IncrementErrorCount_bump)

lemma counts_ok_frame [frame]:
  "counts_ok (s\<lparr>junit_errors := je\<rparr>) = counts_ok s"
  "counts_ok (s\<lparr>junit_failures := jf\<rparr>) = counts_ok s"
  "counts_ok (s\<lparr>filters := fs\<rparr>) = counts_ok s"
  "counts_ok (s\<lparr>filters_backup := fs\<rparr>) = counts_ok s"
  by (simp_all add: counts_ok_def count_total_def)

lemmas report_defs = Error_def PrintError_def stderr_write_def AddJUnitFailure_def

lemma ShouldPrintError_eq:
  assumes "list_all filter_ok (filters (lstate st))"
  shows "ShouldPrintError st category confidence linenum =
    Inr (\<not> IsErrorSuppressedByNolint st category linenum \<and>
         verbose_level (lstate st) \<le> confidence \<and>
         \<not> filtered_by_last category (filters (lstate st)))"
  using apply_filters_last [OF assms]
  by (auto simp: ShouldPrintError_def filtered_by_last_def split: option.splits)

lemma Error_safe:
  assumes "category \<in> set ERROR_CATEGORIES" and inv: "lint_inv st"
  shows "\<exists>st'. Error filename linenum category confidence message st = Inr st' \<and> lint_inv st'"
proof -
  from inv have f: "list_all filter_ok (filters (lstate st))" by (simp add: lint_inv_def)
  have "counts_ok (IncrementErrorCount category (lstate st))"
    using inv assms(1) by (simp add: lint_inv_def IncrementErrorCount_counts_ok)
  with inv show ?thesis
    by (simp add: report_defs ShouldPrintError_eq [OF f] lint_inv_def Let_def frame)
qed

interpretation Err: reporter Error lint_inv
  by unfold_locales (erule (1) Error_safe, simp add: add_suppression_def lint_inv_def)

section \<open>What a NOLINT comment suppresses\<close>

text \<open>The compiled pattern of \<open>ParseNolintSuppressions\<close>: after the word NOLINT.\<close>

definition nolint_tail :: regex where
  "nolint_tail = RSeq (RAlt (RGroup 1 (rseqs (map RLit ''NEXTLINE''))) REmpty)
     (RSeq (RWordB True) (RAlt (RGroup 2 (RSeq (RLit (CHR ''(''))
       (RSeq (RSeq (RChr (CSet True [CChr (CHR '')'')])) (RCStar True (CSet True [CChr (CHR '')'')])))
         (RLit (CHR '')''))))) REmpty))"

lemma nolint_re:
  "re_const (raw ''`bNOLINT(NEXTLINE)?`b(`([^)]+`))?'') = RSeq (RWordB True) (rlits ''NOLINT'' nolint_tail)"
  by code_simp

lemma nolint_word_chars:
  "is_word CHR ''N''" "\<not> is_word CHR '' ''" "\<not> is_word CHR ''(''" "is_word CHR ''T''" "is_word CHR ''E''"
  by code_simp+

lemma nolint_body:
  assumes "cat \<noteq> []" "CHR '')'' \<notin> set cat"
  shows "rx (RSeq (RWordB True) (rlits ''NOLINT'' nolint_tail)) (Some CHR '' '')
     (''NOLINT'' @ (if nxt then ''NEXTLINE'' else []) @ ''('' @ cat @ '')'' @ rest) [] (\<lambda>p s g. Some (s, g))
   = Some (rest, (2, ''('' @ cat @ '')'') # (if nxt then [(1, ''NEXTLINE'')] else []))"
proof -
  obtain c ct where cat: "cat = c # ct" using assms by (cases cat) auto
  have sp: "cstar True (CSet True [CChr (CHR '')'')]) p (ct @ CHR '')'' # rest)
      (\<lambda>p s. rx (RLit (CHR '')'')) p s g k) = k (Some (CHR '')'')) rest g"
    if "k (Some (CHR '')'')) rest g \<noteq> None" for p g k
    using that assms cat
    by (intro trans [OF cstar_span [where z = "the (k (Some (CHR '')'')) rest g)"]]) (auto simp: list_all_iff)
  show ?thesis
    using assms
    by (cases nxt) (auto simp add: nolint_tail_def cat nolint_word_chars at_wordb_def is_word_opt_def
        head_opt_def sp numeral_3_eq_3)
qed

lemma nolint_search:
  assumes "cat \<noteq> []" "CHR '')'' \<notin> set cat" "\<not> sublist ''NOLINT'' pre"
  shows "\<exists>m. Search (raw ''`bNOLINT(NEXTLINE)?`b(`([^)]+`))?'')
      (pre @ ''// NOLINT'' @ (if nxt then ''NEXTLINE'' else []) @ ''('' @ cat @ '')'' @ rest) = Some m \<and>
    m_group m 1 = (if nxt then Some ''NEXTLINE'' else None) \<and> m_group m 2 = Some (''('' @ cat @ '')'')"
proof -
  let ?r = "RSeq (RWordB True) (rlits ''NOLINT'' nolint_tail)"
  let ?pre = "pre @ ''// ''"
  let ?s = "''NOLINT'' @ (if nxt then ''NEXTLINE'' else []) @ ''('' @ cat @ '')'' @ rest"
  have none: "match_at ?r p i (v @ ?s) = None" if "?pre = u @ v" "v \<noteq> []" for u v p i
  proof (rule ccontr)
    assume "match_at ?r p i (v @ ?s) \<noteq> None"
    then have pf: "prefix ''NOLINT'' (v @ ?s)"
      by (auto simp: match_at_def simp del: rx.simps rlits_simps split: option.splits dest: rx_seq_word)
    from that(1) consider w where "pre = u @ w" "v = w @ ''// ''" | w where "''// '' = w @ v"
      by (auto simp: append_eq_append_conv2)
    then show False
    proof cases
      case 1
      then have pf': "prefix ''NOLINT'' (w @ ''// '' @ ?s)" using pf by simp
      from prefix_not_into [OF pf' [simplified]] have "prefix ''NOLINT'' w" by simp
      with 1(1) assms(3) show False by (auto simp: sublist_def prefix_def)
    next
      case 2
      then have "v = ''// '' \<or> v = ''/ '' \<or> v = '' ''" using that(2) by (auto simp: Cons_eq_append_conv)
      with pf show False by auto
    qed
  qed
  have "search_from ?r None 0 (?pre @ ?s) =
      search_from ?r (if ?pre = [] then None else Some (last ?pre)) (0 + length ?pre) ?s"
    by (rule search_from_skip) (rule none)
  also have "\<dots> = search_from ?r (Some CHR '' '') (length ?pre) ?s" by simp
  also have "\<dots> = match_at ?r (Some CHR '' '') (length ?pre) ?s"
    using nolint_body [OF assms(1,2), of nxt rest] by (simp add: match_at_def Let_def del: rx.simps rlits_simps)
  finally show ?thesis
    using nolint_body [OF assms(1,2), of nxt rest]
    by (simp add: Search_def nolint_re re_search_def match_at_def Let_def m_group_def del: rx.simps rlits_simps)
qed

lemma categories_no_paren: "list_all (\<lambda>c. c \<noteq> [] \<and> CHR '')'' \<notin> set c \<and> c \<noteq> ''*'') ERROR_CATEGORIES"
  by code_simp

lemma add_suppression_covers:
  "IsErrorSuppressedByNolint (add_suppression category line st) c l \<longleftrightarrow>
   IsErrorSuppressedByNolint st c l \<or> (category = None \<or> category = Some c) \<and> l = Some line"
  by (auto simp: IsErrorSuppressedByNolint_def suppressed_on_def add_suppression_def split: option.splits)

lemma nolint_adds:
  assumes cat: "cat \<in> set ERROR_CATEGORIES" and pre: "\<not> sublist ''NOLINT'' pre"
  shows "ParseNolintSuppressions error filename
      (pre @ ''// NOLINT'' @ (if nxt then ''NEXTLINE'' else []) @ ''('' @ cat @ '')'' @ rest) n st =
    Inr (add_suppression (Some cat) (if nxt then n + 1 else n) st)"
proof -
  from cat categories_no_paren have c: "cat \<noteq> []" "CHR '')'' \<notin> set cat" "cat \<noteq> ''*''"
    by (auto simp: list_all_iff)
  from nolint_search [OF c(1,2) pre, of nxt rest] obtain m where
    m: "Search (raw ''`bNOLINT(NEXTLINE)?`b(`([^)]+`))?'')
      (pre @ ''// NOLINT'' @ (if nxt then ''NEXTLINE'' else []) @ ''('' @ cat @ '')'' @ rest) = Some m"
    "m_group m 1 = (if nxt then Some ''NEXTLINE'' else None)" "m_group m 2 = Some (''('' @ cat @ '')'')"
    by blast
  have sl: "py_slice (''('' @ cat @ '')'') 1 (- 1) = cat"
    by (simp add: py_slice_def slice_bound_def nat_add_distrib)
  have sf: "suffix '')'' (''('' @ cat @ '')'')" by (auto simp: suffix_def)
  show ?thesis using m c sl sf cat by (simp add: ParseNolintSuppressions_def Let_def)
qed

section \<open>Properties\<close>

text \<open>C15. A comment \<open>// NOLINT(category)\<close> (or \<open>// NOLINTNEXTLINE(category)\<close>) with a listed
  category, behind any text without the word NOLINT, suppresses exactly that category on
  exactly that line (the next line), on top of what was suppressed before.\<close>

theorem nolint_suppresses:
  assumes cat: "cat \<in> set ERROR_CATEGORIES" and pre: "\<not> sublist ''NOLINT'' pre"
  shows "\<exists>st'. ParseNolintSuppressions error filename
      (pre @ ''// NOLINT'' @ (if nxt then ''NEXTLINE'' else []) @ ''('' @ cat @ '')'' @ rest) n st = Inr st' \<and>
    (\<forall>c l. IsErrorSuppressedByNolint st' c l \<longleftrightarrow>
       IsErrorSuppressedByNolint st c l \<or> c = cat \<and> l = Some (if nxt then n + 1 else n))"
  using nolint_adds [OF assms, where nxt = nxt] by (auto simp: add_suppression_covers)

theorem nolint_suppresses_witness:
  "\<exists>st'. ParseNolintSuppressions Error ''a.cc''
      (''int x;  '' @ ''// NOLINT'' @ (if True then ''NEXTLINE'' else []) @ ''('' @ ''runtime/int'' @ '')'' @ '' ok'') 7
      (lint_init CppLintState_init) = Inr st' \<and>
    (\<forall>c l. IsErrorSuppressedByNolint st' c l \<longleftrightarrow>
       IsErrorSuppressedByNolint (lint_init CppLintState_init) c l \<or>
       c = ''runtime/int'' \<and> l = Some (if True then 7 + 1 else 7))"
proof (rule nolint_suppresses)
  show "''runtime/int'' \<in> set ERROR_CATEGORIES" by (simp add: ERROR_CATEGORIES_def)
  show "\<not> sublist ''NOLINT'' ''int x;  ''" by code_simp
qed

text \<open>C6. \<open>Error\<close>, when every filter in force carries a sign: it never raises; it reports
  exactly when no NOLINT or global suppression covers the category on that line, the
  confidence reaches the verbosity, and the last filter that is a prefix of the category
  (if any) is not a minus filter; a report raises the error count by one, and no report
  leaves the whole state as it was.  Filters, verbosity and suppressions never change.\<close>

theorem error_reports_exactly:
  assumes "list_all filter_ok (filters (lstate st))"
  shows "\<exists>st'. Error filename linenum category confidence message st = Inr st' \<and>
    (if \<not> IsErrorSuppressedByNolint st category linenum \<and> verbose_level (lstate st) \<le> confidence \<and>
        \<not> filtered_by_last category (filters (lstate st))
     then error_count (lstate st') = error_count (lstate st) + 1 else st' = st) \<and>
    filters (lstate st') = filters (lstate st) \<and>
    verbose_level (lstate st') = verbose_level (lstate st) \<and>
    (\<forall>c l. IsErrorSuppressedByNolint st' c l = IsErrorSuppressedByNolint st c l)"
  by (auto simp: report_defs ShouldPrintError_eq [OF assms] Let_def IncrementErrorCount_bump
      IsErrorSuppressedByNolint_def suppressed_on_def)

theorem error_reports_exactly_witness:
  "list_all filter_ok (filters (lstate (lint_init CppLintState_init))) \<and>
   (\<exists>st'. Error ''a.cc'' (Some 3) ''build/include_alpha'' 4 ''m'' (lint_init CppLintState_init) = Inr st' \<and>
      st' = lint_init CppLintState_init) \<and>
   (\<exists>st'. Error ''a.cc'' (Some 3) ''runtime/int'' 4 ''m'' (lint_init CppLintState_init) = Inr st' \<and>
      error_count (lstate st') = 1)"
proof -
  let ?st = "lint_init CppLintState_init"
  have f: "list_all filter_ok (filters (lstate ?st))" by code_simp
  have "\<not> IsErrorSuppressedByNolint ?st ''runtime/int'' (Some 3)" "verbose_level (lstate ?st) \<le> 4"
    "\<not> filtered_by_last ''runtime/int'' (filters (lstate ?st))"
    "filtered_by_last ''build/include_alpha'' (filters (lstate ?st))" "error_count (lstate ?st) = 0"
    by code_simp+
  with f error_reports_exactly [OF f, of "''a.cc''" "Some 3" "''build/include_alpha''" 4 "''m''"]
    error_reports_exactly [OF f, of "''a.cc''" "Some 3" "''runtime/int''" 4 "''m''"]
  show ?thesis by auto
qed

text \<open>After the counts have been reset, whatever sequence of errors of listed categories
  is reported, the run ends, and with per-category counting the counts of the categories add
  up to the total, under known names, each listed once.\<close>

theorem error_counts_add_up:
  assumes "list_all filter_ok (filters (lstate st))"
    and "list_all (\<lambda>(f, l, c, n, m). c \<in> set ERROR_CATEGORIES \<and> 0 \<le> n \<and> n \<le> 5) reports"
  shows "\<exists>st'. run (map (\<lambda>(f, l, c, n, m). Error f l c n m) reports)
             (st\<lparr>lstate := ResetErrorCounts (lstate st)\<rparr>) = Inr st' \<and>
           counts_ok (lstate st')"
proof -
  have i: "lint_inv (st\<lparr>lstate := ResetErrorCounts (lstate st)\<rparr>)"
    using assms(1) by (simp add: lint_inv_def ResetErrorCounts_def counts_ok_def count_total_def)
  have "safe lint_inv (run (map (\<lambda>(f, l, c, n, m). Error f l c n m) reports))"
    using assms(2) by (intro run_safe) (auto simp: list_all_iff intro!: Err.report_safe)
  from safeD [OF this i] show ?thesis unfolding lint_inv_def by blast
qed

theorem error_counts_add_up_witness:
  "\<exists>st'. run (map (\<lambda>(f, l, c, n, m). Error f l c n m) [(''a.cc'', Some 1, ''runtime/int'', 4, ''x'')])
        ((lint_init (SetCountingStyle ''toplevel'' CppLintState_init))\<lparr>lstate :=
           ResetErrorCounts (lstate (lint_init (SetCountingStyle ''toplevel'' CppLintState_init)))\<rparr>) = Inr st' \<and>
      counts_ok (lstate st')"
proof (rule error_counts_add_up)
  show "list_all filter_ok (filters (lstate (lint_init (SetCountingStyle ''toplevel'' CppLintState_init))))"
    by code_simp
qed code_simp

text \<open>\<open>--quiet\<close> does not silence \<open>PrintInfo\<close>: whatever the quiet setting, outside the
  junit format an informational message is written, because \<open>PrintInfo\<close> consults the module
  variable \<open>_quiet\<close>, which no code sets.\<close>

theorem print_info_ignores_quiet:
  assumes "module_quiet st = False" and "output_format (lstate st) \<noteq> ''junit''"
  shows "stdout (PrintInfo message (st\<lparr>lstate := snd (SetQuiet q (lstate st))\<rparr>)) = stdout st @ message"
  using assms by (simp add: PrintInfo_def SetQuiet_def)

theorem print_info_ignores_quiet_witness:
  "stdout (PrintInfo ''Done'' ((lint_init CppLintState_init)\<lparr>lstate :=
     snd (SetQuiet True (lstate (lint_init CppLintState_init)))\<rparr>)) = stdout (lint_init CppLintState_init) @ ''Done''"
  by (rule print_info_ignores_quiet) code_simp+

end
