(* ===== verification/Function_State.thy ===== *)
theory Function_State
  imports Lint_State
begin

text \<open>
  Class \<open>_FunctionState\<close> of \<open>cpplint.py\<close>: the length of the function body being read, and
  the check that reports long ones.  The confidence of the report is the integer part of a
  binary logarithm; the model computes it on integers (\<open>int_log2\<close>), which agrees with the
  floating-point expression of the source for every value that the cap at 5 leaves visible.
\<close>

record function_state =
  in_a_function :: bool
  lines_in_function :: nat
  current_function :: string

definition NORMAL_TRIGGER :: nat where
  "NORMAL_TRIGGER = 250"

definition TEST_TRIGGER :: nat where
  "TEST_TRIGGER = 400"

definition FunctionState_init :: function_state where
  "FunctionState_init = \<lparr>in_a_function = False, lines_in_function = 0, current_function = []\<rparr>"

definition Begin :: "string \<Rightarrow> function_state \<Rightarrow> function_state" where
  "Begin function_name s =
     s\<lparr>in_a_function := True, lines_in_function := 0, current_function := function_name\<rparr>"

definition Count :: "function_state \<Rightarrow> function_state" where
  "Count s = (if in_a_function s then s\<lparr>lines_in_function := lines_in_function s + 1\<rparr> else s)"

definition End :: "function_state \<Rightarrow> function_state" where
  "End s = s\<lparr>in_a_function := False\<rparr>"

text \<open>
  \<open>base * 2**v\<close> compared with a number of lines, and its integer part for the message; for
  a negative verbosity the source's value is the fraction \<open>base / 2**(-v)\<close>.
\<close>

definition exceeds_trigger :: "nat \<Rightarrow> int \<Rightarrow> nat \<Rightarrow> bool" where
  "exceeds_trigger base v n =
     (if 0 \<le> v then base * 2 ^ nat v < n else base < n * 2 ^ nat (- v))"

definition trigger_value :: "nat \<Rightarrow> int \<Rightarrow> nat" where
  "trigger_value base v = (if 0 \<le> v then base * 2 ^ nat v else base div 2 ^ nat (- v))"

text \<open>
  \<open>int(math.log(n / base, 2))\<close>: the greatest \<open>k\<close> with \<open>base * 2 ^ k \<le> n\<close>; below
  \<open>base\<close> the logarithm is negative and truncation goes towards zero.
\<close>

function ratio_log2 :: "nat \<Rightarrow> nat \<Rightarrow> nat" where
  "ratio_log2 n base = (if 0 < base \<and> 2 * base \<le> n then Suc (ratio_log2 n (2 * base)) else 0)"
  by pat_completeness auto
termination
  by (relation "measure (\<lambda>(n, base). n - base)") auto

declare ratio_log2.simps [simp del]

definition int_log2 :: "nat \<Rightarrow> nat \<Rightarrow> int" where
  "int_log2 n base =
     (if base \<le> n then int (ratio_log2 n base) else - int (ratio_log2 base n))"

definition base_trigger :: "string \<Rightarrow> nat" where
  "base_trigger function_name =
     (if Match ''T(EST|est)'' function_name \<noteq> None then TEST_TRIGGER else NORMAL_TRIGGER)"

definition Check :: "error_fn \<Rightarrow> string \<Rightarrow> int \<Rightarrow> function_state \<Rightarrow> action" where
  "Check error filename linenum s st =
     (if \<not> in_a_function s then Inr st
      else
        (let base = base_trigger (current_function s);
             v = verbose_level (lstate st);
             n = lines_in_function s
         in if exceeds_trigger base v n
            then (let error_level = int_log2 n base;
                      error_level = (if error_level > 5 then 5 else error_level)
                  in error filename (Some linenum) ''readability/fn_size'' error_level
                    (''Small and focused functions are preferred: '' @ current_function s @ '' has ''
                     @ str_of_nat n @ '' non-comment lines (error triggered by exceeding ''
                     @ str_of_nat (trigger_value base v) @ '' lines).'') st)
            else Inr st))"

section \<open>Lemmas\<close>

lemma ratio_log2_bounds:
  "0 < base \<Longrightarrow> base \<le> n \<Longrightarrow> base * 2 ^ ratio_log2 n base \<le> n \<and> n < base * 2 ^ Suc (ratio_log2 n base)"
proof (induction n base rule: ratio_log2.induct)
  case (1 n base)
  show ?case
  proof (cases "2 * base \<le> n")
    case True
    with 1 have "2 * base * 2 ^ ratio_log2 n (2 * base) \<le> n \<and> n < 2 * base * 2 ^ Suc (ratio_log2 n (2 * base))"
      by simp
    with True "1.prems" show ?thesis by (simp add: ratio_log2.simps [of n base] mult.assoc mult.left_commute)
  next
    case False
    with "1.prems" show ?thesis by (simp add: ratio_log2.simps [of n base])
  qed
qed

lemma ratio_log2_ge:
  "0 < base \<Longrightarrow> base * 2 ^ k \<le> n \<Longrightarrow> k \<le> ratio_log2 n base"
proof (rule ccontr)
  assume b: "0 < base" "base * 2 ^ k \<le> n" "\<not> k \<le> ratio_log2 n base"
  have "base * 1 \<le> base * 2 ^ k" by (intro mult_le_mono2) simp
  with b(2) have "base \<le> n" by linarith
  with b(1) have "n < base * 2 ^ Suc (ratio_log2 n base)" using ratio_log2_bounds by blast
  also have "\<dots> \<le> base * 2 ^ k" using b(3) by (intro mult_le_mono2 power_increasing) auto
  finally show False using b(2) by simp
qed

context reporter
begin

lemma function_check_safe:
  assumes "\<And>st. Inv st \<Longrightarrow> 0 \<le> verbose_level (lstate st)"
  shows "safe Inv (Check error filename linenum s)"
proof (rule safeI)
  fix st assume st: "Inv st"
  let ?base = "base_trigger (current_function s)" and ?n = "lines_in_function s"
  let ?v = "verbose_level (lstate st)"
  have cat: "''readability/fn_size'' \<in> set ERROR_CATEGORIES" by (simp add: ERROR_CATEGORIES_def)
  have "0 \<le> int_log2 ?n ?base" if "exceeds_trigger ?base ?v ?n"
  proof -
    have "?base * 1 \<le> ?base * 2 ^ nat ?v" by (intro mult_le_mono2) simp
    moreover have "?base * 2 ^ nat ?v < ?n" using that assms [OF st] by (simp add: exceeds_trigger_def)
    ultimately have "?base \<le> ?n" by linarith
    then show ?thesis by (simp add: int_log2_def)
  qed
  then show "\<exists>st'. Check error filename linenum s st = Inr st' \<and> Inv st'"
    using st report [OF cat _ _ st] by (auto simp: Check_def Let_def)
qed

end

lemma run_count: "in_a_function s \<Longrightarrow> (Count ^^ n) s = s\<lparr>lines_in_function := lines_in_function s + n\<rparr>"
  by (induction n) (auto simp: Count_def)

section \<open>Properties\<close>

text \<open>C33. A function body of \<open>n\<close> counted lines is reported exactly when \<open>n\<close> exceeds the
  trigger (250, or 400 for a TEST function) doubled once per verbosity level, at a confidence
  that is never below the verbosity, so that the verbosity test of \<open>Error\<close> cannot drop it
  (verbosities 0 to 5).\<close>

theorem function_length_reported:
  assumes v: "0 \<le> verbose_level (lstate st)" "verbose_level (lstate st) \<le> 5"
  shows "let s = (Count ^^ n) (Begin name s0); base = base_trigger name;
             v = verbose_level (lstate st) in
    (base * 2 ^ nat v < n \<longrightarrow>
       (\<exists>level msg. v \<le> level \<and> level \<le> 5 \<and>
          Check error filename linenum s st =
            error filename (Some linenum) ''readability/fn_size'' level msg st)) \<and>
    (n \<le> base * 2 ^ nat v \<longrightarrow> Check error filename linenum s st = Inr st)"
proof -
  let ?v = "verbose_level (lstate st)" and ?base = "base_trigger name"
  have b: "0 < ?base" by (simp add: base_trigger_def NORMAL_TRIGGER_def TEST_TRIGGER_def)
  have s: "(Count ^^ n) (Begin name s0) =
      \<lparr>in_a_function = True, lines_in_function = n, current_function = name\<rparr>"
    using run_count [of "Begin name s0" n] by (simp add: Begin_def)
  have lv: "?v \<le> min 5 (int_log2 n ?base)" if "?base * 2 ^ nat ?v < n"
  proof -
    have "nat ?v \<le> ratio_log2 n ?base" using ratio_log2_ge [OF b] that by simp
    moreover have "?base * 1 \<le> ?base * 2 ^ nat ?v" by (intro mult_le_mono2) simp
    then have "?base \<le> n" using that by linarith
    ultimately show ?thesis using v by (simp add: int_log2_def)
  qed
  show ?thesis
    using lv v(1) by (fastforce simp: s Let_def Check_def exceeds_trigger_def min_def)
qed

theorem function_length_reported_witness:
  "let s = (Count ^^ 501) (Begin ''f()'' FunctionState_init); base = base_trigger ''f()'';
       v = verbose_level (lstate (lint_init CppLintState_init)) in
    (base * 2 ^ nat v < 501 \<longrightarrow>
       (\<exists>level msg. v \<le> level \<and> level \<le> 5 \<and>
          Check Error ''a.cc'' 9 s (lint_init CppLintState_init) =
            Error ''a.cc'' (Some 9) ''readability/fn_size'' level msg (lint_init CppLintState_init))) \<and>
    (501 \<le> base * 2 ^ nat v \<longrightarrow>
       Check Error ''a.cc'' 9 s (lint_init CppLintState_init) = Inr (lint_init CppLintState_init))"
  by (rule function_length_reported) code_simp+

end
