(* ===== verification/Cleansing.thy ===== *)
theory Cleansing
  imports Lint_State
begin

text \<open>
  From the raw lines of a file to the lines that the checks look at: removal of C++11 raw
  strings, of multi-line and single-line comments, and the collapsing of string and
  character literals (\<open>CleanseRawStrings\<close>, \<open>RemoveMultiLineComments\<close>,
  \<open>CleanseComments\<close> and class \<open>CleansedLines\<close> of \<open>cpplint.py\<close>).

  The two loops whose end is not evident are functions with a termination proof:
  \<open>raw_string_loop\<close> shortens the line each time a raw string ends on it, and
  \<open>collapse_loop\<close> shortens what is left of the line in each of its branches.  Both proofs
  read the lengths of the groups off the decomposition that \<open>mcap\<close> gives.
\<close>

section \<open>Patterns\<close>

definition RE_PATTERN_INCLUDE :: string where
  \<open>RE_PATTERN_INCLUDE = raw ''^`s*#`s*include`s*([<"])([^>"]*)[>"].*$''\<close>

definition RE_PATTERN_CLEANSE_LINE_ESCAPES :: string where
  \<open>RE_PATTERN_CLEANSE_LINE_ESCAPES = raw ''``([abfnrtv?"```\']|`d+|x[0-9a-fA-F]+)''\<close>

definition RE_PATTERN_C_COMMENTS :: string where
  "RE_PATTERN_C_COMMENTS = raw ''/`*(?:[^*]|`*(?!/))*`*/''"

definition RE_PATTERN_CLEANSE_LINE_C_COMMENTS :: string where
  "RE_PATTERN_CLEANSE_LINE_C_COMMENTS =
     raw ''(`s*'' @ RE_PATTERN_C_COMMENTS @ raw ''`s*$|'' @
     RE_PATTERN_C_COMMENTS @ raw ''`s+|'' @
     raw ''`s+'' @ RE_PATTERN_C_COMMENTS @ raw ''(?=`W)|'' @
     RE_PATTERN_C_COMMENTS @ '')''"

section \<open>String state at the end of a partial line\<close>

definition IsCppString :: "string \<Rightarrow> bool" where
  "IsCppString line =
     (let line = str_replace line [backslash, backslash] ''XX'' in
      odd (int (str_count line [CHR 0x22]) - int (str_count line [backslash, CHR 0x22])
           - int (str_count line [CHR 0x27, CHR 0x22, CHR 0x27])))"

section \<open>Raw strings\<close>

definition RAW_STRING_START :: string where
  \<open>RAW_STRING_START = raw ''^(.*?)`b(?:R|u8R|uR|UR|LR)"([^`s``()]*)`((.*)$''\<close>

definition LINE_COMMENT_BEFORE :: string where
  \<open>LINE_COMMENT_BEFORE = raw ''^([^`\'"]|`\'(``.|[^`\'])*`\'|"(``.|[^"])*")*//''\<close>

definition raw_prefix_re :: regex where
  "raw_prefix_re = RAlt (RLit CHR ''R'') (RAlt (rseqs (map RLit ''u8R'')) (RAlt (rseqs (map RLit ''uR''))
     (RAlt (rseqs (map RLit ''UR'')) (rseqs (map RLit ''LR'')))))"

lemma raw_string_start_re:
  "re_const RAW_STRING_START =
     RSeq (RBol False) (RSeq (RGroup 1 (RCStar False (CSet True [CChr newline])))
      (RSeq (RWordB True) (RSeq raw_prefix_re
      (RSeq (RLit (CHR 0x22)) (RSeq (RGroup 2 (RCStar True
         (CSet True [CEsc CHR ''s'', CChr backslash, CChr CHR ''('', CChr CHR '')''])))
      (RSeq (RLit CHR ''('') (RSeq (RGroup 3 (RCStar True (CSet True [CChr newline]))) (REol False))))))))"
  by code_simp

lemma raw_prefix_ends:
  "mcap raw_prefix_re p s g p' s' g' \<Longrightarrow> \<exists>w. s = w @ CHR ''R'' # s' \<and> g' = g"
  unfolding raw_prefix_re_def by (auto intro: exI [of _ "[]"] exI [of _ "''u8''"] exI [of _ "''u''"] exI [of _ "''U''"] exI [of _ "''L''"])

lemma raw_string_groups:
  assumes "Match RAW_STRING_START line = Some m"
  obtains w e where "line = m_grp m 1 @ w @ [CHR ''R'', CHR 0x22] @ m_grp m 2 @ ''('' @ m_grp m 3 @ e"
proof -
  from assms have "re_match (re_const RAW_STRING_START) line = Some m" by (simp add: Match_def)
  then obtain p' s' where "mcap (re_const RAW_STRING_START) None line [] p' s' (m_caps m)"
    by (rule re_match_caps)
  then have "\<exists>w e. line = m_grp m 1 @ w @ [CHR ''R'', CHR 0x22] @ m_grp m 2 @ ''('' @ m_grp m 3 @ e"
    unfolding raw_string_start_re
    by (auto simp: cstar_to_iff m_grp_def m_group_def dest!: raw_prefix_ends) blast
  then show thesis using that by blast
qed

text \<open>
  The inner loop of \<open>CleanseRawStrings\<close>: what is left of the line, and the delimiter that
  ends a raw string left open.
\<close>

function raw_string_loop :: "string \<Rightarrow> string \<times> string option" where
  "raw_string_loop line =
     (case Match RAW_STRING_START line of
        None \<Rightarrow> (line, None)
      | Some matched \<Rightarrow>
          if Match LINE_COMMENT_BEFORE (m_grp matched 1) \<noteq> None then (line, None)
          else
            (let delimiter = '')'' @ m_grp matched 2 @ [CHR 0x22] in
             case find_nat delimiter (m_grp matched 3) of
               Some end \<Rightarrow>
                 raw_string_loop (m_grp matched 1 @ [CHR 0x22, CHR 0x22]
                   @ drop (end + length delimiter) (m_grp matched 3))
             | None \<Rightarrow> (m_grp matched 1 @ [CHR 0x22, CHR 0x22], Some delimiter)))"
  by pat_completeness auto
termination
proof (relation "measure length")
  fix line matched delimiter "end"
  assume "Match RAW_STRING_START line = Some matched"
  then obtain w e where "line = m_grp matched 1 @ w @ [CHR ''R'', CHR 0x22] @ m_grp matched 2 @ ''('' @ m_grp matched 3 @ e"
    by (rule raw_string_groups)
  then have "length (m_grp matched 1) + length (m_grp matched 3) + 3 \<le> length line" by simp
  then show "(m_grp matched 1 @ [CHR 0x22, CHR 0x22] @ drop (end + length delimiter) (m_grp matched 3), line)
      \<in> measure length"
    by simp
qed simp

declare raw_string_loop.simps [simp del]

text \<open>
  One line of \<open>CleanseRawStrings\<close>, given the delimiter of a raw string still open.  The
  delimiter found in the line starts with a parenthesis, so the pattern for the leading
  white space always matches there (\<open>leading_space_matches\<close>).
\<close>

definition leading_space :: "string \<Rightarrow> string" where
  "leading_space line = (case Match (raw ''^(`s*)`S'') line of None \<Rightarrow> [] | Some m \<Rightarrow> m_grp m 1)"

definition raw_string_step :: "string option \<Rightarrow> string \<Rightarrow> string \<times> string option" where
  "raw_string_step delimiter line =
     (case delimiter of
        Some d \<Rightarrow>
          (case find_nat d line of
             Some end \<Rightarrow> raw_string_loop (leading_space line @ [CHR 0x22, CHR 0x22] @ drop (end + length d) line)
           | None \<Rightarrow> ([CHR 0x22, CHR 0x22], Some d))
      | None \<Rightarrow> raw_string_loop line)"

fun cleanse_raw_go :: "string option \<Rightarrow> string list \<Rightarrow> string list" where
  "cleanse_raw_go delimiter [] = []"
| "cleanse_raw_go delimiter (line # ls) =
     (case raw_string_step delimiter line of (line', d') \<Rightarrow> line' # cleanse_raw_go d' ls)"

definition CleanseRawStrings :: "string list \<Rightarrow> string list" where
  "CleanseRawStrings raw_lines = cleanse_raw_go None raw_lines"

section \<open>Multi-line comments\<close>

function FindNextMultiLineCommentStart :: "string list \<Rightarrow> nat \<Rightarrow> nat" where
  "FindNextMultiLineCommentStart lines lineix =
     (if lineix < length lines then
        (let stripped = str_strip (lines ! lineix) in
         if startswith stripped ''/*'' \<and> str_find_at stripped ''*/'' 2 < 0 then lineix
         else FindNextMultiLineCommentStart lines (lineix + 1))
      else length lines)"
  by pat_completeness auto
termination
  by (relation "measure (\<lambda>(lines, lineix). length lines - lineix)") auto

function FindNextMultiLineCommentEnd :: "string list \<Rightarrow> nat \<Rightarrow> nat" where
  "FindNextMultiLineCommentEnd lines lineix =
     (if lineix < length lines then
        (if endswith (str_strip (lines ! lineix)) ''*/'' then lineix
         else FindNextMultiLineCommentEnd lines (lineix + 1))
      else length lines)"
  by pat_completeness auto
termination
  by (relation "measure (\<lambda>(lines, lineix). length lines - lineix)") auto

declare FindNextMultiLineCommentStart.simps [simp del]
declare FindNextMultiLineCommentEnd.simps [simp del]

definition RemoveMultiLineCommentsFromRange :: "string list \<Rightarrow> nat \<Rightarrow> nat \<Rightarrow> string list" where
  "RemoveMultiLineCommentsFromRange lines b e =
     fold (\<lambda>i ls. ls[i := ''/**/'']) [b..<e] lines"

lemma FindStart_ge: "lineix \<le> length lines \<Longrightarrow>
    lineix \<le> FindNextMultiLineCommentStart lines lineix \<and>
    FindNextMultiLineCommentStart lines lineix \<le> length lines"
proof (induction lines lineix rule: FindNextMultiLineCommentStart.induct)
  case (1 lines lineix)
  then show ?case
    by (auto simp: FindNextMultiLineCommentStart.simps [of lines lineix] Let_def)
qed

lemma FindEnd_ge: "lineix \<le> length lines \<Longrightarrow>
    lineix \<le> FindNextMultiLineCommentEnd lines lineix \<and>
    FindNextMultiLineCommentEnd lines lineix \<le> length lines"
proof (induction lines lineix rule: FindNextMultiLineCommentEnd.induct)
  case (1 lines lineix)
  then show ?case
    by (auto simp: FindNextMultiLineCommentEnd.simps [of lines lineix] Let_def)
qed

lemma RemoveRange_length [simp]:
  "length (RemoveMultiLineCommentsFromRange lines b e) = length lines"
proof -
  have "length (fold (\<lambda>i ls. ls[i := ''/**/'']) is ls) = length ls" for "is" ls
    by (induction "is" arbitrary: ls) auto
  then show ?thesis by (simp add: RemoveMultiLineCommentsFromRange_def)
qed

text \<open>The loop of \<open>RemoveMultiLineComments\<close>: the lines, and where an unterminated comment begins.\<close>

function remove_comments_loop :: "string list \<Rightarrow> nat \<Rightarrow> string list \<times> nat option" where
  "remove_comments_loop lines lineix =
     (if lineix < length lines then
        (let lineix_begin = FindNextMultiLineCommentStart lines lineix in
         if lineix_begin \<ge> length lines then (lines, None)
         else
           (let lineix_end = FindNextMultiLineCommentEnd lines lineix_begin in
            if lineix_end \<ge> length lines then (lines, Some lineix_begin)
            else remove_comments_loop
                   (RemoveMultiLineCommentsFromRange lines lineix_begin (lineix_end + 1)) (lineix_end + 1)))
      else (lines, None))"
  by pat_completeness auto
termination
proof (relation "measure (\<lambda>(lines, lineix). length lines - lineix)")
  fix lines lineix b e
  assume a: "lineix < length lines" "b = FindNextMultiLineCommentStart lines lineix"
    "\<not> length lines \<le> b" "e = FindNextMultiLineCommentEnd lines b" "\<not> length lines \<le> e"
  then have "lineix \<le> b" "b \<le> e" using FindStart_ge [of lineix lines] FindEnd_ge [of b lines] by auto
  with a show "((RemoveMultiLineCommentsFromRange lines b (e + 1), e + 1), lines, lineix)
      \<in> measure (\<lambda>(lines, lineix). length lines - lineix)" by auto
qed simp

declare remove_comments_loop.simps [simp del]

definition RemoveMultiLineComments :: "error_fn \<Rightarrow> string \<Rightarrow> string list \<Rightarrow> lint \<Rightarrow> (string list \<times> lint) py" where
  "RemoveMultiLineComments error filename lines st =
     (case remove_comments_loop lines 0 of
        (lines', None) \<Rightarrow> Inr (lines', st)
      | (lines', Some lineix_begin) \<Rightarrow>
          py_bind (error filename (Some (int lineix_begin + 1)) ''readability/multiline_comment'' 5
                     ''Could not find end of multi-line comment'' st) (\<lambda>st'. Inr (lines', st')))"

section \<open>Single-line comments\<close>

definition CleanseComments :: "string \<Rightarrow> string" where
  "CleanseComments line =
     (let line = (case find_nat ''//'' line of
          Some commentpos \<Rightarrow>
            if \<not> IsCppString (take commentpos line) then str_rstrip (take commentpos line) else line
        | None \<Rightarrow> line)
      in re_sub (re_const RE_PATTERN_CLEANSE_LINE_C_COMMENTS) [] line)"

section \<open>String and character literals\<close>

definition FIRST_QUOTE :: string where
  \<open>FIRST_QUOTE = raw ''^([^`\'"]*)([`\'"])(.*)$''\<close>

definition NUMBER_AT_END :: string where
  \<open>NUMBER_AT_END = raw ''`b(?:0[bBxX]?|[1-9])[0-9a-fA-F]*$''\<close>

definition DIGITS_AND_SEPARATORS :: string where
  \<open>DIGITS_AND_SEPARATORS = raw ''^((?:`\'?[0-9a-zA-Z_])*)(.*)$''\<close>

definition quote_set :: cset where
  "quote_set = CSet False [CChr CHR 0x27, CChr CHR 0x22]"

lemma first_quote_re:
  "re_const FIRST_QUOTE =
     RSeq (RBol False) (RSeq (RGroup 1 (RCStar True (CSet True [CChr CHR 0x27, CChr CHR 0x22])))
      (RSeq (RGroup 2 (RChr quote_set)) (RSeq (RGroup 3 (RCStar True (CSet True [CChr newline]))) (REol False))))"
  by code_simp

lemma first_quote_groups:
  assumes "Match FIRST_QUOTE s = Some m"
  obtains q e where "s = m_grp m 1 @ [q] @ m_grp m 3 @ e" "m_grp m 2 = [q]" "cmatch quote_set q"
    "list_all (\<lambda>c. c \<noteq> CHR 0x27 \<and> c \<noteq> CHR 0x22) (m_grp m 1)" "e = [] \<or> e = [newline]"
    "newline \<notin> set (m_grp m 3)"
proof -
  from assms have "re_match (re_const FIRST_QUOTE) s = Some m" by (simp add: Match_def)
  then obtain p' s' where "mcap (re_const FIRST_QUOTE) None s [] p' s' (m_caps m)"
    by (rule re_match_caps)
  then obtain t x u where d: "s = t @ x # u @ s'" "list_all (cmatch (CSet True [CChr CHR 0x27, CChr CHR 0x22])) t"
      "cmatch quote_set x" "m_caps m = [(3, u), (2, [x]), (1, t)]" "at_eol False s'"
      "list_all (cmatch (CSet True [CChr newline])) u"
    unfolding first_quote_re mcap.simps cstar_to_iff by force
  show thesis
  proof (rule that)
    show "s = m_grp m 1 @ [x] @ m_grp m 3 @ s'" "m_grp m 2 = [x]" "cmatch quote_set x"
      using d by (simp_all add: m_grp_def m_group_def)
    show "list_all (\<lambda>c. c \<noteq> CHR 0x27 \<and> c \<noteq> CHR 0x22) (m_grp m 1)"
      using d(2,4) by (simp add: m_grp_def m_group_def list_all_iff)
    show "s' = [] \<or> s' = [newline]" using d(5) by (simp add: at_eol_def)
    show "newline \<notin> set (m_grp m 3)" using d(4,6) by (auto simp: m_grp_def m_group_def list_all_iff)
  qed
qed

lemma number_nonempty: "Search NUMBER_AT_END h \<noteq> None \<Longrightarrow> h \<noteq> []"
proof
  assume "Search NUMBER_AT_END h \<noteq> None" "h = []"
  moreover have "Search NUMBER_AT_END [] = None" by code_simp
  ultimately show False by simp
qed

lemma digits_re:
  "re_const DIGITS_AND_SEPARATORS =
     RSeq (RBol False) (RSeq (RGroup 1 (RStar True (RSeq (RAlt (RLit CHR 0x27) REmpty)
       (RChr (CSet False [CRange CHR ''0'' CHR ''9'', CRange CHR ''a'' CHR ''z'',
          CRange CHR ''A'' CHR ''Z'', CChr CHR ''_''])))))
      (RSeq (RGroup 2 (RCStar True (CSet True [CChr newline]))) (REol False)))"
  by code_simp

lemma digits_groups:
  assumes "Match DIGITS_AND_SEPARATORS s = Some m"
  obtains e where "s = m_grp m 1 @ m_grp m 2 @ e"
proof -
  from assms have "re_match (re_const DIGITS_AND_SEPARATORS) s = Some m" by (simp add: Match_def)
  then obtain p' s' where "mcap (re_const DIGITS_AND_SEPARATORS) None s [] p' s' (m_caps m)"
    by (rule re_match_caps)
  then obtain p1 s1 g1 u where d: "mcap (RStar True (RSeq (RAlt (RLit CHR 0x27) REmpty)
       (RChr (CSet False [CRange CHR ''0'' CHR ''9'', CRange CHR ''a'' CHR ''z'',
          CRange CHR ''A'' CHR ''Z'', CChr CHR ''_''])))) None s [] p1 s1 g1"
      "s1 = u @ s'" "m_caps m = [(2, u), (1, take (length s - length s1) s)] @ g1"
    unfolding digits_re mcap.simps(3,4,7,8,9) cstar_to_iff by force
  from mcap_suffix [OF d(1)] obtain t where "s = t @ s1" by (auto simp: suffix_def)
  with d(2,3) show thesis by (intro that [of s']) (simp add: m_grp_def m_group_def)
qed

text \<open>
  The loop of \<open>_CollapseStrings\<close>.  The pattern for a literal with digit separators matches
  every text without a newline, in particular what follows a quote that the first pattern
  found (\<open>digits_match\<close>); where it did not, the source would raise.
\<close>

function collapse_loop :: "string \<Rightarrow> string \<Rightarrow> string" where
  "collapse_loop collapsed elided =
     (case Match FIRST_QUOTE elided of
        None \<Rightarrow> collapsed @ elided
      | Some matched \<Rightarrow>
          (let head = m_grp matched 1; quote = m_grp matched 2; tail = m_grp matched 3 in
           if quote = [CHR 0x22] then
             (case find_nat [CHR 0x22] tail of
                Some second_quote \<Rightarrow>
                  collapse_loop (collapsed @ head @ [CHR 0x22, CHR 0x22]) (drop (second_quote + 1) tail)
              | None \<Rightarrow> collapsed @ elided)
           else if Search NUMBER_AT_END head \<noteq> None then
             (case Match DIGITS_AND_SEPARATORS (CHR 0x27 # tail) of
                Some match_literal \<Rightarrow>
                  collapse_loop (collapsed @ head @ str_replace (m_grp match_literal 1) [CHR 0x27] [])
                    (m_grp match_literal 2)
              | None \<Rightarrow> collapsed @ elided)
           else
             (case find_nat [CHR 0x27] tail of
                Some second_quote \<Rightarrow>
                  collapse_loop (collapsed @ head @ [CHR 0x27, CHR 0x27]) (drop (second_quote + 1) tail)
              | None \<Rightarrow> collapsed @ elided)))"
  by pat_completeness auto
termination
proof (relation "measure (\<lambda>(collapsed, elided). length elided)", goal_cases)
  case 1
  show ?case by simp
next
  case (2 collapsed elided m head quote tail second_quote)
  from 2(1) obtain q e where "elided = head @ [q] @ tail @ e"
    using 2(2-4) by (auto elim: first_quote_groups)
  then show ?case by simp
next
  case (3 collapsed elided m head quote tail ml)
  from 3(1) obtain q e where e: "elided = head @ [q] @ tail @ e"
    using 3(2-4) by (auto elim: first_quote_groups)
  have "head \<noteq> []" using 3(6) by (rule number_nonempty)
  then obtain hc ht where h: "head = hc # ht" by (cases head) auto
  from 3(7) obtain e' where "CHR 0x27 # tail = m_grp ml 1 @ m_grp ml 2 @ e'" by (rule digits_groups)
  then have "length (CHR 0x27 # tail) = length (m_grp ml 1 @ m_grp ml 2 @ e')" by (rule arg_cong)
  then have "length (m_grp ml 2) \<le> 1 + length tail" by simp
  with e show ?case unfolding h by simp
next
  case (4 collapsed elided m head quote tail second_quote)
  from 4(1) obtain q e where "elided = head @ [q] @ tail @ e"
    using 4(2-4) by (auto elim: first_quote_groups)
  then show ?case by simp
qed

declare collapse_loop.simps [simp del]

definition CollapseStrings :: "string \<Rightarrow> string" where
  "CollapseStrings elided =
     (if re_match (re_const RE_PATTERN_INCLUDE) elided \<noteq> None then elided
      else collapse_loop [] (re_sub (re_const RE_PATTERN_CLEANSE_LINE_ESCAPES) [] elided))"

section \<open>Class \<open>CleansedLines\<close>\<close>

record cleansed_lines =
  elided :: "string list"
  clean_lines :: "string list"
  raw_lines :: "string list"
  num_lines :: nat
  lines_without_raw_strings :: "string list"

definition CleansedLines :: "string list \<Rightarrow> cleansed_lines" where
  "CleansedLines lines =
     (let without = CleanseRawStrings lines in
      \<lparr>elided = map (\<lambda>l. CleanseComments (CollapseStrings l)) without,
       clean_lines = map CleanseComments without,
       raw_lines = lines,
       num_lines = length lines,
       lines_without_raw_strings = without\<rparr>)"

definition NumLines :: "cleansed_lines \<Rightarrow> nat" where
  "NumLines c = num_lines c"

section \<open>Lemmas: literals\<close>

lemma first_quote_eval:
  assumes h: "list_all (\<lambda>c. c \<noteq> CHR 0x27 \<and> c \<noteq> CHR 0x22) h" and q: "q = CHR 0x27 \<or> q = CHR 0x22"
    and t: "newline \<notin> set t"
  shows "\<exists>m. Match FIRST_QUOTE (h @ q # t) = Some m \<and> m_grp m 1 = h \<and> m_grp m 2 = [q] \<and> m_grp m 3 = t"
proof -
  have "matches (re_const FIRST_QUOTE) None (h @ q # t) (if t = [] then Some q else Some (last t)) []"
    unfolding first_quote_re matches.simps
  proof (intro exI conjI)
    show "cstar_to (CSet True [CChr CHR 0x27, CChr CHR 0x22]) None (h @ q # t)
        (if h = [] then None else Some (last h)) (q # t)"
      using h by (intro cstar_to_append) (auto simp: list_all_iff)
    show "cmatch quote_set q" using q by (auto simp: quote_set_def)
    show "cstar_to (CSet True [CChr newline]) (Some q) t (if t = [] then Some q else Some (last t)) []"
      using t by (rule dot_star_all)
  qed (simp_all add: at_bol_def at_eol_def)
  then have "re_match (re_const FIRST_QUOTE) (h @ q # t) \<noteq> None" using re_match_iff by blast
  then obtain m where m: "Match FIRST_QUOTE (h @ q # t) = Some m" by (auto simp: Match_def)
  from first_quote_groups [OF m] obtain q' e where d: "h @ q # t = m_grp m 1 @ [q'] @ m_grp m 3 @ e"
    "m_grp m 2 = [q']" "cmatch quote_set q'" "list_all (\<lambda>c. c \<noteq> CHR 0x27 \<and> c \<noteq> CHR 0x22) (m_grp m 1)"
    "e = [] \<or> e = [newline]" by blast
  let ?P = "\<lambda>c. c \<noteq> CHR 0x27 \<and> c \<noteq> CHR 0x22"
  have "takeWhile ?P (h @ q # t) = h" using h q by (auto simp: takeWhile_append list_all_iff)
  moreover have "takeWhile ?P (m_grp m 1 @ [q'] @ m_grp m 3 @ e) = m_grp m 1"
    using d(3,4) by (auto simp: takeWhile_append list_all_iff quote_set_def)
  ultimately have "h = m_grp m 1" using d(1) by simp
  with d(1,2,5) t m show ?thesis by auto
qed

lemma first_quote_None:
  assumes "CHR 0x27 \<notin> set s" "CHR 0x22 \<notin> set s"
  shows "Match FIRST_QUOTE s = None"
proof (rule ccontr)
  assume "Match FIRST_QUOTE s \<noteq> None"
  then obtain m where "Match FIRST_QUOTE s = Some m" by blast
  from first_quote_groups [OF this] obtain q e where "s = m_grp m 1 @ [q] @ m_grp m 3 @ e" "cmatch quote_set q"
    by blast
  then have "q \<in> set s" "q = CHR 0x27 \<or> q = CHR 0x22" 
    by (force, simp add: quote_set_def)
  with assms show False by auto
qed

lemma collapse_loop_prefix: "collapse_loop (c @ d) s = c @ collapse_loop d s"
proof (induction d s arbitrary: c rule: collapse_loop.induct)
  case (1 d s)
  show ?case
    unfolding collapse_loop.simps [of "c @ d" s] collapse_loop.simps [of d s] Let_def
    using "1.IH" [OF _ refl refl refl] by (simp split: option.split)
qed

lemma digits_match:
  assumes "newline \<notin> set s"
  shows "Match DIGITS_AND_SEPARATORS s \<noteq> None"
proof -
  have "matches (re_const DIGITS_AND_SEPARATORS) None s (if s = [] then None else Some (last s)) []"
    unfolding digits_re matches.simps
  proof (intro exI conjI)
    show "cstar_to (CSet True [CChr newline]) None s (if s = [] then None else Some (last s)) []"
      using assms by (rule dot_star_all)
  qed (auto simp: at_bol_def at_eol_def)
  then show ?thesis using re_match_iff [of _ s] by (auto simp: Match_def)
qed

lemma leading_space_matches:
  assumes "find_nat d line = Some e" "d \<noteq> []" "hd d = CHR '')''"
  shows "Match (raw ''^(`s*)`S'') line \<noteq> None"
proof -
  have re: "re_const (raw ''^(`s*)`S'') = RSeq (RBol False) (RSeq (RGroup 1 (RCStar True (CSet False [CEsc CHR ''s''])))
      (RChr (CSet False [CEsc CHR ''S''])))"
    by code_simp
  have ns: "\<not> is_space CHR '')''" by code_simp
  from find_nat_Some [OF assms(1)] assms(2,3) have "CHR '')'' \<in> set line"
    by (cases d) (auto simp: prefix_def dest!: arg_cong [where f = set and x = "drop e line"] dest: in_set_dropD)
  with ns obtain c t where c: "dropWhile is_space line = c # t" "\<not> is_space c"
    by (metis dropWhile_eq_Nil_conv hd_dropWhile list.collapse)
  then have line: "line = takeWhile is_space line @ c # t" by (metis takeWhile_dropWhile_id)
  have "matches (re_const (raw ''^(`s*)`S'')) None line (Some c) t"
    unfolding re matches.simps
  proof (intro exI conjI)
    have "list_all (cmatch (CSet False [CEsc CHR ''s''])) (takeWhile is_space line)"
      by (auto simp: list_all_iff esc_class_def dest: set_takeWhileD)
    from cstar_to_append [OF this, of None "c # t"] line
    show "cstar_to (CSet False [CEsc CHR ''s'']) None line
      (if takeWhile is_space line = [] then None else Some (last (takeWhile is_space line))) (c # t)" by simp
  qed (use c in \<open>simp_all add: at_bol_def esc_class_def\<close>)
  then show ?thesis using re_match_iff [of _ line] by (auto simp: Match_def)
qed

lemma raw_string_needs_start:
  assumes "\<not> sublist [CHR ''R'', CHR 0x22] line"
  shows "raw_string_loop line = (line, None)"
proof -
  have "Match RAW_STRING_START line = None"
  proof (rule ccontr)
    assume "Match RAW_STRING_START line \<noteq> None"
    then obtain m where "Match RAW_STRING_START line = Some m" by blast
    then obtain w e where "line = m_grp m 1 @ w @ [CHR ''R'', CHR 0x22] @ m_grp m 2 @ ''('' @ m_grp m 3 @ e"
      by (rule raw_string_groups)
    then have "sublist [CHR ''R'', CHR 0x22] line" unfolding sublist_def by (metis append.assoc)
    with assms show False by simp
  qed
  then show ?thesis by (simp add: raw_string_loop.simps)
qed

lemma cleanse_raw_prefix:
  "\<forall>l \<in> set ls. \<not> sublist [CHR ''R'', CHR 0x22] l \<Longrightarrow> cleanse_raw_go None (ls @ ms) = ls @ cleanse_raw_go None ms"
  by (induction ls) (auto simp: raw_string_step_def raw_string_needs_start)

lemma cleanse_raw_length [simp]: "length (cleanse_raw_go d ls) = length ls"
  by (induction ls arbitrary: d) (auto split: prod.split)

lemma cleanse_raw_inside:
  "list_all (\<lambda>l. \<not> sublist d l) ls \<Longrightarrow>
   cleanse_raw_go (Some d) (ls @ rest) = replicate (length ls) [CHR 0x22, CHR 0x22] @ cleanse_raw_go (Some d) rest"
proof (induction ls)
  case Nil
  then show ?case by simp
next
  case (Cons l ls)
  then have "find_nat d l = None" by (simp add: find_nat_None)
  with Cons show ?case by (simp add: raw_string_step_def)
qed

lemma c_comments_need: "needs (re_const RE_PATTERN_CLEANSE_LINE_C_COMMENTS) ''/*''"
  by code_simp

lemma escapes_need: "needs (re_const RE_PATTERN_CLEANSE_LINE_ESCAPES) [backslash]"
  by code_simp

lemma include_needs: "needs (re_const RE_PATTERN_INCLUDE) ''#''"
  by code_simp

lemma CleanseComments_plain: "\<not> sublist ''//'' l \<Longrightarrow> \<not> sublist ''/*'' l \<Longrightarrow> CleanseComments l = l"
  by (simp add: CleanseComments_def find_nat_None [THEN iffD2] re_sub_needs [OF c_comments_need])

lemma CollapseStrings_no_escape:
  assumes "backslash \<notin> set l" "CHR ''#'' \<notin> set l"
  shows "CollapseStrings l = collapse_loop [] l"
  using assms re_match_needs [OF include_needs, of l] re_sub_needs [OF escapes_need, of l]
  by (simp add: CollapseStrings_def)

lemma collapse_string_step:
  assumes "list_all (\<lambda>c. c \<noteq> CHR 0x27 \<and> c \<noteq> CHR 0x22) h" "CHR 0x22 \<notin> set body" "newline \<notin> set (body @ rest)"
  shows "collapse_loop [] (h @ [CHR 0x22] @ body @ [CHR 0x22] @ rest) = h @ [CHR 0x22, CHR 0x22] @ collapse_loop [] rest"
proof -
  let ?t = "body @ CHR 0x22 # rest"
  from assms(3) have "newline \<notin> set ?t" by (auto simp: newline_def)
  from first_quote_eval [OF assms(1) _ this, of "CHR 0x22"] obtain m where
    m: "Match FIRST_QUOTE (h @ CHR 0x22 # ?t) = Some m" "m_grp m 1 = h" "m_grp m 2 = [CHR 0x22]" "m_grp m 3 = ?t"
    by auto
  have f: "find_nat [CHR 0x22] ?t = Some (length body)"
    using assms(2) by (induction body) auto
  have "collapse_loop [] (h @ CHR 0x22 # ?t) = collapse_loop ((h @ [CHR 0x22, CHR 0x22]) @ []) rest"
    by (subst collapse_loop.simps) (simp add: m [simplified] f)
  then show ?thesis unfolding collapse_loop_prefix by simp
qed

section \<open>Lemmas: multi-line comments\<close>

definition starts_comment :: "string \<Rightarrow> bool" where
  "starts_comment l = (startswith (str_strip l) ''/*'' \<and> str_find_at (str_strip l) ''*/'' 2 < 0)"

definition ends_comment :: "string \<Rightarrow> bool" where
  "ends_comment l = endswith (str_strip l) ''*/''"

lemma FindStart_spec:
  "lineix \<le> length lines \<Longrightarrow>
   (let b = FindNextMultiLineCommentStart lines lineix in
     (\<forall>i. lineix \<le> i \<and> i < b \<longrightarrow> \<not> starts_comment (lines ! i)) \<and> (b < length lines \<longrightarrow> starts_comment (lines ! b)))"
proof (induction lines lineix rule: FindNextMultiLineCommentStart.induct)
  case (1 lines lineix)
  show ?case
  proof (cases "lineix < length lines \<and> \<not> starts_comment (lines ! lineix)")
    case True
    then have e: "FindNextMultiLineCommentStart lines lineix = FindNextMultiLineCommentStart lines (lineix + 1)"
      by (auto simp: FindNextMultiLineCommentStart.simps [of lines lineix] starts_comment_def Let_def)
    from 1 True have "let b = FindNextMultiLineCommentStart lines (lineix + 1) in
     (\<forall>i. lineix + 1 \<le> i \<and> i < b \<longrightarrow> \<not> starts_comment (lines ! i)) \<and> (b < length lines \<longrightarrow> starts_comment (lines ! b))"
      by (simp add: starts_comment_def Let_def)
    with True show ?thesis unfolding e Let_def by (metis Suc_eq_plus1 Suc_leI le_neq_implies_less)
  next
    case False
    with 1(2) show ?thesis
      by (auto simp: FindNextMultiLineCommentStart.simps [of lines lineix] starts_comment_def Let_def)
  qed
qed

lemma FindEnd_spec:
  "lineix \<le> length lines \<Longrightarrow>
   (let e = FindNextMultiLineCommentEnd lines lineix in
     (\<forall>i. lineix \<le> i \<and> i < e \<longrightarrow> \<not> ends_comment (lines ! i)) \<and> (e < length lines \<longrightarrow> ends_comment (lines ! e)))"
proof (induction lines lineix rule: FindNextMultiLineCommentEnd.induct)
  case (1 lines lineix)
  show ?case
  proof (cases "lineix < length lines \<and> \<not> ends_comment (lines ! lineix)")
    case True
    then have e: "FindNextMultiLineCommentEnd lines lineix = FindNextMultiLineCommentEnd lines (lineix + 1)"
      by (auto simp: FindNextMultiLineCommentEnd.simps [of lines lineix] ends_comment_def Let_def)
    from 1 True have "let b = FindNextMultiLineCommentEnd lines (lineix + 1) in
     (\<forall>i. lineix + 1 \<le> i \<and> i < b \<longrightarrow> \<not> ends_comment (lines ! i)) \<and> (b < length lines \<longrightarrow> ends_comment (lines ! b))"
      by (simp add: ends_comment_def Let_def)
    with True show ?thesis unfolding e Let_def by (metis Suc_eq_plus1 Suc_leI le_neq_implies_less)
  next
    case False
    with 1(2) show ?thesis
      by (auto simp: FindNextMultiLineCommentEnd.simps [of lines lineix] ends_comment_def Let_def)
  qed
qed

lemma RemoveRange_nth:
  "i < length lines \<Longrightarrow> RemoveMultiLineCommentsFromRange lines b e ! i = (if b \<le> i \<and> i < e then ''/**/'' else lines ! i)"
proof -
  have "fold (\<lambda>i ls. ls[i := ''/**/'']) js ls ! i = (if i \<in> set js then ''/**/'' else ls ! i)"
    if "i < length ls" for js and ls :: "string list"
    using that by (induction js arbitrary: ls) auto
  then show "i < length lines \<Longrightarrow> ?thesis" by (simp add: RemoveMultiLineCommentsFromRange_def)
qed

lemma blank_comment_not_start: "\<not> starts_comment ''/**/''"
  by code_simp

text \<open>The comments of several lines that begin at or behind a line: each goes from a line that starts one to the first line at or
  behind it that ends one.  A comment is unterminated if no line at or behind its start ends one.\<close>

definition comment_at :: "string list \<Rightarrow> nat \<Rightarrow> nat \<Rightarrow> nat \<Rightarrow> bool" where
  "comment_at lines from b e =
     (from \<le> b \<and> b \<le> e \<and> e < length lines \<and> starts_comment (lines ! b) \<and> ends_comment (lines ! e) \<and>
      (\<forall>k. b \<le> k \<and> k < e \<longrightarrow> \<not> ends_comment (lines ! k)))"

definition commented :: "string list \<Rightarrow> nat \<Rightarrow> nat \<Rightarrow> bool" where
  "commented lines from i = (\<exists>b e. comment_at lines from b e \<and> b \<le> i \<and> i \<le> e)"

definition unterminated :: "string list \<Rightarrow> nat \<Rightarrow> nat \<Rightarrow> bool" where
  "unterminated lines from b =
     (from \<le> b \<and> b < length lines \<and> starts_comment (lines ! b) \<and> (\<forall>k. b \<le> k \<and> k < length lines \<longrightarrow> \<not> ends_comment (lines ! k)))"

text \<open>What the loop does from a line on: exactly the lines of comments are blanked, and exactly the first
  unterminated comment is found.\<close>

definition removed_from :: "string list \<Rightarrow> nat \<Rightarrow> string list \<Rightarrow> nat option \<Rightarrow> bool" where
  "removed_from lines from lines' r =
     (length lines' = length lines \<and>
      (\<forall>i < length lines. lines' ! i = (if commented lines from i then ''/**/'' else lines ! i)) \<and>
      (\<forall>b. r = Some b \<longleftrightarrow> unterminated lines from b \<and> (\<forall>c < b. \<not> unterminated lines from c)))"

text \<open>The comments from a line on, when the first one goes from \<open>b\<close> to \<open>e\<close>.\<close>

lemma comments_behind_first:
  assumes "comment_at lines from b e" and before: "\<And>i. from \<le> i \<Longrightarrow> i < b \<Longrightarrow> \<not> starts_comment (lines ! i)"
  shows "commented lines from i \<longleftrightarrow> b \<le> i \<and> i \<le> e \<or> commented lines (Suc e) i"
    and "unterminated lines from i \<longleftrightarrow> unterminated lines (Suc e) i"
proof -
  from assms(1) have be: "from \<le> b" "b \<le> e" "e < length lines" "ends_comment (lines ! e)"
    "\<And>k. b \<le> k \<Longrightarrow> k < e \<Longrightarrow> \<not> ends_comment (lines ! k)" by (simp_all add: comment_at_def)
  have other: "b' = b \<or> b < b'" if "from \<le> b'" "starts_comment (lines ! b')" for b'
    using before [OF that(1)] that(2) by force
  have same: "e' = e" if "comment_at lines from b' e'" "b' \<le> e" for b' e'
  proof -
    from that(1) have b': "from \<le> b'" "starts_comment (lines ! b')" "b' \<le> e'" "ends_comment (lines ! e')"
      "\<And>k. b' \<le> k \<Longrightarrow> k < e' \<Longrightarrow> \<not> ends_comment (lines ! k)" by (simp_all add: comment_at_def)
    with other [OF b'(1,2)] have "b \<le> b'" by auto
    with be(4,5) b'(3-5) that(2) show ?thesis by (metis le_trans linorder_neqE_nat)
  qed
  have "b \<le> i \<and> i \<le> e \<or> commented lines (Suc e) i" if c: "comment_at lines from b' e'" "b' \<le> i" "i \<le> e'" for b' e'
  proof (cases "b' \<le> e")
    case True
    with same [OF c(1)] c other [of b'] show ?thesis by (auto simp: comment_at_def)
  next
    case False
    with c have "comment_at lines (Suc e) b' e'" by (simp add: comment_at_def)
    with c(2,3) show ?thesis unfolding commented_def by blast
  qed
  moreover have "comment_at lines (Suc e) b' e' \<Longrightarrow> comment_at lines from b' e'" for b' e'
    using be(1,2) by (simp add: comment_at_def)
  ultimately show "commented lines from i \<longleftrightarrow> b \<le> i \<and> i \<le> e \<or> commented lines (Suc e) i"
    using assms(1) unfolding commented_def by blast
  show "unterminated lines from i \<longleftrightarrow> unterminated lines (Suc e) i"
    using be by (auto simp: unterminated_def) (metis not_less_eq_eq)
qed

lemma removed_from_step:
  assumes rest: "removed_from (RemoveMultiLineCommentsFromRange lines b (Suc e)) (Suc e) lines' r"
    and c: "comment_at lines from b e" and before: "\<And>i. from \<le> i \<Longrightarrow> i < b \<Longrightarrow> \<not> starts_comment (lines ! i)"
  shows "removed_from lines from lines' r"
proof -
  define ls where "ls = RemoveMultiLineCommentsFromRange lines b (Suc e)"
  have nth: "ls ! i = (if b \<le> i \<and> i \<le> e then ''/**/'' else lines ! i)" if "i < length lines" for i
    using that by (simp add: ls_def RemoveRange_nth less_Suc_eq_le)
  have len: "length ls = length lines" by (simp add: ls_def)
  have "comment_at ls (Suc e) b' e' = comment_at lines (Suc e) b' e'" for b' e'
    unfolding comment_at_def len by (rule conj_cong refl impI all_cong | simp add: nth)+
  then have com: "commented ls (Suc e) = commented lines (Suc e)" by (simp add: commented_def fun_eq_iff)
  have "unterminated ls (Suc e) b' = unterminated lines (Suc e) b'" for b'
    unfolding unterminated_def len by (rule conj_cong refl impI all_cong | simp add: nth)+
  then have unt: "unterminated ls (Suc e) = unterminated lines (Suc e)" by (simp add: fun_eq_iff)
  have first: "commented lines from i \<longleftrightarrow> b \<le> i \<and> i \<le> e \<or> commented lines (Suc e) i"
    "unterminated lines from i \<longleftrightarrow> unterminated lines (Suc e) i" for i
    by (rule comments_behind_first [OF c], erule (1) before)+
  from rest show ?thesis
    unfolding removed_from_def ls_def [symmetric] len com unt first(2)
    by (auto simp: nth first(1))
qed

lemma remove_comments_loop_spec:
  "lineix \<le> length lines \<Longrightarrow> remove_comments_loop lines lineix = (lines', r) \<Longrightarrow> removed_from lines lineix lines' r"
proof (induction lines lineix rule: remove_comments_loop.induct)
  case (1 lines lineix)
  let ?b = "FindNextMultiLineCommentStart lines lineix"
  let ?e = "FindNextMultiLineCommentEnd lines ?b"
  have b: "lineix \<le> ?b" "?b \<le> length lines" using FindStart_ge [OF "1.prems"(1)] by auto
  have e: "?b \<le> ?e" "?e \<le> length lines" using FindEnd_ge [OF b(2)] by auto
  have bs: "\<And>i. lineix \<le> i \<Longrightarrow> i < ?b \<Longrightarrow> \<not> starts_comment (lines ! i)"
    "?b < length lines \<Longrightarrow> starts_comment (lines ! ?b)"
    using FindStart_spec [OF "1.prems"(1)] by (auto simp: Let_def)
  have es: "\<And>i. ?b \<le> i \<Longrightarrow> i < ?e \<Longrightarrow> \<not> ends_comment (lines ! i)" "?e < length lines \<Longrightarrow> ends_comment (lines ! ?e)"
    using FindEnd_spec [OF b(2)] by (auto simp: Let_def)
  consider (no_start) "?b = length lines" | (openend) "?b < length lines" "?e = length lines" | (round) "?b < length lines" "?e < length lines"
    using b e by linarith
  then show ?case
  proof cases
    case no_start
    with "1.prems"(2) have "lines' = lines" "r = None"
      by (auto simp: remove_comments_loop.simps [of lines lineix] Let_def split: if_splits)
    moreover have "\<not> starts_comment (lines ! j)" if "lineix \<le> j" "j < length lines" for j
      by (rule bs(1) [OF that(1)]) (use no_start that(2) in simp)
    then have "\<not> commented lines lineix i" "\<not> unterminated lines lineix i" for i
      unfolding commented_def comment_at_def unterminated_def by (meson le_less_trans)+
    ultimately show ?thesis by (simp add: removed_from_def)
  next
    case openend
    with "1.prems" b have "lines' = lines" "r = Some ?b"
      by (auto simp: remove_comments_loop.simps [of lines lineix] Let_def split: if_splits)
    moreover have "\<not> commented lines lineix i" for i
      using bs(1) es(1) openend unfolding commented_def comment_at_def by (metis le_trans linorder_not_less)
    moreover have "unterminated lines lineix ?b" "c < ?b \<Longrightarrow> \<not> unterminated lines lineix c" for c
      using b bs es(1) openend by (auto simp: unterminated_def)
    ultimately show ?thesis by (auto simp: removed_from_def) (metis linorder_neqE_nat)+
  next
    case round
    then have c: "comment_at lines lineix ?b ?e" using b e bs es by (simp add: comment_at_def)
    let ?ls = "RemoveMultiLineCommentsFromRange lines ?b (?e + 1)"
    have l: "lineix < length lines" using round b by simp
    with round "1.prems"(2) have r: "remove_comments_loop ?ls (?e + 1) = (lines', r)"
      by (simp add: remove_comments_loop.simps [of lines lineix] Let_def)
    from round have "?e + 1 \<le> length ?ls" by simp
    with "1.IH" [OF l refl _ refl _ _ r] round have "removed_from ?ls (Suc ?e) lines' r" by simp
    then show ?thesis by (intro removed_from_step [OF _ c] bs(1)) simp_all
  qed
qed

text \<open>Where nothing is unterminated, no line starts a comment any more.\<close>

lemma removed_no_start:
  assumes "removed_from lines 0 lines' None" "i < length lines'"
  shows "\<not> starts_comment (lines' ! i)"
proof
  assume st: "starts_comment (lines' ! i)"
  have none: "\<not> unterminated lines 0 b" for b
  proof (induction b rule: less_induct)
    case (less b)
    then show ?case using assms(1) by (auto simp: removed_from_def)
  qed
  from st assms blank_comment_not_start have i: "lines' ! i = lines ! i" "\<not> commented lines 0 i" "i < length lines"
    by (auto simp: removed_from_def split: if_splits)
  with none [of i] st obtain k where "i \<le> k" "k < length lines" "ends_comment (lines ! k)" by (auto simp: unterminated_def)
  then obtain e where e: "i \<le> e \<and> e < length lines \<and> ends_comment (lines ! e)"
    "\<And>k. k < e \<Longrightarrow> \<not> (i \<le> k \<and> k < length lines \<and> ends_comment (lines ! k))"
    using exists_least_iff [of "\<lambda>k. i \<le> k \<and> k < length lines \<and> ends_comment (lines ! k)"] by blast
  with st i(1) have "comment_at lines 0 i e" by (auto simp: comment_at_def)
  with e(1) i(2) show False unfolding commented_def by blast
qed

lemma remove_comments_stable:
  assumes "removed_from lines 0 lines' None"
  shows "remove_comments_loop lines' 0 = (lines', None)"
proof -
  let ?b = "FindNextMultiLineCommentStart lines' 0"
  have "\<not> ?b < length lines'" using FindStart_spec [of 0 lines'] removed_no_start [OF assms] by (auto simp: Let_def)
  then show ?thesis by (simp add: remove_comments_loop.simps Let_def)
qed

lemma find_comment:
  assumes "\<not> sublist ''//'' (code @ ''/'')"
  shows "find_nat ''//'' (code @ ''//'' @ cmt) = Some (length code)"
  using assms
proof (induction code)
  case Nil
  then show ?case by simp
next
  case (Cons c code)
  then have n: "\<not> prefix ''//'' (c # code @ ''/'')" "\<not> sublist ''//'' (code @ ''/'')"
    by (auto simp: sublist_Cons_right)
  then have "\<not> prefix ''//'' (c # code @ ''//'' @ cmt)" by (cases code) auto
  with Cons.IH [OF n(2)] show ?case by simp
qed

text \<open>Whether a string literal is open at the end of a partial line, by one scan from left to right: an escape takes the
  next character with it, the character literal of a double quote is passed over, and every other double quote opens or closes a
  string literal.\<close>

fun open_string :: "string \<Rightarrow> bool \<Rightarrow> bool" where
  "open_string [] q = q"
| "open_string (c # cs) q =
     (if c = backslash then open_string (drop 1 cs) q
      else if prefix [CHR 0x27, CHR 0x22, CHR 0x27] (c # cs) then open_string (drop 2 cs) q
      else open_string cs (q \<noteq> (c = CHR 0x22)))"

text \<open>What \<open>IsCppString\<close> counts in a line whose pairs of backslashes are replaced.\<close>

definition quotes_left :: "string \<Rightarrow> int" where
  "quotes_left l = int (count_list l CHR 0x22) - int (count_go [backslash, CHR 0x22] 0 l)
     - int (count_go [CHR 0x27, CHR 0x22, CHR 0x27] 0 l)"

abbreviation no_escape_pairs :: "string \<Rightarrow> string" where
  "no_escape_pairs \<equiv> replace_go [backslash, backslash] ''XX'' 0"

lemma backslash_no_quote [simp]: "backslash \<noteq> CHR 0x22" "backslash \<noteq> CHR 0x27" "backslash \<noteq> CHR ''X''"
  "CHR 0x22 \<noteq> backslash" "CHR 0x27 \<noteq> backslash" "CHR ''X'' \<noteq> backslash"
  by (simp_all add: backslash_def)

lemma quotes_left_step:
  "quotes_left (CHR ''X'' # l) = quotes_left l"
  "quotes_left (CHR 0x22 # l) = 1 + quotes_left l"
  "c \<noteq> CHR 0x22 \<Longrightarrow> quotes_left [c] = 0"
  "quotes_left (CHR 0x27 # CHR 0x22 # CHR 0x27 # l) = quotes_left l"
  "quotes_left (backslash # CHR 0x22 # l) = quotes_left l"
  "c \<noteq> CHR 0x22 \<Longrightarrow> \<not> prefix [c, CHR 0x22] [backslash, CHR 0x22] \<or> \<not> prefix [CHR 0x22] l \<Longrightarrow>
     \<not> prefix [CHR 0x27, CHR 0x22, CHR 0x27] (c # l) \<Longrightarrow> quotes_left (c # l) = quotes_left l"
  by (auto simp: quotes_left_def numeral_2_eq_2)

lemma open_string_counted:
  assumes "\<not> sublist [backslash, CHR 0x27, CHR 0x22, CHR 0x27] l"
  shows "open_string l q \<longleftrightarrow> q \<noteq> odd (quotes_left (no_escape_pairs l))"
  using assms
proof (induction l q rule: open_string.induct)
  case (1 q)
  then show ?case by (simp add: quotes_left_def)
next
  case (2 c cs q)
  have triple: "prefix [CHR 0x27, CHR 0x22, CHR 0x27] (CHR 0x27 # no_escape_pairs ds) \<longleftrightarrow>
      prefix [CHR 0x27, CHR 0x22, CHR 0x27] (CHR 0x27 # ds)" for ds
    by (cases ds; cases "tl ds"; auto simp: prefix_def)
  have tail: "\<not> sublist [backslash, CHR 0x27, CHR 0x22, CHR 0x27] (drop n cs)" for n
    using "2.prems" sublist_drop [of n cs] sublist_order.order_trans by (metis sublist_Cons_right)
  consider (pair) ds where "c = backslash" "cs = backslash # ds" | (quote) ds where "c = backslash" "cs = CHR 0x22 # ds"
    | (escape) d ds where "c = backslash" "cs = d # ds" "d \<noteq> backslash" "d \<noteq> CHR 0x22" | (final) "c = backslash" "cs = []"
    | (literal) ds where "c = CHR 0x27" "cs = CHR 0x22 # CHR 0x27 # ds"
    | (dquote) "c = CHR 0x22" | (other) "c \<noteq> backslash" "c \<noteq> CHR 0x22" "\<not> prefix [CHR 0x27, CHR 0x22, CHR 0x27] (c # cs)"
    by (cases cs) (auto simp: prefix_def)
  then show ?case
  proof cases
    case pair
    with 2(1) tail [of 1] show ?thesis by (simp add: quotes_left_step)
  next
    case quote
    with 2(1) tail [of 1] show ?thesis by (simp add: quotes_left_step)
  next
    case escape
    have "\<not> prefix [CHR 0x27, CHR 0x22, CHR 0x27] (d # ds)" using "2.prems" escape by (auto simp: sublist_Cons_right prefix_def)
    then have "\<not> prefix [CHR 0x27, CHR 0x22, CHR 0x27] (d # no_escape_pairs ds)" using triple [of ds] by auto
    with escape have "quotes_left (no_escape_pairs (c # cs)) = quotes_left (no_escape_pairs ds)"
      by (simp add: quotes_left_step)
    with escape 2(1) tail [of 1] show ?thesis by simp
  next
    case final
    then show ?thesis by (simp add: quotes_left_step quotes_left_def)
  next
    case literal
    with 2(2) tail [of 2] show ?thesis by (simp add: quotes_left_step numeral_2_eq_2)
  next
    case dquote
    with 2(3) tail [of 0] show ?thesis by (simp add: quotes_left_step)
  next
    case other
    then have "\<not> prefix [CHR 0x27, CHR 0x22, CHR 0x27] (c # no_escape_pairs cs)" using triple [of cs] by auto
    with other have "quotes_left (no_escape_pairs (c # cs)) = quotes_left (no_escape_pairs cs)"
      by (simp add: quotes_left_step)
    with other 2(3) tail [of 0] show ?thesis by auto
  qed
qed

lemma IsCppString_open_string:
  "\<not> sublist [backslash, CHR 0x27, CHR 0x22, CHR 0x27] l \<Longrightarrow> IsCppString l = open_string l False"
  by (simp add: open_string_counted quotes_left_def IsCppString_def str_replace_def str_count_def Let_def count_go_char)

lemma CleanseComments_cut:
  assumes "\<not> sublist ''//'' (code @ ''/'')" "\<not> sublist ''/*'' (code @ ''//'' @ cmt)"
    and "\<not> sublist [backslash, CHR 0x27, CHR 0x22, CHR 0x27] code"
  shows "CleanseComments (code @ ''//'' @ cmt) =
    (if open_string code False then code @ ''//'' @ cmt else str_rstrip code)"
proof -
  have "sublist (str_rstrip code) (code @ ''//'' @ cmt)"
    using str_rstrip_prefix [of code] by (auto simp: prefix_def sublist_def) (metis append_Nil append_assoc)
  then have "\<not> sublist ''/*'' (str_rstrip code)" using assms(2) sublist_order.order_trans by blast
  then show ?thesis
    using find_comment [OF assms(1), of cmt] assms(2) IsCppString_open_string [OF assms(3)]
    by (simp add: CleanseComments_def re_sub_needs [OF c_comments_need])
qed

text \<open>A line without literals, escapes and comments, and a file of such lines.\<close>

definition plain_line :: "string \<Rightarrow> bool" where
  "plain_line l = (CHR 0x22 \<notin> set l \<and> CHR 0x27 \<notin> set l \<and> backslash \<notin> set l \<and>
     \<not> str_in ''//'' l \<and> \<not> str_in ''/*'' l)"

lemma quote_in_raw_start: "CHR 0x22 \<notin> set l \<Longrightarrow> \<not> sublist [CHR ''R'', CHR 0x22] l"
  by (auto simp: sublist_def)

lemma CleanseRawStrings_no_quote: "\<forall>l \<in> set ls. CHR 0x22 \<notin> set l \<Longrightarrow> CleanseRawStrings ls = ls"
  unfolding CleanseRawStrings_def using cleanse_raw_prefix [of ls "[]"] by (simp add: quote_in_raw_start)

text \<open>A line is left alone if no raw string starts in it or in a line before it.\<close>

lemma CleanseRawStrings_nth:
  assumes "i < length lines" "\<forall>j \<le> i. \<not> sublist [CHR ''R'', CHR 0x22] (lines ! j)"
  shows "CleanseRawStrings lines ! i = lines ! i"
proof -
  let ?ls = "take (Suc i) lines"
  have "\<forall>l \<in> set ?ls. \<not> sublist [CHR ''R'', CHR 0x22] l"
    using assms by (auto simp: in_set_conv_nth less_Suc_eq_le)
  from cleanse_raw_prefix [OF this, of "drop (Suc i) lines"]
  have "CleanseRawStrings lines = ?ls @ cleanse_raw_go None (drop (Suc i) lines)"
    by (simp add: CleanseRawStrings_def)
  with assms(1) show ?thesis by (simp add: nth_append)
qed

lemma CollapseStrings_plain:
  assumes "CHR 0x22 \<notin> set l" "CHR 0x27 \<notin> set l" "backslash \<notin> set l"
  shows "CollapseStrings l = l"
  using assms re_sub_needs [OF escapes_need, of l] first_quote_None [of l]
  by (simp add: CollapseStrings_def collapse_loop.simps)

lemma CleansedLines_plain:
  "list_all plain_line ls \<Longrightarrow> elided (CleansedLines ls) = ls \<and> clean_lines (CleansedLines ls) = ls \<and>
     lines_without_raw_strings (CleansedLines ls) = ls"
  by (auto simp: CleansedLines_def CleanseRawStrings_no_quote plain_line_def str_in_sublist list_all_iff
      CollapseStrings_plain CleanseComments_plain intro!: map_idI)

lemma collapse_first_string:
  assumes "list_all (\<lambda>c. c \<noteq> CHR 0x27 \<and> c \<noteq> CHR 0x22) h" "CHR 0x22 \<notin> set body"
    and "\<forall>c \<in> set (h @ body @ rest). c \<noteq> newline \<and> c \<noteq> backslash \<and> c \<noteq> CHR ''#''"
  shows "CollapseStrings (h @ [CHR 0x22] @ body @ [CHR 0x22] @ rest) =
    h @ [CHR 0x22, CHR 0x22] @ CollapseStrings rest"
proof -
  have r: "backslash \<notin> set rest" "CHR ''#'' \<notin> set rest" "newline \<notin> set (body @ rest)" using assms(3) by auto
  have l: "backslash \<notin> set (h @ [CHR 0x22] @ body @ [CHR 0x22] @ rest)"
    "CHR ''#'' \<notin> set (h @ [CHR 0x22] @ body @ [CHR 0x22] @ rest)" using assms(3) by (auto simp: backslash_def)
  show ?thesis
    unfolding CollapseStrings_no_escape [OF l] CollapseStrings_no_escape [OF r(1,2)]
    by (rule collapse_string_step [OF assms(1,2) r(3)])
qed

text \<open>The text around one string literal: no other quotes, no escapes, no comment marker in the code around it.\<close>

definition one_literal :: "string \<Rightarrow> string \<Rightarrow> string \<Rightarrow> string \<Rightarrow> bool" where
  "one_literal before body behind cmt =
     (list_all (\<lambda>c. c \<noteq> CHR 0x22 \<and> c \<noteq> CHR 0x27) (before @ behind @ cmt) \<and> CHR 0x22 \<notin> set body \<and>
      list_all (\<lambda>c. c \<noteq> newline \<and> c \<noteq> backslash \<and> c \<noteq> CHR ''#'') (before @ body @ behind @ cmt) \<and>
      \<not> sublist ''//'' before \<and> \<not> sublist ''//'' (behind @ ''/'') \<and> \<not> sublist ''/*'' before \<and>
      \<not> sublist ''/*'' (behind @ ''//'' @ cmt))"

lemma one_literal_open:
  assumes "one_literal before body behind cmt"
  shows "\<not> open_string (before @ [CHR 0x22, CHR 0x22] @ behind) False"
proof -
  have skip: "open_string (xs @ ys) q = open_string ys q"
    if "list_all (\<lambda>c. c \<noteq> CHR 0x22 \<and> c \<noteq> CHR 0x27 \<and> c \<noteq> backslash) xs" for xs ys q
    using that by (induction xs) auto
  show ?thesis
    using assms skip [of before "[CHR 0x22, CHR 0x22] @ behind"] skip [of behind "[]"]
    by (simp add: one_literal_def list_all_iff)
qed

lemma pair_across: "c \<noteq> a \<Longrightarrow> c \<noteq> b \<Longrightarrow> sublist [a, b] (xs @ c # ys) \<longleftrightarrow> sublist [a, b] xs \<or> sublist [a, b] ys"
proof (induction xs)
  case Nil
  then show ?case by (auto simp: sublist_Cons_right)
next
  case (Cons x xs)
  then show ?case by (cases xs) (auto simp: sublist_Cons_right)
qed

lemma one_literal_elided:
  assumes "one_literal before body behind cmt"
  shows "CleanseComments (CollapseStrings (before @ [CHR 0x22] @ body @ [CHR 0x22] @ behind @ ''//'' @ cmt)) =
    str_rstrip (before @ [CHR 0x22, CHR 0x22] @ behind)"
proof -
  let ?rest = "behind @ ''//'' @ cmt" and ?code = "before @ [CHR 0x22, CHR 0x22] @ behind"
  note l = assms [unfolded one_literal_def list_all_iff]
  have nb: "backslash \<notin> set ?code" using l by auto
  have "CollapseStrings (before @ [CHR 0x22] @ body @ [CHR 0x22] @ ?rest) = before @ [CHR 0x22, CHR 0x22] @ CollapseStrings ?rest"
    using l by (intro collapse_first_string) (auto simp: list_all_iff newline_def backslash_def)
  moreover have "CollapseStrings ?rest = ?rest" using l by (intro CollapseStrings_plain) (auto simp: backslash_def)
  ultimately have collapsed: "CollapseStrings (before @ [CHR 0x22] @ body @ [CHR 0x22] @ ?rest) = ?code @ ''//'' @ cmt" by simp
  have "CleanseComments (?code @ ''//'' @ cmt) = str_rstrip ?code"
  proof -
    have "\<not> sublist ''//'' (?code @ ''/'')" "\<not> sublist ''/*'' (?code @ ''//'' @ cmt)"
      using l pair_across [of "CHR 0x22" "CHR ''/''"] pair_across [of "CHR 0x22" "CHR ''/''" _ "[]"] by simp_all
    moreover have "\<not> sublist [backslash, CHR 0x27, CHR 0x22, CHR 0x27] ?code"
      using nb set_mono_sublist [of "[backslash, CHR 0x27, CHR 0x22, CHR 0x27]" ?code] by auto
    ultimately have "CleanseComments (?code @ ''//'' @ cmt) =
        (if open_string ?code False then ?code @ ''//'' @ cmt else str_rstrip ?code)"
      by (rule CleanseComments_cut)
    then show ?thesis unfolding if_not_P [OF one_literal_open [OF assms]] .
  qed
  then show ?thesis unfolding collapsed .
qed

lemma NumLines_CleansedLines [simp]: "NumLines (CleansedLines ls) = length ls"
  "length (elided (CleansedLines ls)) = length ls"
  by (simp_all add: CleansedLines_def NumLines_def Let_def CleanseRawStrings_def)

lemma length_clean_lines [simp]: "length (clean_lines (CleansedLines ls)) = length ls"
  "length (lines_without_raw_strings (CleansedLines ls)) = length ls"
  by (simp_all add: CleansedLines_def Let_def CleanseRawStrings_def)

lemma CleansedLines_raw: "raw_lines (CleansedLines ls) = ls" "num_lines (CleansedLines ls) = length ls"
  by (simp_all add: CleansedLines_def Let_def CleanseRawStrings_def)

text \<open>A comment of two lines, code, and a comment that never ends.\<close>

definition sample_comments :: "string list" where
  "sample_comments = [''/* a'', ''b */'', ''int x;'', ''/* c'']"

lemma sample_comments_at:
  "commented sample_comments 0 i \<longleftrightarrow> i \<le> 1" "unterminated sample_comments 0 b \<longleftrightarrow> b = 3"
proof -
  have len: "length sample_comments = 4" by (simp add: sample_comments_def)
  have "list_all (\<lambda>i. starts_comment (sample_comments ! i) = (i = 0 \<or> i = 3) \<and> ends_comment (sample_comments ! i) = (i = 1)) [0..<4]"
    by code_simp
  then have se: "starts_comment (sample_comments ! i) \<longleftrightarrow> i = 0 \<or> i = 3" "ends_comment (sample_comments ! i) \<longleftrightarrow> i = 1" if "i < 4" for i
    using that by (auto simp: list_all_iff)
  have "comment_at sample_comments 0 b e \<longleftrightarrow> b = 0 \<and> e = 1" for b e
  proof
    assume "comment_at sample_comments 0 b e"
    then have "b \<le> e" "e < 4" "starts_comment (sample_comments ! b)" "ends_comment (sample_comments ! e)"
      unfolding comment_at_def len by blast+
    with se [of b] se [of e] show "b = 0 \<and> e = 1" by auto
  next
    assume "b = 0 \<and> e = 1"
    with se [of 0] se [of 1] show "comment_at sample_comments 0 b e" unfolding comment_at_def len by simp
  qed
  then show "commented sample_comments 0 i \<longleftrightarrow> i \<le> 1" unfolding commented_def by simp
  have "\<not> ends_comment (sample_comments ! k)" if "3 \<le> k \<and> k < 4" for k using se(2) [of k] that by simp
  with se(1) [of 3] have "unterminated sample_comments 0 3" unfolding unterminated_def len by simp
  moreover have "b = 3" if "unterminated sample_comments 0 b"
  proof -
    from that have "b < 4" "starts_comment (sample_comments ! b)" "\<not> (b \<le> 1 \<and> 1 < (4::nat) \<and> ends_comment (sample_comments ! 1))"
      unfolding unterminated_def len by blast+
    with se [of b] se [of 1] show ?thesis by auto
  qed
  ultimately show "unterminated sample_comments 0 b \<longleftrightarrow> b = 3" by blast
qed

section \<open>Properties\<close>



text \<open>C17. Inside a raw string that is still open, every line without the closing delimiter is
  replaced by a pair of quotes, whatever it contains, and the string stays open; the line
  with the delimiter keeps its indentation and what follows the delimiter.  In particular the
  search for the indentation never fails there.\<close>

theorem raw_string_hidden:
  assumes "list_all (\<lambda>l. \<not> sublist (CHR '')'' # d) l) body"
    and "find_nat (CHR '')'' # d) line = Some e"
  shows "\<exists>m. Match (raw ''^(`s*)`S'') line = Some m \<and>
    cleanse_raw_go (Some (CHR '')'' # d)) (body @ line # rest) =
      replicate (length body) [CHR 0x22, CHR 0x22] @
      (case raw_string_loop (m_grp m 1 @ [CHR 0x22, CHR 0x22] @ drop (e + length d + 1) line) of
         (line', d') \<Rightarrow> line' # cleanse_raw_go d' rest)"
proof -
  from leading_space_matches [OF assms(2)] obtain m where "Match (raw ''^(`s*)`S'') line = Some m" by auto
  with assms(2) cleanse_raw_inside [OF assms(1)] show ?thesis
    by (simp add: raw_string_step_def leading_space_def)
qed

theorem raw_string_hidden_witness:
  "\<exists>m. Match (raw ''^(`s*)`S'') (''  )x'' @ [CHR 0x22] @ '';'') = Some m \<and>
    cleanse_raw_go (Some (CHR '')'' # ''x'' @ [CHR 0x22]))
        ([''a // b'', ''c)y''] @ (''  )x'' @ [CHR 0x22] @ '';'') # [''d'']) =
      replicate (length [''a // b'', ''c)y'']) [CHR 0x22, CHR 0x22] @
      (case raw_string_loop (m_grp m 1 @ [CHR 0x22, CHR 0x22] @
            drop (2 + length (''x'' @ [CHR 0x22]) + 1) (''  )x'' @ [CHR 0x22] @ '';'')) of
         (line', d') \<Rightarrow> line' # cleanse_raw_go d' [''d''])"
  by (rule raw_string_hidden) code_simp+

text \<open>C18. The text of a string literal does not influence the checks that read the elided
  lines: in a line without escapes and directives, the first string literal collapses to a
  pair of quotes whatever its text, and the rest of the line is collapsed on its own.\<close>

theorem collapse_hides_strings:
  assumes "list_all (\<lambda>c. c \<noteq> CHR 0x27 \<and> c \<noteq> CHR 0x22) h" "CHR 0x22 \<notin> set body"
    and "\<forall>c \<in> set (h @ body @ rest). c \<noteq> newline \<and> c \<noteq> backslash \<and> c \<noteq> CHR ''#''"
  shows "CollapseStrings (h @ [CHR 0x22] @ body @ [CHR 0x22] @ rest) =
    h @ [CHR 0x22, CHR 0x22] @ CollapseStrings rest"
  using assms by (rule collapse_first_string)

theorem collapse_hides_strings_witness:
  "CollapseStrings (''f('' @ [CHR 0x22] @ ''http://x '' @ [CHR 0x22] @ '');'') =
    ''f('' @ [CHR 0x22, CHR 0x22] @ CollapseStrings '');''"
  by (rule collapse_hides_strings) code_simp+



text \<open>C16. \<open>RemoveMultiLineComments\<close> blanks exactly the lines of comments of several lines (from a line that starts one to the
  first line at or behind it that ends one) and leaves every other line alone.  It reports exactly if some comment is unterminated, once, at the
  first line that starts such a comment.  If it reports nothing, a second run changes nothing.\<close>

theorem remove_multiline_comments_spec:
  "\<exists>lines' r. length lines' = length lines \<and>
     (\<forall>i < length lines. lines' ! i = (if commented lines 0 i then ''/**/'' else lines ! i)) \<and>
     (\<forall>b. r = Some b \<longleftrightarrow> unterminated lines 0 b \<and> (\<forall>c < b. \<not> unterminated lines 0 c)) \<and>
     (case r of
        None \<Rightarrow> RemoveMultiLineComments error filename lines st = Inr (lines', st) \<and>
                RemoveMultiLineComments error filename lines' st = Inr (lines', st)
      | Some b \<Rightarrow> RemoveMultiLineComments error filename lines st =
          py_bind (error filename (Some (int b + 1)) ''readability/multiline_comment'' 5
             ''Could not find end of multi-line comment'' st) (\<lambda>st'. Inr (lines', st')))"
proof -
  obtain lines' r where e: "remove_comments_loop lines 0 = (lines', r)" by fastforce
  from remove_comments_loop_spec [OF _ this] have s: "removed_from lines 0 lines' r" by simp
  have "case r of
        None \<Rightarrow> RemoveMultiLineComments error filename lines st = Inr (lines', st) \<and>
                RemoveMultiLineComments error filename lines' st = Inr (lines', st)
      | Some b \<Rightarrow> RemoveMultiLineComments error filename lines st =
          py_bind (error filename (Some (int b + 1)) ''readability/multiline_comment'' 5
             ''Could not find end of multi-line comment'' st) (\<lambda>st'. Inr (lines', st'))"
    using e remove_comments_stable [of lines lines'] s by (auto simp: RemoveMultiLineComments_def split: option.split)
  with s show ?thesis unfolding removed_from_def by blast
qed

theorem remove_multiline_comments_spec_witness:
  "RemoveMultiLineComments Error ''a.cc'' sample_comments (lint_init CppLintState_init) =
     py_bind (Error ''a.cc'' (Some 4) ''readability/multiline_comment'' 5 ''Could not find end of multi-line comment'' (lint_init CppLintState_init))
       (\<lambda>st'. Inr ([''/**/'', ''/**/'', ''int x;'', ''/* c''], st'))"
proof -
  let ?st = "lint_init CppLintState_init"
  from remove_multiline_comments_spec [of sample_comments Error "''a.cc''" ?st, unfolded sample_comments_at] obtain lines' r where
    r: "length lines' = length sample_comments"
      "\<forall>i < length sample_comments. lines' ! i = (if i \<le> 1 then ''/**/'' else sample_comments ! i)"
      "\<forall>b. r = Some b \<longleftrightarrow> b = 3 \<and> (\<forall>c < b. c \<noteq> 3)"
      "case r of
        None \<Rightarrow> RemoveMultiLineComments Error ''a.cc'' sample_comments ?st = Inr (lines', ?st) \<and>
                RemoveMultiLineComments Error ''a.cc'' lines' ?st = Inr (lines', ?st)
      | Some b \<Rightarrow> RemoveMultiLineComments Error ''a.cc'' sample_comments ?st =
          py_bind (Error ''a.cc'' (Some (int b + 1)) ''readability/multiline_comment'' 5
             ''Could not find end of multi-line comment'' ?st) (\<lambda>st'. Inr (lines', st'))" by blast
  have nth: "lines' ! i = [''/**/'', ''/**/'', ''int x;'', ''/* c''] ! i" if "i < 4" for i
  proof -
    from that consider "i = 0" | "i = 1" | "i = 2" | "i = 3" by linarith
    then show ?thesis using r(2) [rule_format, of i] that by cases (simp_all add: sample_comments_def)
  qed
  have lines: "lines' = [''/**/'', ''/**/'', ''int x;'', ''/* c'']"
    by (rule nth_equalityI) (use r(1) nth in \<open>simp_all add: sample_comments_def\<close>)
  have found: "r = Some 3" using r(3) by simp
  have four: "int 3 + 1 = 4" by simp
  from r(4) show ?thesis unfolding found lines option.case four .
qed

end
