(* ===== verification/Expressions.thy ===== *)
theory Expressions
  imports Cleansing
begin

text \<open>
  Finding the other end of a parenthesised expression, forwards and backwards, over the
  elided lines of a file (\<open>FindEndOfExpressionInLine\<close>, \<open>CloseExpression\<close>,
  \<open>FindStartOfExpressionInLine\<close> and \<open>ReverseCloseExpression\<close> of \<open>cpplint.py\<close>).

  The nesting stack is a list whose head is the top.  A loop body is a step that either
  returns from the function (\<open>Inl\<close>) or goes on with a new stack (\<open>Inr\<close>).  The functions
  return the pair of the source: a position or -1, and the stack, where None stands for
  the source's None.

  Brackets of the three unambiguous kinds are specified by the grammar \<open>balanced\<close>.  On text
  without angle brackets the loops are shown to compute \<open>scan\<close>, which does not look at the
  neighbours of a character, so that a scan over several lines is one scan over their
  concatenation.
\<close>

section \<open>Forwards\<close>

definition closes :: "char \<Rightarrow> char \<Rightarrow> bool" where
  "closes a c = (a = CHR ''('' \<and> c = CHR '')'' \<or> a = CHR ''['' \<and> c = CHR '']'' \<or> a = CHR ''{'' \<and> c = CHR ''}'')"

definition OPERATOR_AT_END :: string where
  "OPERATOR_AT_END = raw ''`boperator`s*$''"

abbreviation operator_before :: "string \<Rightarrow> bool" where
  "operator_before s \<equiv> Search OPERATOR_AT_END s \<noteq> None"

text \<open>Take the pending angle brackets off the stack: they were operators.\<close>

definition drop_angles :: "char \<Rightarrow> string \<Rightarrow> string" where
  "drop_angles a stack = dropWhile (\<lambda>c. c = a) stack"

definition end_step :: "string \<Rightarrow> nat \<Rightarrow> string \<Rightarrow> (int \<times> string option) + string" where
  "end_step line i stack =
     (let char = line ! i in
      if char \<in> set ''([{'' then Inr (char # stack)
      else if char = CHR ''<'' then
        (if i > 0 \<and> line ! (i - 1) = CHR ''<'' then
           (if stack \<noteq> [] \<and> hd stack = CHR ''<''
            then (if tl stack = [] then Inl (-1, None) else Inr (tl stack))
            else Inr stack)
         else if i > 0 \<and> operator_before (take i line) then Inr stack
         else Inr (CHR ''<'' # stack))
      else if char \<in> set '')]}'' then
        (let stack = drop_angles CHR ''<'' stack in
         if stack = [] then Inl (-1, None)
         else if closes (hd stack) char
         then (if tl stack = [] then Inl (int i + 1, None) else Inr (tl stack))
         else Inl (-1, None))
      else if char = CHR ''>'' then
        (if i > 0 \<and> (line ! (i - 1) = CHR ''-'' \<or> operator_before (take (i - 1) line)) then Inr stack
         else if stack \<noteq> [] \<and> hd stack = CHR ''<''
         then (if tl stack = [] then Inl (int i + 1, None) else Inr (tl stack))
         else Inr stack)
      else if char = CHR '';'' then
        (let stack = drop_angles CHR ''<'' stack in
         if stack = [] then Inl (-1, None) else Inr stack)
      else Inr stack)"

function FindEndOfExpressionInLine :: "string \<Rightarrow> nat \<Rightarrow> string \<Rightarrow> int \<times> string option" where
  "FindEndOfExpressionInLine line i stack =
     (if i < length line then
        (case end_step line i stack of
           Inl r \<Rightarrow> r
         | Inr stack' \<Rightarrow> FindEndOfExpressionInLine line (i + 1) stack')
      else (-1, Some stack))"
  by pat_completeness auto
termination
  by (relation "measure (\<lambda>(line, i, stack). length line - i)") auto

declare FindEndOfExpressionInLine.simps [simp del]

text \<open>The truth value of the source's \<open>stack\<close>: neither None nor empty.\<close>

definition stack_open :: "string option \<Rightarrow> bool" where
  "stack_open stack = (stack \<noteq> None \<and> stack \<noteq> Some [])"

text \<open>
  The loop over the following lines; the line last looked at is part of the result.  The
  elided lines are as many as \<open>NumLines\<close> (\<open>cleansed_lines_aligned\<close>), so the access
  inside the loop is in range.
\<close>

function close_loop :: "cleansed_lines \<Rightarrow> nat \<Rightarrow> string \<Rightarrow> string option \<Rightarrow> string \<times> nat \<times> int" where
  "close_loop clean linenum line stack =
     (if stack_open stack \<and> linenum + 1 < NumLines clean then
        (let line' = elided clean ! (linenum + 1) in
         case FindEndOfExpressionInLine line' 0 (the stack) of
           (end_pos, stack') \<Rightarrow>
             if end_pos > -1 then (line', linenum + 1, end_pos)
             else close_loop clean (linenum + 1) line' stack')
      else (line, NumLines clean, -1))"
  by pat_completeness auto
termination
  by (relation "measure (\<lambda>(clean, linenum, line, stack). NumLines clean - linenum)") auto

declare close_loop.simps [simp del]

definition CloseExpression :: "cleansed_lines \<Rightarrow> nat \<Rightarrow> nat \<Rightarrow> (string \<times> nat \<times> int) py" where
  "CloseExpression clean linenum pos =
     py_bind (py_index (elided clean) (int linenum)) (\<lambda>line.
     py_bind (py_index line (int pos)) (\<lambda>c.
       if c \<notin> set ''({[<'' \<or> Match ''<[<=]'' (drop pos line) \<noteq> None
       then Inr (line, NumLines clean, -1)
       else
         (case FindEndOfExpressionInLine line pos [] of
            (end_pos, stack) \<Rightarrow>
              if end_pos > -1 then Inr (line, linenum, end_pos)
              else Inr (close_loop clean linenum line stack))))"

section \<open>Backwards\<close>

text \<open>
  The loop runs from \<open>endpos\<close> down to the start of the line; the model counts the position
  one higher (\<open>Suc i\<close> for the source's \<open>i\<close>, 0 when the loop has ended).  Two of the branches
  skip one character more.
\<close>

definition start_step :: "string \<Rightarrow> nat \<Rightarrow> string \<Rightarrow> (int \<times> string option) + (nat \<times> string)" where
  "start_step line i stack =
     (let char = line ! i in
      if char \<in> set '')]}'' then Inr (1, char # stack)
      else if char = CHR ''>'' then
        (if i > 0 \<and> (line ! (i - 1) = CHR ''-'' \<or> Match (raw ''`s>=`s'') (drop (i - 1) line) \<noteq> None
             \<or> operator_before (take i line))
         then Inr (2, stack)
         else Inr (1, CHR ''>'' # stack))
      else if char = CHR ''<'' then
        (if i > 0 \<and> line ! (i - 1) = CHR ''<'' then Inr (2, stack)
         else if stack \<noteq> [] \<and> hd stack = CHR ''>''
         then (if tl stack = [] then Inl (int i, None) else Inr (1, tl stack))
         else Inr (1, stack))
      else if char \<in> set ''([{'' then
        (let stack = drop_angles CHR ''>'' stack in
         if stack = [] then Inl (-1, None)
         else if closes char (hd stack)
         then (if tl stack = [] then Inl (int i, None) else Inr (1, tl stack))
         else Inl (-1, None))
      else if char = CHR '';'' then
        (let stack = drop_angles CHR ''>'' stack in
         if stack = [] then Inl (-1, None) else Inr (1, stack))
      else Inr (1, stack))"

lemma start_step_skip: "start_step line i stack = Inr (k, s) \<Longrightarrow> 0 < k"
  by (auto simp: start_step_def Let_def split: if_splits)

function find_start_loop :: "string \<Rightarrow> nat \<Rightarrow> string \<Rightarrow> int \<times> string option" where
  "find_start_loop line n stack =
     (if n = 0 then (-1, Some stack)
      else (case start_step line (n - 1) stack of
              Inl r \<Rightarrow> r
            | Inr (k, stack') \<Rightarrow> find_start_loop line (n - k) stack'))"
  by pat_completeness auto
termination
  by (relation "measure (\<lambda>(line, n, stack). n)") (auto dest: start_step_skip)

declare find_start_loop.simps [simp del]

text \<open>\<open>endpos\<close> is a position of the line, or -1 for an empty line.\<close>

definition FindStartOfExpressionInLine :: "string \<Rightarrow> int \<Rightarrow> string \<Rightarrow> int \<times> string option" where
  "FindStartOfExpressionInLine line endpos stack = find_start_loop line (nat (endpos + 1)) stack"

function reverse_close_loop :: "cleansed_lines \<Rightarrow> nat \<Rightarrow> string \<Rightarrow> string option \<Rightarrow> string \<times> nat \<times> int" where
  "reverse_close_loop clean linenum line stack =
     (if stack_open stack \<and> linenum > 0 then
        (let line' = elided clean ! (linenum - 1) in
         case FindStartOfExpressionInLine line' (int (length line') - 1) (the stack) of
           (start_pos, stack') \<Rightarrow>
             if start_pos > -1 then (line', linenum - 1, start_pos)
             else reverse_close_loop clean (linenum - 1) line' stack')
      else (line, 0, -1))"
  by pat_completeness auto
termination
  by (relation "measure (\<lambda>(clean, linenum, line, stack). linenum)") auto

declare reverse_close_loop.simps [simp del]

definition ReverseCloseExpression :: "cleansed_lines \<Rightarrow> nat \<Rightarrow> nat \<Rightarrow> (string \<times> nat \<times> int) py" where
  "ReverseCloseExpression clean linenum pos =
     py_bind (py_index (elided clean) (int linenum)) (\<lambda>line.
     py_bind (py_index line (int pos)) (\<lambda>c.
       if c \<notin> set '')}]>'' then Inr (line, 0, -1)
       else
         (case FindStartOfExpressionInLine line (int pos) [] of
            (start_pos, stack) \<Rightarrow>
              if start_pos > -1 then Inr (line, linenum, start_pos)
              else Inr (reverse_close_loop clean linenum line stack))))"

section \<open>Balanced text\<close>

definition opener :: "char \<Rightarrow> bool" where
  "opener c = (c \<in> set ''([{'')"

definition closer :: "char \<Rightarrow> bool" where
  "closer c = (c \<in> set '')]}'')"

lemma opener_not_closer [simp]: "opener c \<Longrightarrow> \<not> closer c" "closer c \<Longrightarrow> \<not> opener c"
  "opener c \<Longrightarrow> c \<noteq> CHR '';''" "closer c \<Longrightarrow> c \<noteq> CHR '';''"
  by (auto simp: opener_def closer_def)

inductive balanced :: "string \<Rightarrow> bool" where
  bal_empty: "balanced []"
| bal_char: "\<not> opener x \<Longrightarrow> \<not> closer x \<Longrightarrow> balanced w \<Longrightarrow> balanced (x # w)"
| bal_pair: "closes a b \<Longrightarrow> balanced u \<Longrightarrow> balanced v \<Longrightarrow> balanced (a # u @ b # v)"

definition no_angles :: "string \<Rightarrow> bool" where
  "no_angles s = (CHR ''<'' \<notin> set s \<and> CHR ''>'' \<notin> set s)"

lemma no_angles_simps [simp]:
  "no_angles []" "no_angles (c # s) \<longleftrightarrow> c \<noteq> CHR ''<'' \<and> c \<noteq> CHR ''>'' \<and> no_angles s"
  "no_angles (s @ t) \<longleftrightarrow> no_angles s \<and> no_angles t"
  by (auto simp: no_angles_def)

lemma no_angles_tl [simp]: "no_angles s \<Longrightarrow> no_angles (tl s)"
  by (cases s) auto

text \<open>How a scan of a stretch of text ends: the expression closes after so many characters,
  it cannot close any more, or it is still open with this stack.\<close>

datatype scan_result = Closed nat | Broken | Open string

fun shift :: "nat \<Rightarrow> scan_result \<Rightarrow> scan_result" where
  "shift k (Closed n) = Closed (k + n)"
| "shift k Broken = Broken"
| "shift k (Open s) = Open s"

fun scan :: "string \<Rightarrow> string \<Rightarrow> scan_result" where
  "scan [] s = Open s"
| "scan (c # t) s =
     (if opener c then shift 1 (scan t (c # s))
      else if closer c then
        (if s = [] \<or> \<not> closes (hd s) c then Broken
         else if tl s = [] then Closed 1 else shift 1 (scan t (tl s)))
      else if c = CHR '';'' \<and> s = [] then Broken
      else shift 1 (scan t s))"

lemma shift_simps [simp]:
  "shift a (shift b r) = shift (a + b) r" "shift 0 r = r"
  "shift k r = Open s \<longleftrightarrow> r = Open s" "shift k r = Closed n \<longleftrightarrow> (\<exists>m. r = Closed m \<and> n = k + m)"
  by (cases r; auto)+

lemma scan_append:
  "scan (u @ v) s = (case scan u s of Open s' \<Rightarrow> shift (length u) (scan v s') | r \<Rightarrow> r)"
proof (induction u arbitrary: s)
  case Nil
  then show ?case by simp
next
  case (Cons c u)
  have sh: "(case shift 1 r of Open s' \<Rightarrow> shift (length (c # u)) (scan v s') | r \<Rightarrow> r) =
      shift 1 (case r of Open s' \<Rightarrow> shift (length u) (scan v s') | r \<Rightarrow> r)" for r
    by (cases r) auto
  show ?case by (simp add: Cons sh del: One_nat_def)
qed

lemma scan_Open_not_Nil: "scan u s = Open s' \<Longrightarrow> s \<noteq> [] \<Longrightarrow> s' \<noteq> []"
proof (induction u arbitrary: s)
  case Nil
  then show ?case by simp
next
  case (Cons c u)
  from Cons.prems Cons.IH [of "c # s"] Cons.IH [of s] Cons.IH [of "tl s"] show ?case
    by (simp split: if_splits)
qed

lemma closes_cases: "closes a b \<Longrightarrow> opener a \<and> closer b"
  by (auto simp: closes_def opener_def closer_def)

lemma scan_balanced: "balanced w \<Longrightarrow> s \<noteq> [] \<Longrightarrow> scan w s = Open s"
proof (induction arbitrary: s rule: balanced.induct)
  case bal_empty
  then show ?case by simp
next
  case (bal_char x w)
  then show ?case by simp
next
  case (bal_pair a b u v)
  from bal_pair.IH(1) [of "a # s"] have u: "scan u (a # s) = Open (a # s)" by simp
  from closes_cases [OF bal_pair.hyps(1)] bal_pair.hyps(1) bal_pair.IH(2) [OF bal_pair.prems] bal_pair.prems
  show ?case by (simp add: scan_append u)
qed

text \<open>What must follow for the brackets on the stack to close, the top one first.\<close>

fun fills :: "string \<Rightarrow> string \<Rightarrow> bool" where
  "fills [] t = (t = [])"
| "fills (a # s) t = (\<exists>w b t'. t = w @ b # t' \<and> balanced w \<and> closes a b \<and> fills s t')"

lemma scan_Closed: "scan t s = Closed n \<Longrightarrow> s \<noteq> [] \<Longrightarrow> n \<le> length t \<and> fills s (take n t)"
proof (induction t arbitrary: s n)
  case Nil
  then show ?case by simp
next
  case (Cons c t)
  obtain a s' where s: "s = a # s'" using Cons.prems(2) by (cases s) auto
  consider (op) "opener c" | (cl) "closer c" "closes a c" | (other) "\<not> opener c" "\<not> closer c"
    using Cons.prems(1) s by (auto split: if_splits)
  then show ?case
  proof cases
    case op
    then obtain m where m: "scan t (c # s) = Closed m" "n = Suc m" using Cons.prems(1) by auto
    from Cons.IH [OF m(1)] obtain w b t' w' b' t'' where
      "m \<le> length t" "take m t = w @ b # w' @ b' # t''" "balanced w" "closes c b" "balanced w'" "closes a b'" "fills s' t''"
      by (auto simp: s)
    moreover from this m(2) have "take n (c # t) = (c # w @ b # w') @ b' # t''" "balanced (c # w @ b # w')"
      by (auto intro: bal_pair)
    ultimately show ?thesis using m(2) unfolding s fills.simps by (metis Suc_le_mono length_Cons)
  next
    case cl
    show ?thesis
    proof (cases s')
      case Nil
      with cl Cons.prems(1) s have "n = 1" by auto
      with cl Nil show ?thesis unfolding s by (auto intro!: exI [of _ "[]"] bal_empty)
    next
      case (Cons a' s'')
      with cl Cons.prems(1) s obtain m where m: "scan t s' = Closed m" "n = Suc m" by auto
      from Cons.IH [OF m(1)] Cons have "m \<le> length t" "fills s' (take m t)" by auto
      with m(2) cl(2) show ?thesis
        unfolding s fills.simps(2) by (intro conjI exI [of _ "[]"] exI [of _ c] exI [of _ "take m t"]) (auto intro: bal_empty)
    qed
  next
    case other
    then obtain m where m: "scan t s = Closed m" "n = Suc m" using Cons.prems by auto
    from Cons.IH [OF m(1) Cons.prems(2)] obtain w b t' where
      "m \<le> length t" "take m t = w @ b # t'" "balanced w" "closes a b" "fills s' t'" by (auto simp: s)
    moreover from this m(2) have "take n (c # t) = (c # w) @ b # t'" "balanced (c # w)"
      using other by (auto intro: bal_char)
    ultimately show ?thesis using m(2) unfolding s fills.simps by (metis Suc_le_mono length_Cons)
  qed
qed

lemma scan_iff:
  assumes "opener a"
  shows "scan (a # t) [] = Closed n \<longleftrightarrow>
     (\<exists>w b. n = length w + 2 \<and> prefix (w @ [b]) t \<and> balanced w \<and> closes a b)"
proof
  assume "scan (a # t) [] = Closed n"
  with assms obtain m where m: "scan t [a] = Closed m" "n = Suc m" by (cases "scan t [a]") auto
  from scan_Closed [OF m(1)] obtain w b where "m \<le> length t" "take m t = w @ [b]" "balanced w" "closes a b" by auto
  moreover from this have "m = length w + 1" by (metis length_append_singleton length_take min.absorb2 Suc_eq_plus1)
  ultimately show "\<exists>w b. n = length w + 2 \<and> prefix (w @ [b]) t \<and> balanced w \<and> closes a b"
    using m(2) by (metis take_is_prefix add_2_eq_Suc' Suc_eq_plus1)
next
  assume "\<exists>w b. n = length w + 2 \<and> prefix (w @ [b]) t \<and> balanced w \<and> closes a b"
  then obtain w b t' where w: "n = length w + 2" "t = w @ b # t'" "balanced w" "closes a b"
    by (auto simp: prefix_def)
  have "scan t [a] = Closed (length w + 1)"
    using closes_cases [OF w(4)] w(4) by (auto simp: w(2) scan_append scan_balanced [OF w(3)])
  with assms w(1) show "scan (a # t) [] = Closed n" by auto
qed


section \<open>The loops compute the scan\<close>

fun end_result :: "nat \<Rightarrow> scan_result \<Rightarrow> int \<times> string option" where
  "end_result i (Closed n) = (int (i + n), None)"
| "end_result i Broken = (-1, None)"
| "end_result i (Open s) = (-1, Some s)"

lemma end_result_shift [simp]: "end_result i (shift k r) = end_result (i + k) r"
  by (cases r) auto

lemma end_result_pos [simp]:
  "fst (end_result i r) > -1 \<longleftrightarrow> (\<exists>n. r = Closed n)" "end_result i r = (-1, Some s) \<longleftrightarrow> r = Open s"
  by (cases r; auto)+

lemma drop_angles_id: "no_angles s \<Longrightarrow> c \<in> {CHR ''<'', CHR ''>''} \<Longrightarrow> drop_angles c s = s"
  by (cases s) (auto simp: drop_angles_def)

lemma drop_angles_Nil [simp]: "drop_angles c [] = []"
  by (simp add: drop_angles_def)

lemma FindEnd_scan:
  "no_angles (drop i line) \<Longrightarrow> no_angles s \<Longrightarrow>
   FindEndOfExpressionInLine line i s = end_result i (scan (drop i line) s)"
proof (induction line i s rule: FindEndOfExpressionInLine.induct)
  case (1 line i s)
  show ?case
  proof (cases "i < length line")
    case True
    let ?c = "line ! i"
    have d: "drop i line = ?c # drop (i + 1) line" using True by (simp add: Cons_nth_drop_Suc)
    with 1 have n: "no_angles (drop (i + 1) line)" "?c \<noteq> CHR ''<''" "?c \<noteq> CHR ''>''" by (auto simp: d)
    have st: "end_step line i s =
        (if opener ?c then Inr (?c # s)
         else if closer ?c then
           (if s = [] \<or> \<not> closes (hd s) ?c then Inl (-1, None)
            else if tl s = [] then Inl (int i + 1, None) else Inr (tl s))
         else if ?c = CHR '';'' \<and> s = [] then Inl (-1, None) else Inr s)"
      using n drop_angles_id [OF "1.prems"(2), of "CHR ''<''"]
      by (simp add: end_step_def Let_def flip: opener_def closer_def) (auto simp: opener_def closer_def)
    have "no_angles (?c # s)" "no_angles (tl s)" using n "1.prems"(2) by auto
    with "1.IH" [OF True] n(1) "1.prems"(2) True show ?thesis
      by (subst FindEndOfExpressionInLine.simps) (simp add: st d)
  next
    case False
    then show ?thesis by (subst FindEndOfExpressionInLine.simps) simp
  qed
qed


text \<open>Backwards, the loop computes the scan of the mirror image.\<close>

definition mirror :: "char \<Rightarrow> char" where
  "mirror c = (if c = CHR ''('' then CHR '')'' else if c = CHR '')'' then CHR ''(''
     else if c = CHR ''['' then CHR '']'' else if c = CHR '']'' then CHR ''[''
     else if c = CHR ''{'' then CHR ''}'' else if c = CHR ''}'' then CHR ''{'' else c)"

lemma mirror_mirror [simp]: "mirror (mirror c) = c"
  by (simp add: mirror_def)

lemma mirror_opener [simp]: "opener (mirror c) = closer c" "closer (mirror c) = opener c"
  "mirror c = CHR '';'' \<longleftrightarrow> c = CHR '';''"
  by (auto simp: mirror_def opener_def closer_def)

lemma closes_mirror: "closes a b \<longleftrightarrow> opener a \<and> b = mirror a"
  by (auto simp: closes_def opener_def mirror_def)

lemma closes_mirrors [simp]: "closes (mirror a) (mirror b) = closes b a"
  by (metis closes_mirror mirror_mirror mirror_opener(1,2))

lemma balanced_append: "balanced u \<Longrightarrow> balanced v \<Longrightarrow> balanced (u @ v)"
  by (induction rule: balanced.induct) (auto intro: balanced.intros)

lemma balanced_mirror: "balanced w \<Longrightarrow> balanced (map mirror (rev w))"
proof (induction rule: balanced.induct)
  case bal_empty
  then show ?case by (simp add: balanced.intros)
next
  case (bal_char x w)
  then show ?case by (auto intro!: balanced_append balanced.intros)
next
  case (bal_pair a b u v)
  then have "balanced (mirror b # map mirror (rev u) @ mirror a # [])" by (intro balanced.intros) auto
  with bal_pair show ?case by (auto intro: balanced_append)
qed

fun start_result :: "nat \<Rightarrow> scan_result \<Rightarrow> int \<times> string option" where
  "start_result n (Closed k) = (int n - int k, None)"
| "start_result n Broken = (-1, None)"
| "start_result n (Open s) = (-1, Some (map mirror s))"

lemma start_result_shift [simp]: "start_result (Suc n) (shift (Suc 0) r) = start_result n r"
  by (cases r) auto

lemma FindStart_scan:
  "no_angles (take n line) \<Longrightarrow> no_angles s \<Longrightarrow> n \<le> length line \<Longrightarrow>
   find_start_loop line n s = start_result n (scan (map mirror (rev (take n line))) (map mirror s))"
proof (induction n arbitrary: s)
  case 0
  then show ?case by (simp add: find_start_loop.simps comp_def)
next
  case (Suc n)
  let ?c = "line ! n"
  have t: "take (Suc n) line = take n line @ [?c]" using Suc.prems by (simp add: take_Suc_conv_app_nth)
  with Suc.prems have n: "no_angles (take n line)" "?c \<noteq> CHR ''<''" "?c \<noteq> CHR ''>''" by auto
  have st: "start_step line n s =
      (if closer ?c then Inr (1, ?c # s)
       else if opener ?c then
         (if s = [] \<or> \<not> closes ?c (hd s) then Inl (-1, None)
          else if tl s = [] then Inl (int n, None) else Inr (1, tl s))
       else if ?c = CHR '';'' \<and> s = [] then Inl (-1, None) else Inr (1, s))"
    using n drop_angles_id [OF Suc.prems(2), of "CHR ''>''"]
    by (simp add: start_step_def Let_def flip: opener_def closer_def) (auto simp: opener_def closer_def)
  have a: "no_angles (?c # s)" "no_angles (tl s)" using n Suc.prems(2) by auto
  have hd: "s \<noteq> [] \<Longrightarrow> closes (mirror (hd s)) (mirror ?c) = closes ?c (hd s)" by simp
  show ?case
    using Suc.IH [OF n(1)] a Suc.prems(2,3)
    by (subst find_start_loop.simps) (simp add: st t hd_map map_tl [symmetric])
qed


section \<open>Scanning over several lines\<close>

lemma scan_no_angles: "scan u s = Open s' \<Longrightarrow> no_angles u \<Longrightarrow> no_angles s \<Longrightarrow> no_angles s'"
proof (induction u arbitrary: s)
  case Nil
  then show ?case by simp
next
  case (Cons c u)
  from Cons.prems Cons.IH [of "c # s"] Cons.IH [of s] Cons.IH [of "tl s"] show ?case
    by (simp split: if_splits)
qed

lemma scan_split:
  assumes "scan (u @ v) s = Closed (length u + n)" "0 < n" "s \<noteq> []"
  obtains s' where "scan u s = Open s'" "scan v s' = Closed n" "s' \<noteq> []"
proof (cases "scan u s")
  case (Closed k)
  with scan_Closed [OF this assms(3)] assms(1,2) show thesis by (simp add: scan_append)
next
  case Broken
  with assms(1) show thesis by (simp add: scan_append)
next
  case (Open s')
  with assms(1) scan_Open_not_Nil [OF Open assms(3)] that show thesis by (simp add: scan_append)
qed

lemma scan_stop:
  assumes "scan u s = Closed n"
  shows "scan (u @ v) s = Closed n"
  using assms by (simp add: scan_append)

lemma close_loop_scan:
  assumes "scan (concat ws @ w1 @ [b]) s = Closed (length (concat ws @ w1 @ [b]))" "s \<noteq> []" "no_angles s"
    and "\<And>i. i < length ws \<Longrightarrow> elided clean ! (n + 1 + i) = ws ! i"
    and "elided clean ! (n + 1 + length ws) = w1 @ b # post" "n + 1 + length ws < NumLines clean"
    and "list_all no_angles ws" "no_angles (w1 @ b # post)"
  shows "close_loop clean n line (Some s) = (w1 @ b # post, n + 1 + length ws, int (length w1) + 1)"
  using assms
proof (induction ws arbitrary: n line s)
  case Nil
  then have "scan (w1 @ [b]) s = Closed (length w1 + 1)" by simp
  from scan_stop [OF this, of post] have "scan (w1 @ b # post) s = Closed (length w1 + 1)" by simp
  with Nil FindEnd_scan [of 0 "w1 @ b # post" s] show ?case
    by (subst close_loop.simps) (simp add: stack_open_def)
next
  case (Cons w ws)
  let ?v = "concat ws @ w1 @ [b]"
  from Cons.prems(1) have "scan (w @ ?v) s = Closed (length w + length ?v)" by simp
  then obtain s' where s': "scan w s = Open s'" "scan ?v s' = Closed (length ?v)" "s' \<noteq> []"
    by (rule scan_split) (use Cons.prems(2) in simp_all)
  have w: "elided clean ! (n + 1) = w" using Cons.prems(4) [of 0] by simp
  have f: "FindEndOfExpressionInLine w 0 s = (-1, Some s')"
    using FindEnd_scan [of 0 w s] Cons.prems(3,7) s'(1) by simp
  have "close_loop clean (n + 1) w (Some s') = (w1 @ b # post, n + 1 + 1 + length ws, int (length w1) + 1)"
  proof (rule Cons.IH [OF s'(2,3)])
    show "no_angles s'" using scan_no_angles [OF s'(1)] Cons.prems(3,7) by simp
    show "elided clean ! (n + 1 + 1 + i) = ws ! i" if "i < length ws" for i
      using Cons.prems(4) [of "Suc i"] that by simp
  qed (use Cons.prems in simp_all)
  with Cons.prems(2,6) show ?case
    by (subst close_loop.simps) (simp add: stack_open_def w [simplified] f)
qed

lemma find_end_balanced_iff:
  assumes "i < length line" "line ! i \<in> set ''([{''" "CHR ''<'' \<notin> set (drop i line)" "CHR ''>'' \<notin> set (drop i line)"
  shows "FindEndOfExpressionInLine line i [] = (int p, None) \<longleftrightarrow>
    (\<exists>w b. drop i (take p line) = line ! i # w @ [b] \<and> p \<le> length line \<and> balanced w \<and> closes (line ! i) b)"
proof -
  let ?a = "line ! i" and ?t = "drop (i + 1) line"
  have d: "drop i line = ?a # ?t" using assms(1) by (simp add: Cons_nth_drop_Suc)
  have o: "opener ?a" using assms(2) by (simp add: opener_def)
  have "FindEndOfExpressionInLine line i [] = end_result i (scan (?a # ?t) [])"
    using FindEnd_scan [of i line "[]"] assms(3,4) by (simp add: no_angles_def d)
  then have "FindEndOfExpressionInLine line i [] = (int p, None) \<longleftrightarrow> (\<exists>n. scan (?a # ?t) [] = Closed n \<and> p = i + n)"
    by (cases "scan (?a # ?t) []") auto
  also have "\<dots> \<longleftrightarrow> (\<exists>w b. p = i + (length w + 2) \<and> prefix (w @ [b]) ?t \<and> balanced w \<and> closes ?a b)"
    unfolding scan_iff [OF o] by blast
  also have "\<dots> \<longleftrightarrow> (\<exists>w b. drop i (take p line) = ?a # w @ [b] \<and> p \<le> length line \<and> balanced w \<and> closes ?a b)"
  proof (intro ex_cong1)
    fix w b
    have "p = i + (length w + 2) \<and> prefix (w @ [b]) ?t \<longleftrightarrow> drop i (take p line) = ?a # w @ [b] \<and> p \<le> length line"
    proof
      assume l: "p = i + (length w + 2) \<and> prefix (w @ [b]) ?t"
      then obtain u where u: "?t = (w @ [b]) @ u" by (auto simp: prefix_def)
      with l have "drop i (take p line) = take (length w + 2) (?a # (w @ [b]) @ u)" by (simp add: drop_take d)
      moreover from u have "length ?t = length w + 1 + length u" by simp
      ultimately show "drop i (take p line) = ?a # w @ [b] \<and> p \<le> length line" using l by simp
    next
      assume r: "drop i (take p line) = ?a # w @ [b] \<and> p \<le> length line"
      then have "length (drop i (take p line)) = length w + 2" by simp
      with conjunct2 [OF r] have p: "p = i + (length w + 2)" by simp
      with r have "take (length w + 2) (?a # ?t) = ?a # w @ [b]" by (simp add: drop_take d)
      then have "take (length w + 1) ?t = w @ [b]" by simp
      with p show "p = i + (length w + 2) \<and> prefix (w @ [b]) ?t" by (metis take_is_prefix)
    qed
    then show "(p = i + (length w + 2) \<and> prefix (w @ [b]) ?t \<and> balanced w \<and> closes ?a b) =
      (drop i (take p line) = ?a # w @ [b] \<and> p \<le> length line \<and> balanced w \<and> closes ?a b)" by blast
  qed
  finally show ?thesis .
qed

section \<open>Properties\<close>

text \<open>C7. On a line without angle brackets behind the position, an opening bracket closes
  exactly where the grammar of balanced text says: the search from it returns a position
  exactly when the text up to there is the bracket, balanced text and the matching bracket.\<close>

theorem find_end_balanced:
  assumes "i < length line" "line ! i \<in> set ''([{''" "CHR ''<'' \<notin> set (drop i line)" "CHR ''>'' \<notin> set (drop i line)"
  shows "FindEndOfExpressionInLine line i [] = (int p, None) \<longleftrightarrow>
    (\<exists>w b. drop i (take p line) = line ! i # w @ [b] \<and> p \<le> length line \<and> balanced w \<and> closes (line ! i) b)"
  by (rule find_end_balanced_iff [OF assms])

theorem find_end_balanced_witness:
  "FindEndOfExpressionInLine ''f(a[1], {x});'' 1 [] = (int 12, None) \<longleftrightarrow>
    (\<exists>w b. drop 1 (take 12 ''f(a[1], {x});'') = ''f(a[1], {x});'' ! 1 # w @ [b] \<and>
       12 \<le> length ''f(a[1], {x});'' \<and> balanced w \<and> closes (''f(a[1], {x});'' ! 1) b)"
  by (rule find_end_balanced) code_simp+

text \<open>C24. The two directions are inverse to each other on a line without angle brackets:
  where the forward search from an opening bracket ends, the backward search from the last
  character it consumed returns to that bracket.\<close>

theorem find_start_inverts_find_end:
  assumes "CHR ''<'' \<notin> set line" "CHR ''>'' \<notin> set line" "i < length line" "line ! i \<in> set ''([{''"
    and "FindEndOfExpressionInLine line i [] = (int p, None)"
  shows "FindStartOfExpressionInLine line (int p - 1) [] = (int i, None)"
proof -
  have na: "no_angles line" using assms(1,2) by (simp add: no_angles_def)
  have nd: "CHR ''<'' \<notin> set (drop i line)" "CHR ''>'' \<notin> set (drop i line)"
    using assms(1,2) by (auto dest: in_set_dropD)
  from assms(5) find_end_balanced_iff [OF assms(3,4) nd] obtain w b where
    w: "drop i (take p line) = line ! i # w @ [b]" "p \<le> length line" "balanced w" "closes (line ! i) b" by blast
  let ?a = "line ! i"
  have l: "p = i + length w + 2" using arg_cong [OF w(1), of length] w(2) by simp
  have "take p line = take i (take p line) @ drop i (take p line)" by (rule append_take_drop_id [symmetric])
  then have "take p line = take i line @ ?a # w @ [b]" unfolding w(1) by (simp add: l)
  then have t: "map mirror (rev (take p line)) = mirror b # map mirror (rev w) @ mirror ?a # map mirror (rev (take i line))"
    by simp
  have "scan (map mirror (rev (take p line))) [] = Closed (length w + 2)"
    using closes_cases [OF w(4)] w(4)
    by (simp add: t scan_append scan_balanced [OF balanced_mirror [OF w(3)]])
  moreover have "no_angles (take p line)" using na by (auto simp: no_angles_def dest: in_set_takeD)
  ultimately have "find_start_loop line p [] = (int i, None)"
    using FindStart_scan [of p line "[]"] w(2) l by simp
  then show ?thesis by (simp add: FindStartOfExpressionInLine_def)
qed

theorem find_start_inverts_find_end_witness:
  "FindStartOfExpressionInLine ''f(a[1], {x});'' (int 12 - 1) [] = (int 1, None)"
  by (rule find_start_inverts_find_end) code_simp+

text \<open>C21. \<open>CloseExpression\<close> over several lines: if the rest of the first line, whole lines, and
  the beginning of a last line together are balanced text, and the matching bracket follows,
  the result is the position just behind that bracket (no angle brackets on these lines).\<close>

theorem close_expression_lines:
  assumes "n + 1 + length ws < NumLines clean" "NumLines clean = length (elided clean)"
    and "elided clean ! n = pre @ a # u" "\<forall>i < length ws. elided clean ! (n + 1 + i) = ws ! i"
    and "elided clean ! (n + 1 + length ws) = v @ b # post"
    and "closes a b" "balanced (u @ concat ws @ v)"
    and "list_all no_angles (u # ws)" "no_angles (v @ b # post)"
  shows "CloseExpression clean n (length pre) = Inr (v @ b # post, n + 1 + length ws, int (length v) + 1)"
proof -
  have a: "opener a" "a \<noteq> CHR ''<''" "a \<noteq> CHR ''>''" using assms(6) by (auto simp: closes_def opener_def)
  let ?v = "concat ws @ v @ [b]"
  have "scan (u @ concat ws @ v) [a] = Open [a]" by (rule scan_balanced [OF assms(7)]) simp
  from this scan_append [of "u @ concat ws @ v" "[b]" "[a]"] closes_cases [OF assms(6)] assms(6)
  have "scan (u @ ?v) [a] = Closed (length u + length ?v)" by simp
  then obtain s' where s': "scan u [a] = Open s'" "scan ?v s' = Closed (length ?v)" "s' \<noteq> []"
    by (rule scan_split) simp_all
  have f: "FindEndOfExpressionInLine (pre @ a # u) (length pre) [] = (-1, Some s')"
    using FindEnd_scan [of "length pre" "pre @ a # u" "[]"] a s'(1) assms(8) by simp
  have m: "Match ''<[<=]'' (a # u) = None"
  proof -
    have "starts (re_const ''<[<=]'') ''<''" by code_simp
    from re_match_starts [OF this, of "a # u"] a show ?thesis by (simp add: Match_def)
  qed
  have "close_loop clean n (pre @ a # u) (Some s') = (v @ b # post, n + 1 + length ws, int (length v) + 1)"
    using assms scan_no_angles [OF s'(1)] a s'(2,3) by (intro close_loop_scan) auto
  with assms(1-3) a f m show ?thesis
    by (auto simp: CloseExpression_def opener_def nth_append)
qed

theorem close_expression_lines_witness:
  "let clean = CleansedLines [''f(a,'', ''  b[1],'', ''  c);''] in
   CloseExpression clean 0 (length ''f'') = Inr (''  c'' @ CHR '')'' # '';'', 0 + 1 + length [''  b[1],''], int (length ''  c'') + 1)"
proof -
  let ?clean = "CleansedLines [''f(a,'', ''  b[1],'', ''  c);'']"
  have "list_all plain_line [''f(a,'', ''  b[1],'', ''  c);'']" by code_simp
  then have e: "elided ?clean = [''f(a,'', ''  b[1],'', ''  c);'']" using CleansedLines_plain by blast
  have "balanced ''1''" "balanced '',  c''" by (auto intro!: balanced.intros simp: opener_def closer_def)
  then have "balanced (CHR ''['' # ''1'' @ CHR '']'' # '',  c'')" by (intro bal_pair) (auto simp: closes_def)
  then have "balanced (''a,  b'' @ CHR ''['' # ''1'' @ CHR '']'' # '',  c'')"
    by (intro balanced_append) (auto intro!: balanced.intros simp: opener_def closer_def)
  then have b: "balanced (''a,'' @ concat [''  b[1],''] @ ''  c'')" by simp
  show ?thesis
    unfolding Let_def
    by (rule close_expression_lines [OF _ _ _ _ _ _ b, where a = "CHR ''(''"])
      (simp_all add: e closes_def)
qed

lemma end_step_Inl:
  "end_step line i s = Inl (p, st) \<Longrightarrow>
   st = None \<and> (p = -1 \<or> p = int i + 1 \<and> line ! i \<in> set '')]}>'')"
  by (auto simp: end_step_def Let_def split: if_splits)

lemma FindEnd_bounds:
  "FindEndOfExpressionInLine line i s = (p, st) \<Longrightarrow> p > -1 \<Longrightarrow>
   int i < p \<and> p \<le> int (length line) \<and> line ! nat (p - 1) \<in> set '')]}>''"
proof (induction line i s rule: FindEndOfExpressionInLine.induct)
  case (1 line i s)
  show ?case
  proof (cases "i < length line")
    case True
    show ?thesis
    proof (cases "end_step line i s")
      case (Inl r)
      with "1.prems" True have "end_step line i s = Inl (p, st)"
        by (simp add: FindEndOfExpressionInLine.simps [of line i s])
      from end_step_Inl [OF this] "1.prems"(2) True show ?thesis by auto
    next
      case (Inr s')
      with "1.prems" True have "FindEndOfExpressionInLine line (i + 1) s' = (p, st)"
        by (simp add: FindEndOfExpressionInLine.simps [of line i s])
      from "1.IH" [OF True Inr this "1.prems"(2)] show ?thesis by auto
    qed
  next
    case False
    with "1.prems" show ?thesis by (simp add: FindEndOfExpressionInLine.simps [of line i s])
  qed
qed

lemma close_loop_bounds:
  "close_loop clean n line st = (l, n', p) \<Longrightarrow>
   n' = NumLines clean \<and> p = -1 \<or>
   n < n' \<and> n' < NumLines clean \<and> l = elided clean ! n' \<and>
     0 < p \<and> p \<le> int (length l) \<and> l ! nat (p - 1) \<in> set '')]}>''"
proof (induction clean n line st rule: close_loop.induct)
  case (1 clean n line st)
  show ?case
  proof (cases "stack_open st \<and> n + 1 < NumLines clean")
    case True
    obtain q st' where f: "FindEndOfExpressionInLine (elided clean ! (n + 1)) 0 (the st) = (q, st')" by fastforce
    show ?thesis
    proof (cases "q > -1")
      case q: True
      with "1.prems" True f have "l = elided clean ! (n + 1)" "n' = n + 1" "p = q"
        by (auto simp: close_loop.simps [of clean n line st] Let_def)
      with FindEnd_bounds [OF f q] True show ?thesis by simp
    next
      case False
      with "1.prems" True f have c: "close_loop clean (n + 1) (elided clean ! (n + 1)) st' = (l, n', p)"
        by (simp add: close_loop.simps [of clean n line st] Let_def)
      from "1.IH" [OF True refl f [symmetric] False c] show ?thesis by auto
    qed
  next
    case False
    with "1.prems" show ?thesis by (auto simp: close_loop.simps [of clean n line st])
  qed
qed

lemma CloseExpression_progress:
  assumes "CloseExpression clean n pos = Inr (l, n', p)" "p > -1"
  shows "n' = n \<and> int pos < p \<or> n < n' \<and> n' < NumLines clean"
  using assms FindEnd_bounds [of _ pos "[]"] close_loop_bounds [of clean n]
  by (fastforce simp: CloseExpression_def py_bind_Inr_iff split: if_splits prod.splits)

text \<open>\<open>CloseExpression\<close> from a position of the file never raises.  It either reports that
  the expression does not close (the number of lines, and -1), or returns a line of the file
  at or after the given one, and a position on it just behind a closing bracket, which on
  the given line lies behind the given position.\<close>

theorem close_expression_bounds:
  assumes "NumLines clean = length (elided clean)" "n < NumLines clean" "pos < length (elided clean ! n)"
  shows "\<exists>l n' p. CloseExpression clean n pos = Inr (l, n', p) \<and>
    (n' = NumLines clean \<and> p = -1 \<or>
     n \<le> n' \<and> n' < NumLines clean \<and> l = elided clean ! n' \<and> 0 < p \<and> p \<le> int (length l) \<and>
     l ! nat (p - 1) \<in> set '')]}>'' \<and> (n' = n \<longrightarrow> int pos < p))"
proof -
  let ?line = "elided clean ! n"
  obtain q st where f: "FindEndOfExpressionInLine ?line pos [] = (q, st)" by fastforce
  obtain l n' p where c: "close_loop clean n ?line st = (l, n', p)" by (cases "close_loop clean n ?line st")
  show ?thesis
  proof (cases "?line ! pos \<notin> set ''({[<'' \<or> Match ''<[<=]'' (drop pos ?line) \<noteq> None")
    case True
    with assms show ?thesis by (simp add: CloseExpression_def)
  next
    case False
    then have "CloseExpression clean n pos = (if q > -1 then Inr (?line, n, q) else Inr (l, n', p))"
      using assms f c by (auto simp: CloseExpression_def)
    with FindEnd_bounds [OF f] close_loop_bounds [OF c] assms(2) show ?thesis by (cases "q > -1") auto
  qed
qed

theorem close_expression_bounds_witness:
  "\<exists>l n' p. CloseExpression (CleansedLines [''f(a,'', ''  b);'']) 0 1 = Inr (l, n', p) \<and>
    (n' = NumLines (CleansedLines [''f(a,'', ''  b);'']) \<and> p = -1 \<or>
     0 \<le> n' \<and> n' < NumLines (CleansedLines [''f(a,'', ''  b);'']) \<and>
     l = elided (CleansedLines [''f(a,'', ''  b);'']) ! n' \<and> 0 < p \<and> p \<le> int (length l) \<and>
     l ! nat (p - 1) \<in> set '')]}>'' \<and> (n' = 0 \<longrightarrow> int 1 < p))"
proof -
  have "list_all plain_line [''f(a,'', ''  b);'']" by code_simp
  then have "elided (CleansedLines [''f(a,'', ''  b);'']) = [''f(a,'', ''  b);'']" using CleansedLines_plain by blast
  then show ?thesis by (intro close_expression_bounds) simp_all
qed

end
