(* ===== verification/Nesting.thy ===== *)
theory Nesting
  imports Expressions
begin

text \<open>
  The nesting stack of \<open>cpplint.py\<close>: \<open>_BlockInfo\<close> and its subclasses, and class
  \<open>NestingState\<close>, which follows braces, namespaces, classes, inline assembly and the
  branches of preprocessor conditionals from line to line.

  A block object is a record whose \<open>kind\<close> tells the subclass.  The source compares two
  blocks by identity and copies stacks deeply, so each block carries an identity \<open>bid\<close>, and
  a deep copy takes fresh ones.  Stacks have their top at the head.  The source keeps in
  \<open>previous_stack_top\<close> a reference to the former top of the stack; of that object only the
  class and the identity are ever read, and these the recorded copy shares.
\<close>

section \<open>Blocks\<close>

datatype asm_state = NO_ASM | INSIDE_ASM | END_ASM | BLOCK_ASM

record class_data =
  name :: string
  is_derived :: bool
  access :: string
  is_struct :: bool
  class_indent :: nat
  last_line :: nat

datatype block_kind = PlainBlock | ExternCInfo | ClassInfo class_data | NamespaceInfo string

record block_info =
  bid :: nat
  starting_linenum :: nat
  seen_open_brace :: bool
  open_parentheses :: int
  inline_asm :: asm_state
  check_namespace_indentation :: bool
  kind :: block_kind

definition BlockInfo_init :: "nat \<Rightarrow> bool \<Rightarrow> block_info" where
  "BlockInfo_init linenum seen = \<lparr>bid = 0, starting_linenum = linenum, seen_open_brace = seen,
     open_parentheses = 0, inline_asm = NO_ASM, check_namespace_indentation = False, kind = PlainBlock\<rparr>"

definition IsBlockInfo :: "block_info \<Rightarrow> bool" where
  "IsBlockInfo b = (kind b = PlainBlock)"

definition is_class :: "block_info \<Rightarrow> bool" where
  "is_class b = (case kind b of ClassInfo _ \<Rightarrow> True | _ \<Rightarrow> False)"

definition is_namespace :: "block_info \<Rightarrow> bool" where
  "is_namespace b = (case kind b of NamespaceInfo _ \<Rightarrow> True | _ \<Rightarrow> False)"

definition ExternCInfo_init :: "nat \<Rightarrow> block_info" where
  "ExternCInfo_init linenum = (BlockInfo_init linenum True)\<lparr>kind := ExternCInfo\<rparr>"

definition GetIndentLevel :: "string \<Rightarrow> nat" where
  "GetIndentLevel line = (case Match (raw ''^( *)`S'') line of Some indent \<Rightarrow> length (m_grp indent 1) | None \<Rightarrow> 0)"

text \<open>The loop that looks for the end of a class: the first line at which as many braces have
  been closed as opened.\<close>

fun class_last_line :: "(nat \<times> string) list \<Rightarrow> int \<Rightarrow> nat" where
  "class_last_line [] depth = 0"
| "class_last_line ((i, line) # ls) depth =
     (let depth = depth + (int (str_count line ''{'') - int (str_count line ''}'')) in
      if depth = 0 then i else class_last_line ls depth)"

definition ClassInfo_init :: "string \<Rightarrow> string \<Rightarrow> cleansed_lines \<Rightarrow> nat \<Rightarrow> block_info py" where
  "ClassInfo_init class_name class_or_struct clean linenum =
     py_bind (py_index (raw_lines clean) (int linenum)) (\<lambda>line.
       Inr ((BlockInfo_init linenum False)
         \<lparr>check_namespace_indentation := True,
          kind := ClassInfo
            \<lparr>name = class_name, is_derived = False,
             access = (if class_or_struct = ''struct'' then ''public'' else ''private''),
             is_struct = (class_or_struct = ''struct''),
             class_indent = GetIndentLevel line,
             last_line = class_last_line (drop linenum (List.enumerate 0 (take (NumLines clean) (elided clean)))) 0\<rparr>\<rparr>))"

definition NamespaceInfo_init :: "string option \<Rightarrow> nat \<Rightarrow> block_info" where
  "NamespaceInfo_init nm linenum =
     (BlockInfo_init linenum False)\<lparr>check_namespace_indentation := True,
        kind := NamespaceInfo (case nm of None \<Rightarrow> [] | Some n \<Rightarrow> n)\<rparr>"

section \<open>Checks at the beginning and at the end of a block\<close>

definition CheckBegin :: "cleansed_lines \<Rightarrow> nat \<Rightarrow> block_info \<Rightarrow> block_info py" where
  "CheckBegin clean linenum b =
     (case kind b of
        ClassInfo c \<Rightarrow>
          py_bind (py_index (elided clean) (int linenum)) (\<lambda>line.
            Inr (if Search ''(^|[^:]):($|[^:])'' line \<noteq> None
                 then b\<lparr>kind := ClassInfo (c\<lparr>is_derived := True\<rparr>)\<rparr> else b))
      | _ \<Rightarrow> Inr b)"

text \<open>The loop over the lines of a class from the last one back.\<close>

fun check_disallow :: "error_fn \<Rightarrow> string \<Rightarrow> cleansed_lines \<Rightarrow> string \<Rightarrow> nat list \<Rightarrow> bool \<Rightarrow> action" where
  "check_disallow error filename clean nm [] seen_last_thing_in_class st = Inr st"
| "check_disallow error filename clean nm (i # is) seen_last_thing_in_class st =
     py_bind (py_index (elided clean) (int i)) (\<lambda>line.
       case Search (raw ''`b(DISALLOW_COPY_AND_ASSIGN|DISALLOW_IMPLICIT_CONSTRUCTORS)`('' @ nm @ raw ''`)'') line of
         Some matched \<Rightarrow>
           if seen_last_thing_in_class
           then error filename (Some (int i)) ''readability/constructors'' 3
                  (m_grp matched 1 @ '' should be the last thing in the class'') st
           else Inr st
       | None \<Rightarrow>
           check_disallow error filename clean nm is
             (seen_last_thing_in_class \<or> Match (raw ''^`s*$'') line = None) st)"

definition class_parent :: "class_data \<Rightarrow> string" where
  "class_parent c = (if is_struct c then ''struct '' else ''class '') @ name c"

definition class_CheckEnd :: "error_fn \<Rightarrow> string \<Rightarrow> cleansed_lines \<Rightarrow> nat \<Rightarrow> block_info \<Rightarrow> class_data \<Rightarrow> action" where
  "class_CheckEnd error filename clean linenum b c =
     run [check_disallow error filename clean (name c) (rev [starting_linenum b + 1..<linenum]) False,
          (\<lambda>st. py_bind (py_index (elided clean) (int linenum)) (\<lambda>line.
             whenever (case Match (raw ''^( *)`}'') line of Some indent \<Rightarrow> length (m_grp indent 1) \<noteq> class_indent c
                       | None \<Rightarrow> False)
               (error filename (Some (int linenum)) ''whitespace/indent'' 3
                 (''Closing brace should be aligned with beginning of '' @ class_parent c)) st))]"

definition namespace_CheckEnd :: "error_fn \<Rightarrow> string \<Rightarrow> cleansed_lines \<Rightarrow> nat \<Rightarrow> block_info \<Rightarrow> string \<Rightarrow> action" where
  \<open>namespace_CheckEnd error filename clean linenum b nm st =
     py_bind (py_index (raw_lines clean) (int linenum)) (\<lambda>line.
       if int linenum - int (starting_linenum b) < 10 \<and>
          Match (raw ''^`s*};*`s*(//|/`*).*`bnamespace`b'') line = None
       then Inr st
       else if nm \<noteq> [] then
         whenever (Match (raw ''^`s*};*`s*(//|/`*).*`bnamespace`s+'' @ re_escape nm @ raw ''[`*/`.```s]*$'') line = None)
           (error filename (Some (int linenum)) ''readability/namespace'' 5
             (''Namespace should be terminated with "// namespace '' @ nm @ ''"'')) st
       else
         whenever (Match (raw ''^`s*};*`s*(//|/`*).*`bnamespace[`*/`.```s]*$'') line = None)
           (error filename (Some (int linenum)) ''readability/namespace'' 5
             (''Anonymous namespace should be terminated with "// namespace"'' @
              (if Match (raw ''^`s*}.*`b(namespace anonymous|anonymous namespace)`b'') line \<noteq> None
               then '' or "// anonymous namespace"'' else []))) st)\<close>

definition CheckEnd :: "error_fn \<Rightarrow> string \<Rightarrow> cleansed_lines \<Rightarrow> nat \<Rightarrow> block_info \<Rightarrow> action" where
  "CheckEnd error filename clean linenum b =
     (case kind b of
        ClassInfo c \<Rightarrow> class_CheckEnd error filename clean linenum b c
      | NamespaceInfo nm \<Rightarrow> namespace_CheckEnd error filename clean linenum b nm
      | _ \<Rightarrow> Inr)"

section \<open>The nesting state\<close>

record pp_info =
  stack_before_if :: "block_info list"
  stack_before_else :: "block_info list"
  seen_else :: bool

record nesting_state =
  stack :: "block_info list"
  previous_stack_top :: "block_info option"
  pp_stack :: "pp_info list"
  next_id :: nat

definition NestingState_init :: nesting_state where
  "NestingState_init = \<lparr>stack = [], previous_stack_top = None, pp_stack = [], next_id = 0\<rparr>"

definition push_block :: "block_info \<Rightarrow> nesting_state \<Rightarrow> nesting_state" where
  "push_block b ns = ns\<lparr>stack := b\<lparr>bid := next_id ns\<rparr> # stack ns, next_id := next_id ns + 1\<rparr>"

definition pop_block :: "nesting_state \<Rightarrow> nesting_state" where
  "pop_block ns = ns\<lparr>stack := tl (stack ns)\<rparr>"

definition update_top :: "(block_info \<Rightarrow> block_info) \<Rightarrow> nesting_state \<Rightarrow> nesting_state" where
  "update_top f ns = (case stack ns of [] \<Rightarrow> ns | b # bs \<Rightarrow> ns\<lparr>stack := f b # bs\<rparr>)"

text \<open>\<open>copy.deepcopy\<close> of a stack: equal blocks with fresh identities.\<close>

fun deepcopy :: "nat \<Rightarrow> block_info list \<Rightarrow> block_info list" where
  "deepcopy n [] = []"
| "deepcopy n (b # bs) = b\<lparr>bid := n\<rparr> # deepcopy (n + 1) bs"

definition SeenOpenBrace :: "nesting_state \<Rightarrow> bool" where
  "SeenOpenBrace ns = (case stack ns of [] \<Rightarrow> True | b # _ \<Rightarrow> seen_open_brace b)"

definition InNamespaceBody :: "nesting_state \<Rightarrow> bool" where
  "InNamespaceBody ns = (case stack ns of [] \<Rightarrow> False | b # _ \<Rightarrow> is_namespace b)"

definition InExternC :: "nesting_state \<Rightarrow> bool" where
  "InExternC ns = (case stack ns of [] \<Rightarrow> False | b # _ \<Rightarrow> kind b = ExternCInfo)"

definition InClassDeclaration :: "nesting_state \<Rightarrow> bool" where
  "InClassDeclaration ns = (case stack ns of [] \<Rightarrow> False | b # _ \<Rightarrow> is_class b)"

definition InAsmBlock :: "nesting_state \<Rightarrow> bool" where
  "InAsmBlock ns = (case stack ns of [] \<Rightarrow> False | b # _ \<Rightarrow> inline_asm b \<noteq> NO_ASM)"

definition InnermostClass :: "nesting_state \<Rightarrow> block_info option" where
  "InnermostClass ns = List.find is_class (stack ns)"

section \<open>Preprocessor conditionals\<close>

definition PP_IF :: string where
  "PP_IF = raw ''^`s*#`s*(if|ifdef|ifndef)`b''"

definition PP_ELSE :: string where
  "PP_ELSE = raw ''^`s*#`s*(else|elif)`b''"

definition PP_ENDIF :: string where
  "PP_ENDIF = raw ''^`s*#`s*endif`b''"

definition UpdatePreprocessor :: "string \<Rightarrow> nesting_state \<Rightarrow> nesting_state" where
  "UpdatePreprocessor line ns =
     (if Match PP_IF line \<noteq> None then
        ns\<lparr>pp_stack := \<lparr>stack_before_if = deepcopy (next_id ns) (stack ns), stack_before_else = [],
             seen_else = False\<rparr> # pp_stack ns,
           next_id := next_id ns + length (stack ns)\<rparr>
      else if Match PP_ELSE line \<noteq> None then
        (case pp_stack ns of
           [] \<Rightarrow> ns
         | pp # rest \<Rightarrow>
             (let (pp, n) =
                (if \<not> seen_else pp
                 then (pp\<lparr>seen_else := True, stack_before_else := deepcopy (next_id ns) (stack ns)\<rparr>,
                       next_id ns + length (stack ns))
                 else (pp, next_id ns))
              in ns\<lparr>pp_stack := pp # rest, stack := deepcopy n (stack_before_if pp),
                    next_id := n + length (stack_before_if pp)\<rparr>))
      else if Match PP_ENDIF line \<noteq> None then
        (case pp_stack ns of
           [] \<Rightarrow> ns
         | pp # rest \<Rightarrow>
             ns\<lparr>stack := (if seen_else pp then stack_before_else pp else stack ns), pp_stack := rest\<rparr>)
      else ns)"

section \<open>Template argument lists\<close>

definition TEMPLATE_TOKEN :: string where
  "TEMPLATE_TOKEN = raw ''^[^{};=`[`]`.<>]*(.)''"

lemma template_token_progress:
  assumes "Match TEMPLATE_TOKEN s = Some m"
  shows "m_text m \<noteq> [] \<and> s \<noteq> []"
proof -
  have "consumes (re_const TEMPLATE_TOKEN)" by code_simp
  then have "m_text m \<noteq> []" using assms consumes_text by (auto simp: Match_def re_match_def)
  with assms show ?thesis by (auto simp: Match_def re_match_def dest: match_at_text)
qed

text \<open>The loop moves along the line or to a later line; \<open>pos\<close> is at least 1 when
  \<open>CloseExpression\<close> is called.\<close>

function InTemplateArgumentList :: "cleansed_lines \<Rightarrow> nat \<Rightarrow> nat \<Rightarrow> bool py" where
  "InTemplateArgumentList clean linenum pos =
     (if linenum < NumLines clean then
        (let line = elided clean ! linenum in
         case Match TEMPLATE_TOKEN (drop pos line) of
           None \<Rightarrow> InTemplateArgumentList clean (linenum + 1) 0
         | Some matched \<Rightarrow>
             (let token = m_grp matched 1; pos' = pos + length (m_text matched) in
              if token \<in> {''{'', ''}'', '';''} then Inr False
              else if token \<in> {''>'', ''='', ''['', '']'', ''.''} then Inr True
              else if token \<noteq> ''<'' then
                (if pos' + 1 \<ge> length line then InTemplateArgumentList clean (linenum + 1) 0
                 else InTemplateArgumentList clean linenum (pos' + 1))
              else
                (case CloseExpression clean linenum (pos' - 1) of
                   Inl e \<Rightarrow> Inl e
                 | Inr (_, end_line, end_pos) \<Rightarrow>
                     if end_pos < 0 then Inr False
                     else InTemplateArgumentList clean end_line (nat end_pos))))
      else Inr False)"
  by pat_completeness auto
termination
proof (relation "measures [\<lambda>(clean, linenum, pos). NumLines clean - linenum,
    \<lambda>(clean, linenum, pos). length (elided clean ! linenum) - pos]", goal_cases)
  case (4 clean linenum pos line m token pos')
  from template_token_progress [OF 4(3)] have "m_text m \<noteq> []" "pos < length line" by auto
  with 4 show ?case by (auto simp: Let_def)
next
  case (5 clean linenum pos line m token pos' r l q n' p)
  from template_token_progress [OF 5(3)] have m: "m_text m \<noteq> []" "pos < length line" by auto
  from CloseExpression_progress [of clean linenum "pos' - 1" l n' p] 5(9-12)
  have "n' = linenum \<and> int (pos' - 1) < p \<or> linenum < n' \<and> n' < NumLines clean" by auto
  with 5 m show ?case by (cases "m_text m") auto
qed auto

declare InTemplateArgumentList.simps [simp del]

section \<open>Update\<close>

definition MATCH_ASM :: string where
  "MATCH_ASM = raw ''^`s*(?:asm|_asm|__asm|__asm__)(?:`s+(volatile|__volatile__))?`s*[{(]''"

text \<open>Parentheses and inline assembly, on the innermost block.\<close>

definition update_parentheses :: "string \<Rightarrow> block_info \<Rightarrow> block_info" where
  "update_parentheses line b =
     (let depth_change = int (str_count line ''('') - int (str_count line '')'');
          b = b\<lparr>open_parentheses := open_parentheses b + depth_change\<rparr>
      in if inline_asm b \<in> {NO_ASM, END_ASM} then
           (if depth_change \<noteq> 0 \<and> open_parentheses b = 1 \<and> Match MATCH_ASM line \<noteq> None
            then b\<lparr>inline_asm := INSIDE_ASM\<rparr> else b\<lparr>inline_asm := NO_ASM\<rparr>)
         else if inline_asm b = INSIDE_ASM \<and> open_parentheses b = 0
         then b\<lparr>inline_asm := END_ASM\<rparr>
         else b)"

definition NAMESPACE_DECL :: string where
  "NAMESPACE_DECL = raw ''^`s*namespace`b`s*([:`w]+)?(.*)$''"

lemma namespace_decl_shorter: "Match NAMESPACE_DECL line = Some m \<Longrightarrow> length (m_grp m 2) < length line"
proof -
  have "tail_group (re_const NAMESPACE_DECL) 2" by code_simp
  then show "Match NAMESPACE_DECL line = Some m \<Longrightarrow> length (m_grp m 2) < length line"
    unfolding Match_def by (rule tail_group_shorter) simp
qed

function consume_namespaces :: "nat \<Rightarrow> string \<Rightarrow> nesting_state \<Rightarrow> string \<times> nesting_state" where
  "consume_namespaces linenum line ns =
     (case Match NAMESPACE_DECL line of
        None \<Rightarrow> (line, ns)
      | Some m \<Rightarrow>
          (let new_namespace = NamespaceInfo_init (m_group m 1) linenum; line = m_grp m 2 in
           case find_nat ''{'' line of
             Some k \<Rightarrow> consume_namespaces linenum (drop (k + 1) line)
                         (push_block (new_namespace\<lparr>seen_open_brace := True\<rparr>) ns)
           | None \<Rightarrow> consume_namespaces linenum line (push_block new_namespace ns)))"
  by pat_completeness auto
termination
  by (relation "measure (\<lambda>(linenum, line, ns). length line)") (auto dest!: namespace_decl_shorter)

declare consume_namespaces.simps [simp del]

definition CLASS_DECL :: string where
  "CLASS_DECL = raw ''^(`s*(?:template`s*<[`w`s<>,:=]*>`s*)?(class|struct)`s+(?:[A-Z_]+`s+)*(`w+(?:::`w+)*))(.*)$''"

definition declare_class :: "cleansed_lines \<Rightarrow> nat \<Rightarrow> string \<Rightarrow> nesting_state \<Rightarrow> (string \<times> nesting_state) py" where
  "declare_class clean linenum line ns =
     (case Match CLASS_DECL line of
        Some m \<Rightarrow>
          if stack ns = [] \<or> open_parentheses (hd (stack ns)) = 0 then
            py_bind (InTemplateArgumentList clean linenum (length (m_grp m 1))) (\<lambda>in_template.
              if in_template then Inr (line, ns)
              else py_bind (ClassInfo_init (m_grp m 3) (m_grp m 2) clean linenum) (\<lambda>b.
                     Inr (m_grp m 4, push_block b ns)))
          else Inr (line, ns)
      | None \<Rightarrow> Inr (line, ns))"

definition check_begin_top :: "cleansed_lines \<Rightarrow> nat \<Rightarrow> nesting_state \<Rightarrow> nesting_state py" where
  "check_begin_top clean linenum ns =
     (if \<not> SeenOpenBrace ns
      then py_bind (CheckBegin clean linenum (hd (stack ns))) (\<lambda>b. Inr (update_top (\<lambda>_. b) ns))
      else Inr ns)"

definition ACCESS_KEYWORD :: string where
  "ACCESS_KEYWORD = raw ''^(.*)`b(public|private|protected|signals)(`s+(?:slots`s*)?)?:(?:[^:]|$)''"

definition update_access :: "error_fn \<Rightarrow> string \<Rightarrow> nat \<Rightarrow> string \<Rightarrow> nesting_state \<Rightarrow> lint \<Rightarrow> (nesting_state \<times> lint) py" where
  "update_access error filename linenum line ns st =
     (case stack ns of
        [] \<Rightarrow> Inr (ns, st)
      | b # _ \<Rightarrow>
          (case kind b of
             ClassInfo c \<Rightarrow>
               (case Match ACCESS_KEYWORD line of
                  None \<Rightarrow> Inr (ns, st)
                | Some m \<Rightarrow>
                    (let ns = update_top (\<lambda>b. b\<lparr>kind := ClassInfo (c\<lparr>access := m_grp m 2\<rparr>)\<rparr>) ns;
                         indent = m_grp m 1
                     in py_bind
                          (whenever (length indent \<noteq> class_indent c + 1 \<and> Match (raw ''^`s*$'') indent \<noteq> None)
                             (error filename (Some (int linenum)) ''whitespace/indent'' 3
                               (m_grp m 2 @ m_grp m 3 @ '': should be indented +1 space inside '' @ class_parent c)) st)
                          (\<lambda>st. Inr (ns, st))))
           | _ \<Rightarrow> Inr (ns, st)))"

definition NEXT_BRACE :: string where
  "NEXT_BRACE = raw ''^[^{;)}]*([{;)}])(.*)$''"

definition EXTERN_C :: string where
  \<open>EXTERN_C = raw ''^extern`s*"[^"]*"`s*`{''\<close>

lemma next_brace_shorter: "Match NEXT_BRACE line = Some m \<Longrightarrow> length (m_grp m 2) < length line"
proof -
  have "tail_group (re_const NEXT_BRACE) 2" by code_simp
  then show "Match NEXT_BRACE line = Some m \<Longrightarrow> length (m_grp m 2) < length line"
    unfolding Match_def by (rule tail_group_shorter) simp
qed

text \<open>What one brace, semicolon or closing parenthesis does to the stack.\<close>

definition brace_step :: "error_fn \<Rightarrow> string \<Rightarrow> cleansed_lines \<Rightarrow> nat \<Rightarrow> string \<Rightarrow> string \<Rightarrow>
    nesting_state \<Rightarrow> lint \<Rightarrow> (nesting_state \<times> lint) py" where
  "brace_step error filename clean linenum line token ns st =
     (if token = ''{'' then
        Inr (if \<not> SeenOpenBrace ns then update_top (\<lambda>b. b\<lparr>seen_open_brace := True\<rparr>) ns
             else if Match EXTERN_C line \<noteq> None then push_block (ExternCInfo_init linenum) ns
             else push_block ((BlockInfo_init linenum True)
                    \<lparr>inline_asm := (if Match MATCH_ASM line \<noteq> None then BLOCK_ASM else NO_ASM)\<rparr>) ns, st)
      else if token = '';'' \<or> token = '')'' then
        Inr (if \<not> SeenOpenBrace ns then pop_block ns else ns, st)
      else
        (case stack ns of
           [] \<Rightarrow> Inr (ns, st)
         | b # _ \<Rightarrow> py_bind (CheckEnd error filename clean linenum b st) (\<lambda>st. Inr (pop_block ns, st))))"

function consume_braces :: "error_fn \<Rightarrow> string \<Rightarrow> cleansed_lines \<Rightarrow> nat \<Rightarrow> string \<Rightarrow>
    nesting_state \<Rightarrow> lint \<Rightarrow> (nesting_state \<times> lint) py" where
  "consume_braces error filename clean linenum line ns st =
     (case Match NEXT_BRACE line of
        None \<Rightarrow> Inr (ns, st)
      | Some m \<Rightarrow>
          (case brace_step error filename clean linenum line (m_grp m 1) ns st of
             Inl e \<Rightarrow> Inl e
           | Inr (ns, st) \<Rightarrow> consume_braces error filename clean linenum (m_grp m 2) ns st))"
  by pat_completeness auto
termination
  by (relation "measure (\<lambda>(error, filename, clean, linenum, line, ns, st). length line)")
    (auto dest!: next_brace_shorter)

declare consume_braces.simps [simp del]

definition Update :: "error_fn \<Rightarrow> string \<Rightarrow> cleansed_lines \<Rightarrow> nat \<Rightarrow> nesting_state \<Rightarrow> lint \<Rightarrow> (nesting_state \<times> lint) py" where
  "Update error filename clean linenum ns st =
     py_bind (py_index (elided clean) (int linenum)) (\<lambda>line.
       let ns = ns\<lparr>previous_stack_top := head_opt (stack ns)\<rparr>;
           ns = UpdatePreprocessor line ns;
           ns = update_top (update_parentheses line) ns
       in case consume_namespaces linenum line ns of (line, ns) \<Rightarrow>
         py_bind (declare_class clean linenum line ns) (\<lambda>(line, ns).
         py_bind (check_begin_top clean linenum ns) (\<lambda>ns.
         py_bind (update_access error filename linenum line ns st) (\<lambda>(ns, st).
           consume_braces error filename clean linenum line ns st))))"

text \<open>The stack is walked from its bottom.\<close>

definition CheckCompletedBlocks :: "error_fn \<Rightarrow> string \<Rightarrow> nesting_state \<Rightarrow> action" where
  "CheckCompletedBlocks error filename ns =
     for_each (rev (stack ns)) (\<lambda>b.
       case kind b of
         ClassInfo c \<Rightarrow> error filename (Some (int (starting_linenum b))) ''build/class'' 5
           (''Failed to find complete declaration of class '' @ name c)
       | NamespaceInfo nm \<Rightarrow> error filename (Some (int (starting_linenum b))) ''build/namespaces'' 5
           (''Failed to find complete declaration of namespace '' @ nm)
       | _ \<Rightarrow> Inr)"

section \<open>The invariant\<close>

text \<open>The cleansed lines of a file: all lists as long as the file.\<close>

definition lines_ok :: "cleansed_lines \<Rightarrow> bool" where
  "lines_ok clean = (NumLines clean = length (elided clean) \<and> NumLines clean = length (raw_lines clean))"

lemma lines_ok_CleansedLines: "lines_ok (CleansedLines ls)"
  by (simp add: lines_ok_def) (simp add: CleansedLines_def Let_def)

definition stack_ok :: "nat \<Rightarrow> nat \<Rightarrow> block_info list \<Rightarrow> bool" where
  "stack_ok n k bs = (distinct (map bid bs) \<and> list_all (\<lambda>b. bid b < k \<and> starting_linenum b < n) bs)"

definition nesting_ok :: "nat \<Rightarrow> nesting_state \<Rightarrow> bool" where
  "nesting_ok n ns =
     (stack_ok n (next_id ns) (stack ns) \<and>
      list_all (\<lambda>pp. stack_ok n (next_id ns) (stack_before_if pp) \<and> stack_ok n (next_id ns) (stack_before_else pp))
        (pp_stack ns))"

lemma stack_ok_mono: "stack_ok n k bs \<Longrightarrow> n \<le> n' \<Longrightarrow> k \<le> k' \<Longrightarrow> stack_ok n' k' bs"
  by (auto simp: stack_ok_def list_all_iff)

lemma stack_ok_simps [simp]:
  "stack_ok n k []" "stack_ok n k (b # bs) \<Longrightarrow> stack_ok n k bs"
  by (auto simp: stack_ok_def)

lemma nesting_ok_mono: "nesting_ok n ns \<Longrightarrow> n \<le> n' \<Longrightarrow> nesting_ok n' ns"
  by (auto simp: nesting_ok_def list_all_iff intro: stack_ok_mono)

lemma deepcopy_bids: "map bid (deepcopy n bs) = [n..<n + length bs]"
  by (induction bs arbitrary: n) (simp_all add: upt_conv_Cons del: upt_Suc)

lemma deepcopy_starts: "map starting_linenum (deepcopy n bs) = map starting_linenum bs"
  by (induction bs arbitrary: n) auto

lemma list_all_map_eq: "map f xs = map f ys \<Longrightarrow> list_all (\<lambda>x. P (f x)) xs = list_all (\<lambda>x. P (f x)) ys"
  by (metis (mono_tags, lifting) list.pred_map comp_apply list.pred_cong)

lemma stack_ok_deepcopy:
  assumes "stack_ok n k' bs" "k + length bs \<le> k''"
  shows "stack_ok n k'' (deepcopy k bs)"
proof -
  have "list_all (\<lambda>b. starting_linenum b < n) (deepcopy k bs)"
    using assms(1) list_all_map_eq [OF deepcopy_starts, of "\<lambda>x. x < n" k bs] by (auto simp: stack_ok_def list_all_iff)
  moreover have "list_all (\<lambda>b. bid b < k'') (deepcopy k bs)"
    unfolding list_all_iff
  proof
    fix b assume "b \<in> set (deepcopy k bs)"
    then have "bid b \<in> set (map bid (deepcopy k bs))" by simp
    with assms(2) show "bid b < k''" unfolding deepcopy_bids by auto
  qed
  ultimately show ?thesis by (auto simp: stack_ok_def deepcopy_bids list_all_iff)
qed

lemma UpdatePreprocessor_if:
  "Match PP_IF line \<noteq> None \<Longrightarrow> UpdatePreprocessor line ns =
     ns\<lparr>pp_stack := \<lparr>stack_before_if = deepcopy (next_id ns) (stack ns), stack_before_else = [], seen_else = False\<rparr> # pp_stack ns,
        next_id := next_id ns + length (stack ns)\<rparr>"
  by (simp add: UpdatePreprocessor_def)

lemma UpdatePreprocessor_else:
  assumes "Match PP_IF line = None" "Match PP_ELSE line \<noteq> None" "pp_stack ns = pp # rest"
  shows "\<not> seen_else pp \<Longrightarrow> UpdatePreprocessor line ns =
      ns\<lparr>pp_stack := pp\<lparr>seen_else := True, stack_before_else := deepcopy (next_id ns) (stack ns)\<rparr> # rest,
         stack := deepcopy (next_id ns + length (stack ns)) (stack_before_if pp),
         next_id := next_id ns + length (stack ns) + length (stack_before_if pp)\<rparr>"
    and "seen_else pp \<Longrightarrow> UpdatePreprocessor line ns =
      ns\<lparr>stack := deepcopy (next_id ns) (stack_before_if pp), next_id := next_id ns + length (stack_before_if pp)\<rparr>"
  using assms by (simp_all add: UpdatePreprocessor_def)

lemma UpdatePreprocessor_endif:
  "Match PP_IF line = None \<Longrightarrow> Match PP_ELSE line = None \<Longrightarrow> Match PP_ENDIF line \<noteq> None \<Longrightarrow> pp_stack ns = pp # rest \<Longrightarrow>
   UpdatePreprocessor line ns =
     ns\<lparr>stack := (if seen_else pp then stack_before_else pp else stack ns), pp_stack := rest\<rparr>"
  by (simp add: UpdatePreprocessor_def)

lemma nesting_ok_pp:
  assumes "nesting_ok n ns" "next_id ns \<le> k"
  shows "list_all (\<lambda>pp. stack_ok n k (stack_before_if pp) \<and> stack_ok n k (stack_before_else pp)) (pp_stack ns)"
  using assms by (auto simp: nesting_ok_def list_all_iff intro: stack_ok_mono)

lemma UpdatePreprocessor_else_ok:
  assumes ok: "nesting_ok n ns" and m: "Match PP_IF line = None" "Match PP_ELSE line \<noteq> None"
    and st: "pp_stack ns = pp # rest"
  shows "nesting_ok n (UpdatePreprocessor line ns)"
proof -
  let ?k = "next_id ns + length (stack ns) + length (stack_before_if pp)"
  let ?k' = "next_id ns + length (stack_before_if pp)"
  have s: "stack_ok n (next_id ns) (stack ns)" using ok by (simp add: nesting_ok_def)
  have b: "stack_ok n (next_id ns) (stack_before_if pp)" using nesting_ok_pp [OF ok, of "next_id ns"] st by simp
  show ?thesis
  proof (cases "seen_else pp")
    case True
    from nesting_ok_pp [OF ok, of ?k'] stack_ok_deepcopy [OF b, of "next_id ns" ?k'] show ?thesis
      unfolding UpdatePreprocessor_else(2) [OF m st True] by (simp add: nesting_ok_def)
  next
    case False
    from nesting_ok_pp [OF ok, of ?k] stack_ok_deepcopy [OF b, of "next_id ns + length (stack ns)" ?k]
      stack_ok_deepcopy [OF s, of "next_id ns" ?k] st show ?thesis
      unfolding UpdatePreprocessor_else(1) [OF m st False] by (simp add: nesting_ok_def)
  qed
qed

lemma UpdatePreprocessor_ok:
  assumes ok: "nesting_ok n ns"
  shows "nesting_ok n (UpdatePreprocessor line ns)"
proof -
  have s: "stack_ok n (next_id ns) (stack ns)" using ok by (simp add: nesting_ok_def)
  consider "Match PP_IF line \<noteq> None" | "Match PP_IF line = None" "Match PP_ELSE line \<noteq> None"
    | "Match PP_IF line = None" "Match PP_ELSE line = None" "Match PP_ENDIF line \<noteq> None"
    | "Match PP_IF line = None" "Match PP_ELSE line = None" "Match PP_ENDIF line = None" by blast
  then show ?thesis
  proof cases
    case 1
    with nesting_ok_pp [OF ok, of "next_id ns + length (stack ns)"] stack_ok_mono [OF s] stack_ok_deepcopy [OF s] show ?thesis
      by (simp add: UpdatePreprocessor_def nesting_ok_def)
  next
    case 2
    with ok UpdatePreprocessor_else_ok [OF ok 2] show ?thesis
      by (cases "pp_stack ns") (simp_all add: UpdatePreprocessor_def)
  next
    case 3
    with ok nesting_ok_pp [OF ok, of "next_id ns"] s show ?thesis
      by (cases "pp_stack ns") (auto simp: UpdatePreprocessor_def nesting_ok_def)
  next
    case 4
    with ok show ?thesis by (simp add: UpdatePreprocessor_def)
  qed
qed

lemma push_block_ok:
  assumes "nesting_ok n ns" "starting_linenum b < n"
  shows "nesting_ok n (push_block b ns)"
proof -
  have "list_all (\<lambda>pp. stack_ok n (next_id ns + 1) (stack_before_if pp) \<and> stack_ok n (next_id ns + 1) (stack_before_else pp)) (pp_stack ns)"
    using assms(1) by (auto simp: nesting_ok_def list_all_iff intro: stack_ok_mono)
  moreover have "stack_ok n (next_id ns + 1) (b\<lparr>bid := next_id ns\<rparr> # stack ns)"
    using assms by (force simp: nesting_ok_def stack_ok_def list_all_iff)
  ultimately show ?thesis by (simp add: nesting_ok_def push_block_def)
qed

lemma pop_block_ok: "nesting_ok n ns \<Longrightarrow> nesting_ok n (pop_block ns)"
  by (cases "stack ns") (auto simp: nesting_ok_def pop_block_def stack_ok_def)

lemma update_top_ok:
  assumes "nesting_ok n ns" "\<And>b. bid (f b) = bid b \<and> starting_linenum (f b) = starting_linenum b"
  shows "nesting_ok n (update_top f ns)"
  using assms by (cases "stack ns") (auto simp: nesting_ok_def update_top_def stack_ok_def)

lemmas nesting_ok_intros = push_block_ok pop_block_ok update_top_ok UpdatePreprocessor_ok

lemma update_parentheses_frame:
  "bid (update_parentheses line b) = bid b \<and> starting_linenum (update_parentheses line b) = starting_linenum b"
  by (simp add: update_parentheses_def Let_def)

lemma consume_namespaces_ok:
  "nesting_ok n ns \<Longrightarrow> linenum < n \<Longrightarrow> nesting_ok n (snd (consume_namespaces linenum line ns))"
proof (induction linenum line ns rule: consume_namespaces.induct)
  case (1 linenum line ns)
  have st: "starting_linenum ((NamespaceInfo_init x linenum)\<lparr>seen_open_brace := b\<rparr>) = linenum"
    "starting_linenum (NamespaceInfo_init x linenum) = linenum" for x b
    by (simp_all add: NamespaceInfo_init_def BlockInfo_init_def)
  show ?case
  proof (cases "Match NAMESPACE_DECL line")
    case None
    with 1(3) show ?thesis by (subst consume_namespaces.simps) simp
  next
    case (Some m)
    show ?thesis
    proof (cases "find_nat ''{'' (m_grp m 2)")
      case None
      have "nesting_ok n (push_block (NamespaceInfo_init (m_group m 1) linenum) ns)"
        using 1(3,4) by (intro push_block_ok) (simp_all add: st)
      from 1(1) [OF Some refl refl None this 1(4)] Some None show ?thesis
        by (subst consume_namespaces.simps) simp
    next
      case s: (Some k)
      have "nesting_ok n (push_block ((NamespaceInfo_init (m_group m 1) linenum)\<lparr>seen_open_brace := True\<rparr>) ns)"
        using 1(3,4) by (intro push_block_ok) (simp_all add: st)
      from 1(2) [OF Some refl refl s this 1(4)] Some s show ?thesis
        by (subst consume_namespaces.simps) simp
    qed
  qed
qed


section \<open>No exception inside the file\<close>

lemma CloseExpression_returns:
  assumes "lines_ok clean" "n < NumLines clean" "pos < length (elided clean ! n)"
  shows "\<exists>r. CloseExpression clean n pos = Inr r"
  using assms by (auto simp: CloseExpression_def lines_ok_def simp del: split_paired_Ex split: prod.split)

lemma returns_rules:
  "(b \<Longrightarrow> \<exists>v. x = Inr v) \<Longrightarrow> (\<not> b \<Longrightarrow> \<exists>v. y = Inr v) \<Longrightarrow> \<exists>v. (if b then x else y) = Inr v"
  "(m = None \<Longrightarrow> \<exists>v. x = Inr v) \<Longrightarrow> (\<And>a. m = Some a \<Longrightarrow> \<exists>v. f a = Inr v) \<Longrightarrow>
   \<exists>v. (case m of None \<Rightarrow> x | Some a \<Rightarrow> f a) = Inr v"
  "\<exists>v. Inr c = Inr v"
  by (auto split: option.split)

lemma template_token_within:
  assumes "Match TEMPLATE_TOKEN (drop pos line) = Some m"
  shows "pos + length (m_text m) - 1 < length line"
proof -
  have m: "m_text m \<noteq> []" "prefix (m_text m) (drop pos line)"
    using template_token_progress [OF assms] assms by (auto simp: Match_def re_match_def dest: match_at_text)
  from m(2) have "length (m_text m) \<le> length (drop pos line)" by (rule prefix_length_le)
  with m(1) show ?thesis by (cases "m_text m") auto
qed

lemma InTemplateArgumentList_returns:
  "lines_ok clean \<Longrightarrow> \<exists>b. InTemplateArgumentList clean linenum pos = Inr b"
proof (induction clean linenum pos rule: InTemplateArgumentList.induct)
  case (1 clean linenum pos)
  show ?case
  proof (subst InTemplateArgumentList.simps, unfold Let_def, intro returns_rules)
    fix m :: match_obj
    let ?p = "pos + length (m_text m)" and ?line = "elided clean ! linenum"
    assume m: "linenum < NumLines clean" "Match TEMPLATE_TOKEN (drop pos ?line) = Some m"
      "m_grp m 1 \<notin> {''{'', ''}'', '';''}" "m_grp m 1 \<notin> {''>'', ''='', ''['', '']'', ''.''}"
    note ctx = m(1) refl m(2) refl refl m(3,4)
    from 1(2) [OF ctx _ _ "1.prems"] show "m_grp m 1 \<noteq> ''<'' \<Longrightarrow> length ?line \<le> ?p + 1 \<Longrightarrow>
        \<exists>b. InTemplateArgumentList clean (linenum + 1) 0 = Inr b" .
    from 1(3) [OF ctx _ _ "1.prems"] show "m_grp m 1 \<noteq> ''<'' \<Longrightarrow> \<not> length ?line \<le> ?p + 1 \<Longrightarrow>
        \<exists>b. InTemplateArgumentList clean linenum (?p + 1) = Inr b" .
    assume angle: "\<not> m_grp m 1 \<noteq> ''<''"
    from CloseExpression_returns [OF "1.prems" m(1) template_token_within [OF m(2)]] obtain l n' q
      where c: "CloseExpression clean linenum (?p - 1) = Inr (l, n', q)" by auto
    from 1(4) [OF ctx angle c refl refl _ "1.prems"]
    show "\<exists>b. (case CloseExpression clean linenum (?p - 1) of Inl e \<Rightarrow> Inl e
        | Inr (_, end_line, end_pos) \<Rightarrow> if end_pos < 0 then Inr False else InTemplateArgumentList clean end_line (nat end_pos)) = Inr b"
      unfolding c sum.case prod.case by (intro returns_rules)
  qed (rule 1(1) [OF _ refl _ "1.prems"])
qed

lemma declare_class_ok:
  assumes "lines_ok clean" "linenum < NumLines clean" "nesting_ok (linenum + 1) ns"
  shows "\<exists>line' ns'. declare_class clean linenum line ns = Inr (line', ns') \<and> nesting_ok (linenum + 1) ns'"
proof -
  have b: "\<exists>b. ClassInfo_init nm k clean linenum = Inr b \<and> starting_linenum b = linenum" for nm k
    using assms(1,2) by (simp add: ClassInfo_init_def lines_ok_def BlockInfo_init_def)
  show ?thesis
  proof (cases "Match CLASS_DECL line")
    case None
    with assms(3) show ?thesis by (simp add: declare_class_def)
  next
    case (Some m)
    from InTemplateArgumentList_returns [OF assms(1)] obtain t where
      t: "InTemplateArgumentList clean linenum (length (m_grp m 1)) = Inr t" by blast
    from b obtain c where c: "ClassInfo_init (m_grp m 3) (m_grp m 2) clean linenum = Inr c" "starting_linenum c = linenum"
      by blast
    have "nesting_ok (linenum + 1) (push_block c ns)" using assms(3) c(2) by (intro push_block_ok) simp_all
    with Some t c(1) assms(3) show ?thesis by (simp add: declare_class_def)
  qed
qed

lemma check_begin_top_ok:
  assumes "lines_ok clean" "linenum < NumLines clean" "nesting_ok n ns"
  shows "\<exists>ns'. check_begin_top clean linenum ns = Inr ns' \<and> nesting_ok n ns'"
proof (cases "SeenOpenBrace ns")
  case True
  with assms(3) show ?thesis by (simp add: check_begin_top_def)
next
  case False
  then obtain b bs where s: "stack ns = b # bs" by (cases "stack ns") (auto simp: SeenOpenBrace_def)
  have "\<exists>b'. CheckBegin clean linenum b = Inr b' \<and> bid b' = bid b \<and> starting_linenum b' = starting_linenum b"
    using assms(1,2) by (auto simp: CheckBegin_def lines_ok_def split: block_kind.split)
  then obtain b' where b': "CheckBegin clean linenum b = Inr b'" "bid b' = bid b" "starting_linenum b' = starting_linenum b"
    by blast
  have "nesting_ok n (update_top (\<lambda>_. b') ns)"
    using assms(3) s b'(2,3) by (auto simp: nesting_ok_def update_top_def stack_ok_def)
  with False s b'(1) show ?thesis by (simp add: check_begin_top_def)
qed

context reporter
begin

lemma check_disallow_safe:
  "list_all (\<lambda>i. i < length (elided clean)) is \<Longrightarrow> safe Inv (check_disallow error filename clean nm is seen)"
proof (induction "is" arbitrary: seen)
  case Nil
  then show ?case by (auto simp: safe_def)
next
  case (Cons i "is")
  have cat: "''readability/constructors'' \<in> set ERROR_CATEGORIES" by (simp add: ERROR_CATEGORIES_def)
  show ?case
    unfolding safe_def check_disallow.simps
    using Cons safeD [OF Cons.IH] safeD [OF report_safe [OF cat]]
    by (auto split: option.split)
qed

lemma class_CheckEnd_safe:
  assumes "lines_ok clean" "linenum < NumLines clean"
  shows "safe Inv (class_CheckEnd error filename clean linenum b c)"
proof -
  have "safe Inv (check_disallow error filename clean (name c) (rev [starting_linenum b + 1..<linenum]) False)"
    using assms by (intro check_disallow_safe) (auto simp: list_all_iff lines_ok_def)
  moreover have "safe Inv (error filename (Some (int linenum)) ''whitespace/indent'' 3 msg)" for msg
    by (rule report_safe) (simp_all add: ERROR_CATEGORIES_def)
  ultimately show ?thesis
    using assms unfolding class_CheckEnd_def
    by (intro run_safe) (auto simp: lines_ok_def intro!: whenever_safe)
qed

lemma namespace_CheckEnd_safe:
  assumes "lines_ok clean" "linenum < NumLines clean"
  shows "safe Inv (namespace_CheckEnd error filename clean linenum b nm)"
proof -
  have e: "safe Inv (error filename (Some (int linenum)) ''readability/namespace'' 5 msg)" for msg
    by (rule report_safe) (simp_all add: ERROR_CATEGORIES_def)
  have i: "py_index (raw_lines clean) (int linenum) = Inr (raw_lines clean ! linenum)"
    using assms by (simp add: lines_ok_def)
  show ?thesis
    unfolding safe_def namespace_CheckEnd_def i py_bind.simps
    using safeD [OF whenever_safe [OF e]] by auto
qed

lemma CheckEnd_safe:
  assumes "lines_ok clean" "linenum < NumLines clean"
  shows "safe Inv (CheckEnd error filename clean linenum b)"
  using class_CheckEnd_safe [OF assms] namespace_CheckEnd_safe [OF assms]
  by (auto simp: CheckEnd_def safe_def split: block_kind.split)

lemma update_access_ok:
  assumes "nesting_ok n ns" "Inv st"
  shows "\<exists>ns' st'. update_access error filename linenum line ns st = Inr (ns', st') \<and> nesting_ok n ns' \<and> Inv st'"
proof -
  have e: "safe Inv (error filename (Some (int linenum)) ''whitespace/indent'' 3 msg)" for msg
    by (rule report_safe) (simp_all add: ERROR_CATEGORIES_def)
  have w: "\<exists>st'. whenever b (error filename (Some (int linenum)) ''whitespace/indent'' 3 msg) st = Inr st' \<and> Inv st'" for b msg
    using safeD [OF whenever_safe [OF e] assms(2)] by blast
  have u: "nesting_ok n (update_top (\<lambda>b. b\<lparr>kind := k\<rparr>) ns)" for k
    using assms(1) by (intro update_top_ok) simp_all
  show ?thesis
    using assms u w by (auto simp: update_access_def Let_def py_bind_Inr_iff split: list.split block_kind.split option.split)
qed

lemma brace_step_ok:
  assumes "lines_ok clean" "linenum < NumLines clean" "nesting_ok (linenum + 1) ns" "Inv st"
  shows "\<exists>ns' st'. brace_step error filename clean linenum line token ns st = Inr (ns', st') \<and>
    nesting_ok (linenum + 1) ns' \<and> Inv st'"
proof -
  have "nesting_ok (linenum + 1) (push_block b ns)" if "starting_linenum b = linenum" for b
    using that assms(3) by (intro push_block_ok) simp_all
  moreover have "\<exists>st'. CheckEnd error filename clean linenum b st = Inr st' \<and> Inv st'" for b
    using safeD [OF CheckEnd_safe [OF assms(1,2)] assms(4)] by blast
  ultimately show ?thesis
    using assms(3,4) by (auto simp: brace_step_def ExternCInfo_init_def BlockInfo_init_def py_bind_Inr_iff
        intro!: pop_block_ok update_top_ok split: list.split)
qed

lemma consume_braces_ok:
  assumes "lines_ok clean" "linenum < NumLines clean"
  shows "nesting_ok (linenum + 1) ns \<Longrightarrow> Inv st \<Longrightarrow>
    \<exists>ns' st'. consume_braces error filename clean linenum line ns st = Inr (ns', st') \<and>
      nesting_ok (linenum + 1) ns' \<and> Inv st'"
proof (induction "length line" arbitrary: line ns st rule: less_induct)
  case less
  show ?case
  proof (cases "Match NEXT_BRACE line")
    case None
    with less.prems show ?thesis by (subst consume_braces.simps) simp
  next
    case (Some m)
    from brace_step_ok [OF assms less.prems] obtain ns1 st1 where
      1: "brace_step error filename clean linenum line (m_grp m 1) ns st = Inr (ns1, st1)"
      "nesting_ok (linenum + 1) ns1" "Inv st1" by blast
    from less.hyps [OF next_brace_shorter [OF Some] 1(2,3)] show ?thesis
      by (subst consume_braces.simps) (simp add: Some 1(1) [simplified])
  qed
qed

lemma Update_ok:
  assumes "lines_ok clean" "linenum < NumLines clean" "nesting_ok linenum ns" "Inv st"
  shows "\<exists>ns' st'. Update error filename clean linenum ns st = Inr (ns', st') \<and>
    nesting_ok (linenum + 1) ns' \<and> Inv st'"
proof -
  let ?line = "elided clean ! linenum"
  let ?ns = "update_top (update_parentheses ?line) (UpdatePreprocessor ?line (ns\<lparr>previous_stack_top := head_opt (stack ns)\<rparr>))"
  have "nesting_ok (linenum + 1) (ns\<lparr>previous_stack_top := head_opt (stack ns)\<rparr>)"
    using nesting_ok_mono [OF assms(3), of "linenum + 1"] by (simp add: nesting_ok_def)
  then have "nesting_ok (linenum + 1) ?ns"
    by (intro update_top_ok UpdatePreprocessor_ok update_parentheses_frame)
  then have "nesting_ok (linenum + 1) (snd (consume_namespaces linenum ?line ?ns))"
    by (rule consume_namespaces_ok) simp
  then obtain line1 ns1 where 1: "consume_namespaces linenum ?line ?ns = (line1, ns1)" "nesting_ok (linenum + 1) ns1"
    by (metis prod.collapse)
  from declare_class_ok [OF assms(1,2) 1(2)] obtain line2 ns2 where
    2: "declare_class clean linenum line1 ns1 = Inr (line2, ns2)" "nesting_ok (linenum + 1) ns2" by blast
  from check_begin_top_ok [OF assms(1,2) 2(2)] obtain ns3 where
    3: "check_begin_top clean linenum ns2 = Inr ns3" "nesting_ok (linenum + 1) ns3" by blast
  from update_access_ok [OF 3(2) assms(4)] obtain ns4 st4 where
    4: "update_access error filename linenum line2 ns3 st = Inr (ns4, st4)" "nesting_ok (linenum + 1) ns4" "Inv st4" by blast
  from consume_braces_ok [OF assms(1,2) 4(2,3)] show ?thesis
    using assms(1,2) 1(1) 2(1) 3(1) 4(1) by (simp add: Update_def lines_ok_def Let_def)
qed

end


section \<open>Braces as a counter\<close>

text \<open>The depth of nested braces behind a text, where a closing brace at depth 0 is ignored.\<close>

fun brace_depth :: "nat \<Rightarrow> string \<Rightarrow> nat" where
  "brace_depth d [] = d"
| "brace_depth d (c # cs) =
     brace_depth (if c = CHR ''{'' then d + 1 else if c = CHR ''}'' then d - 1 else d) cs"

lemma brace_depth_append: "brace_depth d (u @ v) = brace_depth (brace_depth d u) v"
  by (induction u arbitrary: d) auto

lemma brace_depth_none: "CHR ''{'' \<notin> set u \<Longrightarrow> CHR ''}'' \<notin> set u \<Longrightarrow> brace_depth d u = d"
  by (induction u arbitrary: d) auto

lemma next_brace_re:
  "re_const NEXT_BRACE = RSeq (RBol False) (RSeq (RCStar True
      (CSet True [CChr CHR ''{'', CChr CHR '';'', CChr CHR '')'', CChr CHR ''}'']))
     (RSeq (RGroup 1 (RChr (CSet False [CChr CHR ''{'', CChr CHR '';'', CChr CHR '')'', CChr CHR ''}''])))
     (RSeq (RGroup 2 (RCStar True (CSet True [CChr newline]))) (REol False))))"
  by code_simp

lemma next_brace_Some:
  assumes "Match NEXT_BRACE line = Some m" "newline \<notin> set line"
  obtains h c where "line = h @ [c] @ m_grp m 2" "m_grp m 1 = [c]" "c \<in> set ''{;)}''"
    "\<forall>x \<in> set h. x \<notin> set ''{;)}''"
proof -
  from assms(1) have "re_match (re_const NEXT_BRACE) line = Some m" by (simp add: Match_def)
  then obtain p' s' where "mcap (re_const NEXT_BRACE) None line [] p' s' (m_caps m)" by (rule re_match_caps)
  then obtain h c u where d: "line = h @ c # u @ s'"
      "list_all (cmatch (CSet True [CChr CHR ''{'', CChr CHR '';'', CChr CHR '')'', CChr CHR ''}''])) h"
      "cmatch (CSet False [CChr CHR ''{'', CChr CHR '';'', CChr CHR '')'', CChr CHR ''}'']) c"
      "m_caps m = [(2, u), (1, [c])]" "at_eol False s'"
    unfolding next_brace_re mcap.simps cstar_to_iff by force
  have "s' = []" using d(1,5) assms(2) by (auto simp: at_eol_def)
  then show thesis
    using d by (intro that [of h c]) (auto simp: m_grp_def m_group_def list_all_iff)
qed

lemma next_brace_None:
  assumes "Match NEXT_BRACE line = None" "newline \<notin> set line"
  shows "\<forall>x \<in> set line. x \<notin> set ''{;)}''"
proof (rule ccontr)
  let ?P = "\<lambda>x. x \<notin> set ''{;)}''"
  assume "\<not> (\<forall>x \<in> set line. ?P x)"
  then have "dropWhile ?P line \<noteq> []" by (simp add: dropWhile_eq_Nil_conv)
  then obtain c u where u: "dropWhile ?P line = c # u" by (cases "dropWhile ?P line") auto
  then have c: "\<not> ?P c" using hd_dropWhile [of ?P line] by simp
  have line: "line = takeWhile ?P line @ c # u" by (metis u takeWhile_dropWhile_id)
  have "newline \<notin> set u" using assms(2) by (subst (asm) line) simp
  have "matches (re_const NEXT_BRACE) None line (if u = [] then Some c else Some (last u)) []"
    unfolding next_brace_re matches.simps
  proof (intro exI conjI)
    show "cstar_to (CSet True [CChr CHR ''{'', CChr CHR '';'', CChr CHR '')'', CChr CHR ''}'']) None line
        (if takeWhile ?P line = [] then None else Some (last (takeWhile ?P line))) (c # u)"
    proof -
      have l: "list_all (cmatch (CSet True [CChr CHR ''{'', CChr CHR '';'', CChr CHR '')'', CChr CHR ''}''])) (takeWhile ?P line)"
        by (auto simp: list_all_iff dest!: set_takeWhileD)
      show ?thesis using cstar_to_append [OF l, of None "c # u"] by (simp only: line [symmetric])
    qed
    show "cmatch (CSet False [CChr CHR ''{'', CChr CHR '';'', CChr CHR '')'', CChr CHR ''}'']) c" using c by auto
    show "cstar_to (CSet True [CChr newline]) (Some c) u (if u = [] then Some c else Some (last u)) []"
      using \<open>newline \<notin> set u\<close> by (rule dot_star_all)
  qed (auto simp: at_bol_def at_eol_def)
  then have "re_match (re_const NEXT_BRACE) line \<noteq> None" using re_match_iff by blast
  with assms(1) show False by (simp add: Match_def)
qed


context reporter
begin

lemma brace_step_depth:
  assumes "lines_ok clean" "linenum < NumLines clean" "list_all seen_open_brace (stack ns)" "Inv st" "c \<in> set ''{;)}''"
  shows "\<exists>ns' st'. brace_step error filename clean linenum line [c] ns st = Inr (ns', st') \<and> Inv st' \<and>
    list_all seen_open_brace (stack ns') \<and> length (stack ns') = brace_depth (length (stack ns)) [c]"
proof -
  have s: "SeenOpenBrace ns" using assms(3) by (auto simp: SeenOpenBrace_def split: list.split)
  have "\<exists>st'. CheckEnd error filename clean linenum b st = Inr st' \<and> Inv st'" for b
    using safeD [OF CheckEnd_safe [OF assms(1,2)] assms(4)] by blast
  with s assms(3-5) show ?thesis
    by (auto simp: brace_step_def push_block_def pop_block_def ExternCInfo_init_def BlockInfo_init_def
        py_bind_Inr_iff split: list.split)
qed

lemma consume_braces_depth:
  assumes "lines_ok clean" "linenum < NumLines clean"
  shows "list_all seen_open_brace (stack ns) \<Longrightarrow> Inv st \<Longrightarrow> newline \<notin> set line \<Longrightarrow>
    \<exists>ns' st'. consume_braces error filename clean linenum line ns st = Inr (ns', st') \<and> Inv st' \<and>
      list_all seen_open_brace (stack ns') \<and> length (stack ns') = brace_depth (length (stack ns)) line"
proof (induction "length line" arbitrary: line ns st rule: less_induct)
  case less
  show ?case
  proof (cases "Match NEXT_BRACE line")
    case None
    have "brace_depth (length (stack ns)) line = length (stack ns)"
      using next_brace_None [OF None less.prems(3)] by (intro brace_depth_none) auto
    with None less.prems show ?thesis by (subst consume_braces.simps) simp
  next
    case (Some m)
    from next_brace_Some [OF Some less.prems(3)] obtain h c where
      h: "line = h @ [c] @ m_grp m 2" "m_grp m 1 = [c]" "c \<in> set ''{;)}''" "\<forall>x \<in> set h. x \<notin> set ''{;)}''" .
    from brace_step_depth [OF assms less.prems(1,2) h(3), where line = line] obtain ns1 st1 where
      1: "brace_step error filename clean linenum line [c] ns st = Inr (ns1, st1)" "Inv st1"
      "list_all seen_open_brace (stack ns1)" "length (stack ns1) = brace_depth (length (stack ns)) [c]" by blast
    have "brace_depth (length (stack ns)) line = brace_depth (length (stack ns1)) (m_grp m 2)"
    proof -
      have "brace_depth (length (stack ns)) h = length (stack ns)" using h(4) by (intro brace_depth_none) auto
      then show ?thesis by (subst h(1)) (simp only: brace_depth_append 1(4))
    qed
    moreover have "newline \<notin> set (m_grp m 2)" using less.prems(3) by (subst (asm) h(1)) simp
    ultimately show ?thesis
      using less.hyps [OF next_brace_shorter [OF Some] 1(3,2)]
      by (subst consume_braces.simps) (simp add: Some h(2) [simplified] 1(1))
  qed
qed

end

lemma deepcopy_same: "map (\<lambda>b. b\<lparr>bid := 0\<rparr>) (deepcopy n bs) = map (\<lambda>b. b\<lparr>bid := 0\<rparr>) bs"
  by (induction bs arbitrary: n) auto

section \<open>Properties\<close>

text \<open>C5. Updating the nesting state with a line of the file never raises, whatever the line
  holds, and keeps its invariant: the blocks on the stack have different identities (also
  after the copies that conditionals make), and each started on this or an earlier line.  The
  error state stays consistent.\<close>

theorem nesting_update_safe:
  assumes "linenum < length lines" "nesting_ok linenum ns" "lint_inv st"
  shows "\<exists>ns' st'. Update Error filename (CleansedLines lines) linenum ns st = Inr (ns', st') \<and>
    nesting_ok (linenum + 1) ns' \<and> lint_inv st'"
  using assms by (intro Err.Update_ok) (simp_all add: lines_ok_CleansedLines)

theorem nesting_update_safe_witness:
  "\<exists>ns' st'. Update Error ''a.cc'' (CleansedLines [''namespace a {'', ''class B {'']) 0 NestingState_init
      (lint_init CppLintState_init) = Inr (ns', st') \<and> nesting_ok (0 + 1) ns' \<and> lint_inv st'"
proof (rule nesting_update_safe)
  show "nesting_ok 0 NestingState_init" by (simp add: nesting_ok_def NestingState_init_def)
  show "lint_inv (lint_init CppLintState_init)" by code_simp
qed simp

text \<open>C8. Where every open block has its opening brace, the loop over braces, semicolons and
  parentheses refines a counter: the depth of the stack is the brace depth of the text, a
  closing brace outside of all blocks counting nothing.\<close>

theorem brace_depth_refined:
  assumes "linenum < length lines" "list_all seen_open_brace (stack ns)" "lint_inv st" "newline \<notin> set line"
  shows "\<exists>ns' st'. consume_braces Error filename (CleansedLines lines) linenum line ns st = Inr (ns', st') \<and>
    length (stack ns') = brace_depth (length (stack ns)) line \<and> list_all seen_open_brace (stack ns')"
  using Err.consume_braces_depth [OF lines_ok_CleansedLines _ assms(2-4)] assms(1) by fastforce

theorem brace_depth_refined_witness:
  "\<exists>ns' st'. consume_braces Error ''a.cc'' (CleansedLines [''}} f() { if (x) {'']) 0 ''}} f() { if (x) {''
      NestingState_init (lint_init CppLintState_init) = Inr (ns', st') \<and>
    length (stack ns') = brace_depth (length (stack NestingState_init)) ''}} f() { if (x) {'' \<and>
    list_all seen_open_brace (stack ns')"
  by (rule brace_depth_refined) (simp, simp add: NestingState_init_def, code_simp, code_simp)

text \<open>C25. Preprocessor conditionals: from the \<open>#if\<close> to the first \<open>#else\<close> the stack develops
  freely; the \<open>#else\<close> (or \<open>#elif\<close>) puts back the stack from before the \<open>#if\<close>, and the
  \<open>#endif\<close> restores the one that the first branch had built, whatever the other branch did;
  the pending conditionals are those from before.\<close>

theorem conditional_restores:
  assumes "Match PP_IF line1 \<noteq> None"
    and "Match PP_IF line2 = None" "Match PP_ELSE line2 \<noteq> None"
    and "Match PP_IF line3 = None" "Match PP_ELSE line3 = None" "Match PP_ENDIF line3 \<noteq> None"
    and "pp_stack ns2 = pp_stack (UpdatePreprocessor line1 ns1)"
    and "pp_stack ns3 = pp_stack (UpdatePreprocessor line2 ns2)"
  shows "let same = (\<lambda>xs ys. map (\<lambda>b. b\<lparr>bid := 0\<rparr>) xs = map (\<lambda>b. b\<lparr>bid := 0\<rparr>) ys) in
    stack (UpdatePreprocessor line1 ns1) = stack ns1 \<and>
    same (stack (UpdatePreprocessor line2 ns2)) (stack ns1) \<and>
    same (stack (UpdatePreprocessor line3 ns3)) (stack ns2) \<and>
    pp_stack (UpdatePreprocessor line3 ns3) = pp_stack ns1"
proof -
  let ?pp = "\<lparr>stack_before_if = deepcopy (next_id ns1) (stack ns1), stack_before_else = [], seen_else = False\<rparr>"
  have 2: "pp_stack ns2 = ?pp # pp_stack ns1" using assms(1,7) by (simp add: UpdatePreprocessor_if)
  note e = UpdatePreprocessor_else(1) [OF assms(2,3) 2]
  have 3: "pp_stack ns3 = ?pp\<lparr>seen_else := True, stack_before_else := deepcopy (next_id ns2) (stack ns2)\<rparr> # pp_stack ns1"
    using assms(8) e by simp
  show ?thesis
    using assms(1) e UpdatePreprocessor_endif [OF assms(4-6) 3]
    by (simp add: UpdatePreprocessor_if Let_def deepcopy_same)
qed

theorem conditional_restores_witness:
  "let same = (\<lambda>xs ys. map (\<lambda>b. b\<lparr>bid := 0\<rparr>) xs = map (\<lambda>b. b\<lparr>bid := 0\<rparr>) ys);
       ns1 = push_block (BlockInfo_init 0 True) NestingState_init;
       ns2 = push_block (BlockInfo_init 2 True) (UpdatePreprocessor ''#ifdef SWIG'' ns1);
       ns3 = pop_block (UpdatePreprocessor ''#else'' ns2) in
    stack (UpdatePreprocessor ''#ifdef SWIG'' ns1) = stack ns1 \<and>
    same (stack (UpdatePreprocessor ''#else'' ns2)) (stack ns1) \<and>
    same (stack (UpdatePreprocessor ''#endif'' ns3)) (stack ns2) \<and>
    pp_stack (UpdatePreprocessor ''#endif'' ns3) = pp_stack ns1"
proof -
  have m: "Match PP_IF ''#ifdef SWIG'' \<noteq> None" "Match PP_IF ''#else'' = None" "Match PP_ELSE ''#else'' \<noteq> None"
    "Match PP_IF ''#endif'' = None" "Match PP_ELSE ''#endif'' = None" "Match PP_ENDIF ''#endif'' \<noteq> None"
    by code_simp+
  show ?thesis
    unfolding Let_def by (rule conditional_restores [OF m, unfolded Let_def]) (simp_all add: push_block_def pop_block_def)
qed

text \<open>The end of a class is looked for from its first line on; if that line opens no brace (or
  closes as many as it opens), the search stops at once: the recorded last line of the class
  is then its first line.\<close>

theorem class_last_line_first:
  assumes "linenum < length lines"
    and "str_count (elided (CleansedLines lines) ! linenum) ''{'' = str_count (elided (CleansedLines lines) ! linenum) ''}''"
  shows "\<exists>b c. ClassInfo_init nm key (CleansedLines lines) linenum = Inr b \<and> kind b = ClassInfo c \<and> last_line c = linenum"
proof -
  let ?clean = "CleansedLines lines"
  let ?ls = "List.enumerate 0 (take (NumLines ?clean) (elided ?clean))"
  have l: "linenum < length ?ls" using assms(1) by simp
  have "drop linenum ?ls = (linenum, elided ?clean ! linenum) # drop (Suc linenum) ?ls"
    using Cons_nth_drop_Suc [OF l] assms(1) by (simp add: nth_enumerate_eq)
  moreover have "raw_lines ?clean = lines" by (simp add: CleansedLines_def Let_def)
  ultimately show ?thesis using assms by (simp add: ClassInfo_init_def)
qed

theorem class_last_line_first_witness:
  "\<exists>b c. ClassInfo_init ''Foo'' ''class'' (CleansedLines [''class Foo'', ''    : public Bar {'', ''};'']) 0 = Inr b \<and>
     kind b = ClassInfo c \<and> last_line c = 0"
proof (rule class_last_line_first)
  have "list_all plain_line [''class Foo'', ''    : public Bar {'', ''};'']" by code_simp
  then have "elided (CleansedLines [''class Foo'', ''    : public Bar {'', ''};'']) = [''class Foo'', ''    : public Bar {'', ''};'']"
    using CleansedLines_plain by blast
  then show "str_count (elided (CleansedLines [''class Foo'', ''    : public Bar {'', ''};'']) ! 0) ''{'' =
      str_count (elided (CleansedLines [''class Foo'', ''    : public Bar {'', ''};'']) ! 0) ''}''"
    by (simp add: str_count_char)
qed simp

end
