(* ===== verification/Regex_Groups.thy ===== *)
theory Regex_Groups
  imports Py_Regex
begin

text \<open>
  Computable facts on the groups of a pattern: \<open>group_sure r n\<close> says that group \<open>n\<close> takes
  part in every match, \<open>group_in r n ws\<close> that its text is one of \<open>ws\<close>.  They justify by
  evaluation what the checks do with a captured keyword.
\<close>

text \<open>The words a pattern of literals can match.\<close>

fun literal_words :: "regex \<Rightarrow> string list option" where
  "literal_words REmpty = Some [[]]"
| "literal_words (RChr (CSet False [CChr c])) = Some [[c]]"
| "literal_words (RSeq a b) =
     (case (literal_words a, literal_words b) of
        (Some us, Some vs) \<Rightarrow> Some (concat (map (\<lambda>u. map (\<lambda>v. u @ v) vs) us))
      | _ \<Rightarrow> None)"
| "literal_words (RAlt a b) =
     (case (literal_words a, literal_words b) of (Some us, Some vs) \<Rightarrow> Some (us @ vs) | _ \<Rightarrow> None)"
| "literal_words _ = None"

primrec group_in :: "regex \<Rightarrow> nat \<Rightarrow> string list \<Rightarrow> bool" where
  "group_in REmpty n ws = True"
| "group_in (RChr cs) n ws = True"
| "group_in (RCStar g cs) n ws = True"
| "group_in (RSeq a b) n ws = (group_in a n ws \<and> group_in b n ws)"
| "group_in (RAlt a b) n ws = (group_in a n ws \<and> group_in b n ws)"
| "group_in (RStar g r) n ws = group_in r n ws"
| "group_in (RGroup m r) n ws =
     (group_in r n ws \<and>
      (m = n \<longrightarrow> (case literal_words r of Some vs \<Rightarrow> list_all (\<lambda>v. v \<in> set ws) vs | None \<Rightarrow> False)))"
| "group_in (RBol m) n ws = True"
| "group_in (REol m) n ws = True"
| "group_in (RWordB m) n ws = True"
| "group_in (RLook pos r) n ws = group_in r n ws"

primrec group_sure :: "regex \<Rightarrow> nat \<Rightarrow> bool" where
  "group_sure REmpty n = False"
| "group_sure (RChr cs) n = False"
| "group_sure (RCStar g cs) n = False"
| "group_sure (RSeq a b) n = (group_sure a n \<or> group_sure b n)"
| "group_sure (RAlt a b) n = (group_sure a n \<and> group_sure b n)"
| "group_sure (RStar g r) n = False"
| "group_sure (RGroup m r) n = (m = n \<or> group_sure r n)"
| "group_sure (RBol m) n = False"
| "group_sure (REol m) n = False"
| "group_sure (RWordB m) n = False"
| "group_sure (RLook pos r) n = False"

lemma cmatch_lit [simp]: "cmatch (CSet False [CChr c]) x \<longleftrightarrow> x = c"
  by auto

lemma literal_words_mcap:
  "literal_words r = Some ws \<Longrightarrow> mcap r p s g p' s' g' \<Longrightarrow> \<exists>w \<in> set ws. s = w @ s'"
proof (induction r arbitrary: ws p s g p' s' g' rule: literal_words.induct)
  case (3 a b)
  from "3.prems"(1) obtain us vs where w: "literal_words a = Some us" "literal_words b = Some vs"
    "ws = concat (map (\<lambda>u. map (\<lambda>v. u @ v) vs) us)" by (auto split: option.splits)
  from "3.prems"(2) obtain p1 s1 g1 where m: "mcap a p s g p1 s1 g1" "mcap b p1 s1 g1 p' s' g'" by auto
  from "3.IH"(1) [OF w(1) m(1)] obtain u where u: "u \<in> set us" "s = u @ s1" by blast
  from "3.IH"(2) [OF w(2) m(2)] obtain v where v: "v \<in> set vs" "s1 = v @ s'" by blast
  have "u @ v \<in> set ws" using w(3) u(1) v(1) by auto
  with u(2) v(2) show ?case by (intro bexI [of _ "u @ v"]) simp_all
next
  case (4 a b)
  from "4.prems"(1) obtain us vs where w: "literal_words a = Some us" "literal_words b = Some vs" "ws = us @ vs"
    by (auto split: option.splits)
  from "4.prems"(2) consider "mcap a p s g p' s' g'" | "mcap b p s g p' s' g'" unfolding mcap.simps by blast
  then show ?case
  proof cases
    case 1
    from "4.IH"(1) [OF w(1) this] w(3) show ?thesis by auto
  next
    case 2
    from "4.IH"(2) [OF w(2) this] w(3) show ?thesis by auto
  qed
qed auto

text \<open>All texts captured for group \<open>n\<close> are among \<open>ws\<close>.\<close>

definition caps_in :: "nat \<Rightarrow> string list \<Rightarrow> caps \<Rightarrow> bool" where
  "caps_in n ws g = (\<forall>t. (n, t) \<in> set g \<longrightarrow> t \<in> set ws)"

lemma group_in_mcap:
  "group_in r n ws \<Longrightarrow> mcap r p s g p' s' g' \<Longrightarrow> caps_in n ws g \<Longrightarrow> caps_in n ws g'"
proof (induction r arbitrary: p s g p' s' g')
  case (RSeq a b)
  then obtain p1 s1 g1 where "mcap a p s g p1 s1 g1" "mcap b p1 s1 g1 p' s' g'" by auto
  with RSeq show ?case by auto
next
  case (RAlt a b)
  then show ?case unfolding mcap.simps group_in.simps by blast
next
  case (RStar b r)
  let ?step = "\<lambda>(p, s, g) (p', s', g'). mcap r p s g p' s' g' \<and> length s' < length s"
  from RStar.prems have "?step\<^sup>*\<^sup>* (p, s, g) (p', s', g')" by simp
  then show ?case
  proof (induction "(p', s', g')" arbitrary: p' s' g' rule: rtranclp_induct)
    case base
    then show ?case using RStar.prems(3) by simp
  next
    case (step y)
    obtain p1 s1 g1 where y: "y = (p1, s1, g1)" by (cases y)
    from step.hyps(3) [OF y] step.hyps(2) RStar.IH [of p1 s1 g1 p' s' g'] RStar.prems(1) show ?case
      unfolding y by auto
  qed
next
  case (RGroup m r)
  then obtain g1 where g1: "mcap r p s g p' s' g1" "g' = (m, take (length s - length s') s) # g1" by auto
  have r: "group_in r n ws" using RGroup.prems(1) by simp
  have i: "caps_in n ws g1" by (rule RGroup.IH [OF r g1(1) RGroup.prems(3)])
  have "take (length s - length s') s \<in> set ws" if "m = n"
  proof -
    from RGroup.prems(1) that obtain vs where vs: "literal_words r = Some vs" "list_all (\<lambda>v. v \<in> set ws) vs"
      by (auto split: option.splits)
    from literal_words_mcap [OF vs(1) g1(1)] obtain v where "v \<in> set vs" "s = v @ s'" by blast
    with vs(2) show ?thesis by (simp add: list_all_iff)
  qed
  with i g1(2) show ?case by (auto simp: caps_in_def)
next
  case (RLook pos r)
  then show ?case by (auto split: if_splits)
qed auto

lemma group_sure_mcap:
  "mcap r p s g p' s' g' \<Longrightarrow> group_sure r n \<or> n \<in> fst ` set g \<Longrightarrow> n \<in> fst ` set g'"
proof (induction r arbitrary: p s g p' s' g')
  case (RSeq a b)
  then obtain p1 s1 g1 where m: "mcap a p s g p1 s1 g1" "mcap b p1 s1 g1 p' s' g'" by auto
  from RSeq.IH(1) [OF m(1)] RSeq.IH(2) [OF m(2)] RSeq.prems(2) show ?case by auto
next
  case (RAlt a b)
  then show ?case unfolding mcap.simps group_sure.simps by blast
next
  case (RStar b r)
  let ?step = "\<lambda>(p, s, g) (p', s', g'). mcap r p s g p' s' g' \<and> length s' < length s"
  from RStar.prems have "?step\<^sup>*\<^sup>* (p, s, g) (p', s', g')" by simp
  then show ?case
  proof (induction "(p', s', g')" arbitrary: p' s' g' rule: rtranclp_induct)
    case base
    then show ?case using RStar.prems(2) by simp
  next
    case (step y)
    obtain p1 s1 g1 where y: "y = (p1, s1, g1)" by (cases y)
    from step.hyps(3) [OF y] step.hyps(2) RStar.IH [of p1 s1 g1 p' s' g'] show ?case unfolding y by auto
  qed
next
  case (RGroup m r)
  then obtain g1 where g1: "mcap r p s g p' s' g1" "g' = (m, take (length s - length s') s) # g1" by auto
  from RGroup.IH [OF g1(1)] RGroup.prems(2) show ?case by (auto simp: g1(2))
next
  case (RLook pos r)
  then have "n \<in> fst ` set g" "g' = g \<or> (\<exists>p1 s1. mcap r p s g p1 s1 g')" by (simp_all split: if_splits)
  with RLook.IH show ?case by blast
qed auto

lemma group_text:
  assumes "mcap r p s [] p' s' (m_caps m)" "group_sure r n" "group_in r n ws" "0 < n"
  shows "m_grp m n \<in> set ws"
proof -
  have "n \<in> fst ` set (m_caps m)" using group_sure_mcap [OF assms(1)] assms(2) by blast
  then obtain t where t: "map_of (m_caps m) n = Some t" by (metis map_of_eq_None_iff not_Some_eq)
  have "caps_in n ws (m_caps m)" by (rule group_in_mcap [OF assms(3,1)]) (simp add: caps_in_def)
  with map_of_SomeD [OF t] assms(4) t show ?thesis by (auto simp: caps_in_def m_grp_def m_group_def)
qed

lemma finditer_go_caps:
  "m \<in> set (finditer_go r p i k s) \<Longrightarrow> \<exists>q t p' s'. mcap r q t [] p' s' (m_caps m)"
proof (induction r p i k s rule: finditer_go.induct)
  case (3 r p i c cs)
  show ?case
  proof (cases "match_at r p i (c # cs)")
    case None
    with 3 show ?thesis by simp
  next
    case (Some m')
    from Some obtain p' s' where "mcap r p (c # cs) [] p' s' (m_caps m')" by (rule match_at_caps)
    with Some 3 show ?thesis by (auto split: if_splits)
  qed
qed auto

lemma finditer_group_text:
  assumes "m \<in> set (re_finditer r s)" "group_sure r n" "group_in r n ws" "0 < n"
  shows "m_grp m n \<in> set ws"
  using finditer_go_caps [OF assms(1) [unfolded re_finditer_def]] group_text assms(2-4) by blast

section \<open>A group at the beginning of a match\<close>

text \<open>
  \<open>lead_group r n\<close>: group \<open>n\<close> starts where the match starts, and what follows it takes at least
  one character.  The length of the group is then a position of the text, the one of
  the character after it; this is how the checks find a bracket.
\<close>

primrec group_absent :: "regex \<Rightarrow> nat \<Rightarrow> bool" where
  "group_absent REmpty n = True"
| "group_absent (RChr cs) n = True"
| "group_absent (RCStar g cs) n = True"
| "group_absent (RSeq a b) n = (group_absent a n \<and> group_absent b n)"
| "group_absent (RAlt a b) n = (group_absent a n \<and> group_absent b n)"
| "group_absent (RStar g r) n = group_absent r n"
| "group_absent (RGroup m r) n = (m \<noteq> n \<and> group_absent r n)"
| "group_absent (RBol m) n = True"
| "group_absent (REol m) n = True"
| "group_absent (RWordB m) n = True"
| "group_absent (RLook pos r) n = group_absent r n"

fun lead_group :: "regex \<Rightarrow> nat \<Rightarrow> bool" where
  "lead_group (RSeq (RBol b) r) n = lead_group r n"
| "lead_group (RSeq (RGroup m r1) r) n = (m = n \<and> consumes r \<and> group_absent r n)"
| "lead_group _ n = False"

lemma group_absent_mcap: "group_absent r n \<Longrightarrow> mcap r p s g p' s' g' \<Longrightarrow> map_of g' n = map_of g n"
proof (induction r arbitrary: p s g p' s' g')
  case (RSeq a b)
  then obtain p1 s1 g1 where "mcap a p s g p1 s1 g1" "mcap b p1 s1 g1 p' s' g'" by auto
  with RSeq show ?case by auto
next
  case (RAlt a b)
  then show ?case unfolding mcap.simps group_absent.simps by blast
next
  case (RStar b r)
  let ?step = "\<lambda>(p, s, g) (p', s', g'). mcap r p s g p' s' g' \<and> length s' < length s"
  from RStar.prems have "?step\<^sup>*\<^sup>* (p, s, g) (p', s', g')" by simp
  then show ?case
  proof (induction "(p', s', g')" arbitrary: p' s' g' rule: rtranclp_induct)
    case base
    then show ?case by simp
  next
    case (step y)
    obtain p1 s1 g1 where y: "y = (p1, s1, g1)" by (cases y)
    from step.hyps(3) [OF y] step.hyps(2) RStar.IH [of p1 s1 g1 p' s' g'] RStar.prems(1) show ?case unfolding y by auto
  qed
next
  case (RGroup m r)
  then obtain g1 where "mcap r p s g p' s' g1" "g' = (m, take (length s - length s') s) # g1" by auto
  with RGroup show ?case by auto
next
  case (RLook pos r)
  then show ?case by (cases pos) auto
qed auto

lemma lead_group_mcap:
  "lead_group r n \<Longrightarrow> mcap r p s g p' s' g' \<Longrightarrow> \<exists>u. map_of g' n = Some u \<and> prefix u s \<and> length u < length s"
proof (induction r n arbitrary: p rule: lead_group.induct)
  case (1 b r n)
  then show ?case by auto
next
  case (2 m r1 r n)
  from "2.prems"(2) obtain p1 s1 g1 where m: "mcap r1 p s g p1 s1 g1"
    "mcap r p1 s1 ((m, take (length s - length s1) s) # g1) p' s' g'" by auto
  have "map_of g' n = Some (take (length s - length s1) s)"
    using group_absent_mcap [OF _ m(2), of n] "2.prems"(1) by simp
  moreover have "length s' < length s1" using consumes_mcap [OF _ m(2)] "2.prems"(1) by simp
  moreover have "length s1 \<le> length s" by (rule mcap_length [OF m(1)])
  ultimately show ?case by (auto simp: take_is_prefix)
qed auto

lemma lead_group_position:
  assumes "lead_group r n" "0 < n" "re_match r s = Some m"
  shows "length (m_grp m n) < length s" "prefix (m_grp m n) s"
proof -
  from assms(3) obtain p' s' where "mcap r None s [] p' s' (m_caps m)" by (rule re_match_caps)
  from lead_group_mcap [OF assms(1) this] assms(2)
  show "length (m_grp m n) < length s" "prefix (m_grp m n) s" by (auto simp: m_grp_def m_group_def)
qed

section \<open>Rules for taking a match apart\<close>

lemma mcap_groupE:
  assumes "mcap (RGroup n r) p s g p' s' g'"
  obtains t g1 where "s = t @ s'" "g' = (n, t) # g1" "mcap r p s g p' s' g1"
proof -
  from assms obtain g1 where m: "mcap r p s g p' s' g1" "g' = (n, take (length s - length s') s) # g1" by auto
  from mcap_suffix [OF m(1)] obtain t where "s = t @ s'" by (auto simp: suffix_def)
  with m that show thesis by simp
qed

lemma mcap_seqE:
  assumes "mcap (RSeq a b) p s g p' s' g'"
  obtains p1 s1 g1 where "mcap a p s g p1 s1 g1" "mcap b p1 s1 g1 p' s' g'"
  using assms by auto

lemma mcap_rlits:
  "mcap (rlits w r) p s g p' s' g' \<longleftrightarrow> (\<exists>t. s = w @ t \<and> mcap r (if w = [] then p else Some (last w)) t g p' s' g')"
  by (induction w arbitrary: p s) auto

lemma search_from_end:
  "search_from r p i s = Some m \<Longrightarrow> consumes r \<Longrightarrow> i < m_end m \<and> m_end m \<le> i + length s"
proof (induction s arbitrary: p i)
  case Nil
  then have "match_at r p i [] = Some m" by (simp split: option.splits)
  with match_at_text [OF this] consumes_text [OF Nil(2) this] show ?case by simp
next
  case (Cons c s)
  show ?case
  proof (cases "match_at r p i (c # s)")
    case None
    with Cons.prems Cons.IH [of "Some c" "Suc i"] show ?thesis by simp
  next
    case (Some m')
    with Cons.prems have "match_at r p i (c # s) = Some m" by simp
    with match_at_text [OF this] consumes_text [OF Cons.prems(2) this] show ?thesis by (auto dest: prefix_length_le)
  qed
qed

section \<open>The last character of a match\<close>

text \<open>\<open>final_char r c\<close>: every match of \<open>r\<close> ends in the character \<open>c\<close>.\<close>

primrec final_char :: "regex \<Rightarrow> char \<Rightarrow> bool" where
  "final_char REmpty c = False"
| "final_char (RChr cs) c = (cs = CSet False [CChr c])"
| "final_char (RCStar g cs) c = False"
| "final_char (RSeq a b) c = final_char b c"
| "final_char (RAlt a b) c = (final_char a c \<and> final_char b c)"
| "final_char (RStar g r) c = False"
| "final_char (RGroup n r) c = final_char r c"
| "final_char (RBol m) c = False"
| "final_char (REol m) c = False"
| "final_char (RWordB m) c = False"
| "final_char (RLook pos r) c = False"

lemma final_char_mcap: "final_char r c \<Longrightarrow> mcap r p s g p' s' g' \<Longrightarrow> \<exists>u. s = u @ c # s'"
proof (induction r arbitrary: p s g p' s' g')
  case (RSeq a b)
  from RSeq.prems(2) obtain p1 s1 g1 where m: "mcap a p s g p1 s1 g1" "mcap b p1 s1 g1 p' s' g'" by (rule mcap_seqE)
  from RSeq.IH(2) [OF _ m(2)] RSeq.prems(1) obtain u where "s1 = u @ c # s'" by auto
  moreover from mcap_suffix [OF m(1)] obtain v where "s = v @ s1" by (auto simp: suffix_def)
  ultimately show ?case by simp
next
  case (RAlt a b)
  then show ?case unfolding mcap.simps final_char.simps by blast
next
  case (RGroup n r)
  then show ?case by auto
qed auto

lemma match_at_final:
  assumes "final_char r c" "match_at r p i s = Some m"
  shows "\<exists>u. m_text m = u @ [c]"
proof -
  from assms(2) obtain s' g where x: "rx r p s [] (\<lambda>p s g. Some (s, g)) = Some (s', g)" "m_text m = take (length s - length s') s"
    by (auto simp: match_at_def Let_def split: option.splits)
  from rx_caps [OF x(1)] obtain p' where "mcap r p s [] p' s' g" by auto
  from final_char_mcap [OF assms(1) this] x(2) show ?thesis by auto
qed

lemma search_from_final:
  "search_from r p i s = Some m \<Longrightarrow> final_char r c \<Longrightarrow> i < m_end m \<and> m_end m \<le> i + length s \<and> s ! (m_end m - 1 - i) = c"
proof (induction s arbitrary: p i)
  case Nil
  then have "match_at r p i [] = Some m" by simp
  with match_at_final [OF Nil(2) this] match_at_text [OF this] show ?case by simp
next
  case (Cons x xs)
  show ?case
  proof (cases "match_at r p i (x # xs)")
    case None
    with Cons.prems have "search_from r (Some x) (Suc i) xs = Some m" by simp
    note ih = Cons.IH [OF this Cons.prems(2)]
    then have "m_end m - 1 - i = Suc (m_end m - 1 - Suc i)" by linarith
    with ih show ?thesis by simp
  next
    case (Some m')
    with Cons.prems have "match_at r p i (x # xs) = Some m" by simp
    note t = match_at_text [OF this]
    from match_at_final [OF Cons.prems(2) \<open>match_at r p i (x # xs) = Some m\<close>] obtain u where u: "m_text m = u @ [c]" by blast
    with t obtain zs where z: "x # xs = u @ c # zs" by (auto simp: prefix_def)
    then have "length (x # xs) = length u + 1 + length zs" by simp
    with t u show ?thesis unfolding z by simp
  qed
qed

lemma re_search_final:
  assumes "re_search r s = Some m" "final_char r c"
  shows "0 < m_end m" "m_end m \<le> length s" "s ! (m_end m - 1) = c"
  using search_from_final [OF assms(1) [unfolded re_search_def] assms(2)] by simp_all

end
