(* ===== verification/Line_Checks.thy ===== *)
theory Line_Checks
  imports Function_State Nesting Regex_Groups
begin

text \<open>
  The checks of \<open>cpplint.py\<close> that look at one line, or at the beginning or the end of a file,
  with little state: copyright, missing newline at the end, multi-line comments and strings,
  POSIX functions that are not thread-safe, VLOG arguments, pointer increments, namespace
  indentation, function lengths, comments, alternative tokens, \<open>make_pair\<close>, redundant
  \<open>virtual\<close>, \<open>override\<close> and \<open>final\<close>, C++11 and C++14 headers.

  The locale \<open>reporter\<close> carries their safety: each is an action that returns and keeps the
  callback's invariant.
\<close>

section \<open>The whole file\<close>

text \<open>The loop of \<open>CheckForCopyright\<close> with its \<open>else\<close>: \<open>re.search(r'Copyright', l, re.I)\<close>.\<close>

definition has_copyright :: "string \<Rightarrow> bool" where
  "has_copyright l =
     (case re_compile_flags (no_flags\<lparr>ignorecase := True\<rparr>) ''Copyright'' of
        None \<Rightarrow> False | Some r \<Rightarrow> re_search r l \<noteq> None)"

definition CheckForCopyright :: "error_fn \<Rightarrow> string \<Rightarrow> string list \<Rightarrow> action" where
  \<open>CheckForCopyright error filename lines =
     whenever (\<not> list_ex (\<lambda>i. has_copyright (lines ! i)) [1..<min (length lines) 11])
       (error filename (Some 0) ''legal/copyright'' 5
         (''No copyright message found.  '' @ ''You should have a line: "Copyright [year] <Copyright Owner>"''))\<close>

definition CheckForNewlineAtEOF :: "error_fn \<Rightarrow> string \<Rightarrow> string list \<Rightarrow> action" where
  "CheckForNewlineAtEOF error filename lines =
     whenever (length lines < 3 \<or> lines ! (length lines - 2) \<noteq> [])
       (error filename (Some (int (length lines) - 2)) ''whitespace/ending_newline'' 5
         ''Could not find a newline character at the end of the file.'')"

section \<open>One line\<close>

text \<open>\<open>line = clean_lines.elided[linenum]\<close>, then the rest of the function.\<close>

definition with_line :: "string list \<Rightarrow> nat \<Rightarrow> (string \<Rightarrow> action) \<Rightarrow> action" where
  "with_line ls linenum f st = py_bind (py_index ls (int linenum)) (\<lambda>line. f line st)"

definition CheckForMultilineCommentsAndStrings :: "error_fn \<Rightarrow> string \<Rightarrow> cleansed_lines \<Rightarrow> nat \<Rightarrow> action" where
  \<open>CheckForMultilineCommentsAndStrings error filename clean linenum =
     with_line (elided clean) linenum (\<lambda>line.
       let line = str_replace line [backslash, backslash] [] in
       run [whenever (str_count line ''/*'' > str_count line ''*/'')
              (error filename (Some (int linenum)) ''readability/multiline_comment'' 5
                (''Complex multi-line /*...*/-style comment found. '' @ ''Lint may give bogus warnings.  '' @
                 ''Consider replacing these with //-style comments, '' @ ''with #if 0...#endif, '' @
                 ''or with more clearly structured multi-line comments.'')),
            whenever ((int (str_count line [CHR 0x22]) - int (str_count line [backslash, CHR 0x22])) mod 2 \<noteq> 0)
              (error filename (Some (int linenum)) ''readability/multiline_string'' 5
                (''Multi-line string ("...") found.  This lint script doesn'' @ [CHR 0x27] @ ''t '' @
                 ''do well with such strings, and may give bogus warnings.  '' @
                 ''Use C++11 raw strings or concatenation instead.''))])\<close>

definition UNSAFE_FUNC_PREFIX :: string where
  "UNSAFE_FUNC_PREFIX = raw ''(?:[-+*/=%^&|(<]`s*|>`s+)''"

definition THREADING_LIST :: "(string \<times> string \<times> string) list" where
  "THREADING_LIST = [
     (''asctime('', ''asctime_r('', UNSAFE_FUNC_PREFIX @ raw ''asctime`([^)]+`)''),
     (''ctime('', ''ctime_r('', UNSAFE_FUNC_PREFIX @ raw ''ctime`([^)]+`)''),
     (''getgrgid('', ''getgrgid_r('', UNSAFE_FUNC_PREFIX @ raw ''getgrgid`([^)]+`)''),
     (''getgrnam('', ''getgrnam_r('', UNSAFE_FUNC_PREFIX @ raw ''getgrnam`([^)]+`)''),
     (''getlogin('', ''getlogin_r('', UNSAFE_FUNC_PREFIX @ raw ''getlogin`(`)''),
     (''getpwnam('', ''getpwnam_r('', UNSAFE_FUNC_PREFIX @ raw ''getpwnam`([^)]+`)''),
     (''getpwuid('', ''getpwuid_r('', UNSAFE_FUNC_PREFIX @ raw ''getpwuid`([^)]+`)''),
     (''gmtime('', ''gmtime_r('', UNSAFE_FUNC_PREFIX @ raw ''gmtime`([^)]+`)''),
     (''localtime('', ''localtime_r('', UNSAFE_FUNC_PREFIX @ raw ''localtime`([^)]+`)''),
     (''rand('', ''rand_r('', UNSAFE_FUNC_PREFIX @ raw ''rand`(`)''),
     (''strtok('', ''strtok_r('', UNSAFE_FUNC_PREFIX @ raw ''strtok`([^)]+`)''),
     (''ttyname('', ''ttyname_r('', UNSAFE_FUNC_PREFIX @ raw ''ttyname`([^)]+`)'')]"

definition CheckPosixThreading :: "error_fn \<Rightarrow> string \<Rightarrow> cleansed_lines \<Rightarrow> nat \<Rightarrow> action" where
  "CheckPosixThreading error filename clean linenum =
     with_line (elided clean) linenum (\<lambda>line.
       for_each THREADING_LIST (\<lambda>(single_thread_func, multithread_safe_func, pattern).
         whenever (Search pattern line \<noteq> None)
           (error filename (Some (int linenum)) ''runtime/threadsafe_fn'' 2
             (''Consider using '' @ multithread_safe_func @ ''...) instead of '' @ single_thread_func @
              ''...) for improved thread safety.''))))"

definition CheckVlogArguments :: "error_fn \<Rightarrow> string \<Rightarrow> cleansed_lines \<Rightarrow> nat \<Rightarrow> action" where
  "CheckVlogArguments error filename clean linenum =
     with_line (elided clean) linenum (\<lambda>line.
       whenever (Search (raw ''`bVLOG`((INFO|ERROR|WARNING|DFATAL|FATAL)`)'') line \<noteq> None)
         (error filename (Some (int linenum)) ''runtime/vlog'' 5
           (''VLOG() should be used with numeric verbosity level.  '' @
            ''Use LOG() if you want symbolic severity levels.'')))"

definition RE_PATTERN_INVALID_INCREMENT :: string where
  "RE_PATTERN_INVALID_INCREMENT = raw ''^`s*`*`w+(`+`+|--);''"

definition CheckInvalidIncrement :: "error_fn \<Rightarrow> string \<Rightarrow> cleansed_lines \<Rightarrow> nat \<Rightarrow> action" where
  "CheckInvalidIncrement error filename clean linenum =
     with_line (elided clean) linenum (\<lambda>line.
       whenever (re_match (re_const RE_PATTERN_INVALID_INCREMENT) line \<noteq> None)
         (error filename (Some (int linenum)) ''runtime/invalid_increment'' 5
           ''Changing pointer instead of value (or unused value of operator*).''))"

definition RE_PATTERN_EXPLICIT_MAKEPAIR :: string where
  "RE_PATTERN_EXPLICIT_MAKEPAIR = raw ''`bmake_pair`s*<''"

definition CheckMakePairUsesDeduction :: "error_fn \<Rightarrow> string \<Rightarrow> cleansed_lines \<Rightarrow> nat \<Rightarrow> action" where
  "CheckMakePairUsesDeduction error filename clean linenum =
     with_line (elided clean) linenum (\<lambda>line.
       whenever (re_search (re_const RE_PATTERN_EXPLICIT_MAKEPAIR) line \<noteq> None)
         (error filename (Some (int linenum)) ''build/explicit_make_pair'' 4
           (''For C++11-compatibility, omit template arguments from make_pair'' @
            '' OR use pair directly OR if appropriate, construct a pair directly'')))"

section \<open>Namespace indentation\<close>

text \<open>Line \<open>linenum\<close> is one of \<open>lines\<close>; its predecessor is asked for only if there is one.\<close>

definition IsMacroDefinition :: "string list \<Rightarrow> nat \<Rightarrow> bool" where
  "IsMacroDefinition lines linenum =
     (Search (raw ''^#define'') (lines ! linenum) \<noteq> None \<or>
      linenum > 0 \<and> Search (raw ''``$'') (lines ! (linenum - 1)) \<noteq> None)"

definition IsForwardClassDeclaration :: "string list \<Rightarrow> nat \<Rightarrow> bool" where
  "IsForwardClassDeclaration lines linenum =
     (Match (raw ''^`s*(`btemplate`b)*.*class`s+`w+;`s*$'') (lines ! linenum) \<noteq> None)"

text \<open>The stack has its top first; blocks are compared by identity.\<close>

definition IsBlockInNameSpace :: "nesting_state \<Rightarrow> bool \<Rightarrow> bool" where
  "IsBlockInNameSpace ns is_forward_declaration =
     (if is_forward_declaration then (case stack ns of b # _ \<Rightarrow> is_namespace b | [] \<Rightarrow> False)
      else (case stack ns of b # b2 # _ \<Rightarrow> check_namespace_indentation b \<and> is_namespace b2 | _ \<Rightarrow> False))"

definition ShouldCheckNamespaceIndentation :: "nesting_state \<Rightarrow> bool \<Rightarrow> string list \<Rightarrow> nat \<Rightarrow> bool" where
  "ShouldCheckNamespaceIndentation ns is_namespace_indent_item lines linenum =
     (let is_forward_declaration = IsForwardClassDeclaration lines linenum in
      if \<not> (is_namespace_indent_item \<or> is_forward_declaration) then False
      else if IsMacroDefinition lines linenum then False
      else IsBlockInNameSpace ns is_forward_declaration)"

definition CheckItemIndentationInNamespace :: "error_fn \<Rightarrow> string \<Rightarrow> string list \<Rightarrow> nat \<Rightarrow> action" where
  "CheckItemIndentationInNamespace error filename lines linenum =
     with_line lines linenum (\<lambda>line.
       whenever (Match (raw ''^`s+'') line \<noteq> None)
         (error filename (Some (int linenum)) ''runtime/indentation_namespace'' 4 ''Do not indent within a namespace''))"

definition CheckForNamespaceIndentation :: "error_fn \<Rightarrow> string \<Rightarrow> nesting_state \<Rightarrow> cleansed_lines \<Rightarrow> nat \<Rightarrow> action" where
  "CheckForNamespaceIndentation error filename ns clean linenum =
     (let is_namespace_indent_item =
            (case (stack ns, previous_stack_top ns) of
               (b # b2 # _, Some prev) \<Rightarrow> check_namespace_indentation b \<and> is_namespace prev \<and> bid prev = bid b2
             | _ \<Rightarrow> False)
      in whenever (ShouldCheckNamespaceIndentation ns is_namespace_indent_item (elided clean) linenum)
           (CheckItemIndentationInNamespace error filename (elided clean) linenum))"

section \<open>Function lengths\<close>

definition IsBlankLine :: "string \<Rightarrow> bool" where
  "IsBlankLine line = (line = [] \<or> str_isspace line)"

definition starting_func :: "string \<Rightarrow> bool" where
  "starting_func line =
     (case Match (raw ''(`w(`w|::|`*|`&|`s)*)`('') line of
        None \<Rightarrow> False
      | Some m \<Rightarrow>
          (let function_name = last (str_words (m_grp m 1)) in
           function_name = ''TEST'' \<or> function_name = ''TEST_F'' \<or> Match ''[A-Z_]+$'' function_name = None))"

text \<open>The name under which a function is counted, from its first line and the lines joined so far.\<close>

definition counted_name :: "string \<Rightarrow> string \<Rightarrow> string" where
  "counted_name line joined_line =
     (let function = (case Search (raw ''((`w|:)*)`('') line of Some m \<Rightarrow> m_grp m 1 | None \<Rightarrow> []) in
      if Match ''TEST'' function \<noteq> None then
        (case Search (raw ''(`(.*`))'') joined_line of
           Some parameter_regexp \<Rightarrow> function @ m_grp parameter_regexp 1 | None \<Rightarrow> function)
      else function @ ''()'')"

text \<open>The search for the start of the body: \<open>Some None\<close> when the lines show that there is no body to count.\<close>

fun find_body :: "string \<Rightarrow> string list \<Rightarrow> string \<Rightarrow> string option option" where
  "find_body line [] joined_line = None"
| "find_body line (start_line # ls) joined_line =
     (let joined_line = joined_line @ '' '' @ str_lstrip start_line in
      if Search ''(;|})'' start_line \<noteq> None then Some None
      else if Search ''{'' start_line \<noteq> None then Some (Some (counted_name line joined_line))
      else find_body line ls joined_line)"

definition CheckForFunctionLengths :: "error_fn \<Rightarrow> string \<Rightarrow> cleansed_lines \<Rightarrow> nat \<Rightarrow>
    function_state \<Rightarrow> lint \<Rightarrow> (function_state \<times> lint) py" where
  "CheckForFunctionLengths error filename clean linenum fs st =
     py_bind (py_index (clean_lines clean) (int linenum)) (\<lambda>line.
       if starting_func line then
         (case find_body line (drop linenum (clean_lines clean)) [] of
            Some (Some function) \<Rightarrow> Inr (Begin function fs, st)
          | Some None \<Rightarrow> Inr (fs, st)
          | None \<Rightarrow>
              py_bind (error filename (Some (int linenum)) ''readability/fn_size'' 5
                ''Lint failed to find start of function body.'' st) (\<lambda>st. Inr (fs, st)))
       else if Match (raw ''^`}`s*$'') line \<noteq> None then
         py_bind (Check error filename (int linenum) fs st) (\<lambda>st. Inr (End fs, st))
       else if Match (raw ''^`s*$'') line = None then Inr (Count fs, st)
       else Inr (fs, st))"

section \<open>Comments\<close>

definition RE_PATTERN_TODO :: string where
  "RE_PATTERN_TODO = raw ''^//(`s*)TODO(`(.+?`))?:?(`s|$)?''"

definition check_todo :: "error_fn \<Rightarrow> string \<Rightarrow> nat \<Rightarrow> match_obj \<Rightarrow> action" where
  \<open>check_todo error filename linenum m =
     run [whenever (length (m_grp m 1) > 1)
            (error filename (Some (int linenum)) ''whitespace/todo'' 2 ''Too many spaces before TODO''),
          whenever (m_grp m 2 = [])
            (error filename (Some (int linenum)) ''readability/todo'' 2
              (''Missing username in TODO; it should look like '' @ ''"// TODO(my_username): Stuff."'')),
          whenever (m_group m 3 \<noteq> Some '' '' \<and> m_group m 3 \<noteq> Some [])
            (error filename (Some (int linenum)) ''whitespace/todo'' 2
              ''TODO(my_username) should be followed by a space'')]\<close>

definition CheckComment :: "error_fn \<Rightarrow> string \<Rightarrow> string \<Rightarrow> nat \<Rightarrow> int \<Rightarrow> action" where
  "CheckComment error line filename linenum next_line_start =
     (case find_nat ''//'' line of
        None \<Rightarrow> Inr
      | Some commentpos \<Rightarrow>
          if str_count (re_sub (re_const (raw ''``.'')) [] (take commentpos line)) [CHR 0x22] mod 2 = 0 then
            (let comment = drop commentpos line in
             run [whenever
                    (\<not> (Match ''^.*{ *//'' line \<noteq> None \<and> next_line_start = int commentpos) \<and>
                     (commentpos \<ge> 1 \<and> \<not> in_string_whitespace (line ! (commentpos - 1)) \<or>
                      commentpos \<ge> 2 \<and> \<not> in_string_whitespace (line ! (commentpos - 2))))
                    (error filename (Some (int linenum)) ''whitespace/comments'' 2
                      ''At least two spaces is best between code and comments''),
                  (case re_match (re_const RE_PATTERN_TODO) comment of
                     None \<Rightarrow> Inr | Some m \<Rightarrow> check_todo error filename linenum m),
                  whenever (Match (raw ''//[^ ]*`w'') comment \<noteq> None \<and> Match (raw ''(///|//`!)(`s+|$)'') comment = None)
                    (error filename (Some (int linenum)) ''whitespace/comments'' 4
                      ''Should have a space between // and comment'')])
          else Inr)"

section \<open>Alternative tokens\<close>

definition ALT_TOKEN_REPLACEMENT :: "(string \<times> string) list" where
  "ALT_TOKEN_REPLACEMENT = [
     (''and'', ''&&''), (''bitor'', ''|''), (''or'', ''||''), (''xor'', ''^''), (''compl'', ''~''), (''bitand'', ''&''),
     (''and_eq'', ''&=''), (''or_eq'', ''|=''), (''xor_eq'', ''^=''), (''not'', ''!''), (''not_eq'', ''!='')]"

definition ALT_TOKEN_REPLACEMENT_PATTERN :: string where
  "ALT_TOKEN_REPLACEMENT_PATTERN =
     ''[ =()]('' @ str_join ''|'' (map fst ALT_TOKEN_REPLACEMENT) @ '')(?=[ (]|$)''"

definition CheckAltTokens :: "error_fn \<Rightarrow> string \<Rightarrow> cleansed_lines \<Rightarrow> nat \<Rightarrow> action" where
  "CheckAltTokens error filename clean linenum =
     with_line (elided clean) linenum (\<lambda>line.
       whenever (Match (raw ''^`s*#'') line = None \<and> str_find line ''/*'' < 0 \<and> str_find line ''*/'' < 0)
         (for_each (re_finditer (re_const ALT_TOKEN_REPLACEMENT_PATTERN) line) (\<lambda>m st.
            case map_of ALT_TOKEN_REPLACEMENT (m_grp m 1) of
              None \<Rightarrow> Inl (KeyError (m_grp m 1))
            | Some operator \<Rightarrow>
                error filename (Some (int linenum)) ''readability/alt_tokens'' 2
                  (''Use operator '' @ operator @ '' instead of '' @ m_grp m 1) st)))"

section \<open>Redundant specifiers\<close>

text \<open>The search for the parameter list on up to three lines: line and column behind it, or column -1.\<close>

fun find_parameter_list :: "cleansed_lines \<Rightarrow> nat list \<Rightarrow> nat \<Rightarrow> (nat \<times> int) py" where
  "find_parameter_list clean [] start_col = Inr (0, -1)"
| "find_parameter_list clean (start_line # ls) start_col =
     py_bind (py_index (elided clean) (int start_line)) (\<lambda>line.
       case Match (raw ''^([^(]*)`('') (drop start_col line) of
         Some parameter_list \<Rightarrow>
           py_bind (CloseExpression clean start_line (start_col + length (m_grp parameter_list 1)))
             (\<lambda>(_, end_line, end_col). Inr (end_line, end_col))
       | None \<Rightarrow> find_parameter_list clean ls 0)"

text \<open>The lines behind the parameter list, the first one from column \<open>end_col\<close> on.\<close>

fun report_virtual :: "error_fn \<Rightarrow> string \<Rightarrow> nat \<Rightarrow> string list \<Rightarrow> action" where
  "report_virtual error filename linenum [] st = Inr st"
| \<open>report_virtual error filename linenum (line # ls) st =
     py_bind
       (case Search (raw ''`b(override|final)`b'') line of
          Some m \<Rightarrow> error filename (Some (int linenum)) ''readability/inheritance'' 4
            (''"virtual" is redundant since function is '' @ ''already declared as "'' @ m_grp m 1 @ ''"'') st
        | None \<Rightarrow> Inr st) (\<lambda>st.
     if Search (raw ''[^`w]`s*$'') line \<noteq> None then Inr st
     else report_virtual error filename linenum ls st)\<close>

definition lines_behind :: "cleansed_lines \<Rightarrow> nat \<Rightarrow> nat \<Rightarrow> string list" where
  "lines_behind clean end_line end_col =
     (case take 3 (drop end_line (take (NumLines clean) (elided clean))) of
        [] \<Rightarrow> [] | l # ls \<Rightarrow> drop end_col l # ls)"

definition CheckRedundantVirtual :: "error_fn \<Rightarrow> string \<Rightarrow> cleansed_lines \<Rightarrow> nat \<Rightarrow> action" where
  "CheckRedundantVirtual error filename clean linenum =
     with_line (elided clean) linenum (\<lambda>line st.
       case Match (raw ''^(.*)(`bvirtual`b)(.*)$'') line of
         None \<Rightarrow> Inr st
       | Some virtual \<Rightarrow>
           if Search (raw ''`b(public|protected|private)`s+$'') (m_grp virtual 1) \<noteq> None \<or>
              Match (raw ''^`s+(public|protected|private)`b'') (m_grp virtual 3) \<noteq> None
           then Inr st
           else if Match ''^.*[^:]:[^:].*$'' line \<noteq> None then Inr st
           else
             py_bind (find_parameter_list clean [linenum..<min (linenum + 3) (NumLines clean)] (length (m_grp virtual 2)))
               (\<lambda>(end_line, end_col).
                  if end_col < 0 then Inr st
                  else report_virtual error filename linenum (lines_behind clean end_line (nat end_col)) st))"

definition CheckRedundantOverrideOrFinal :: "error_fn \<Rightarrow> string \<Rightarrow> cleansed_lines \<Rightarrow> nat \<Rightarrow> action" where
  \<open>CheckRedundantOverrideOrFinal error filename clean linenum =
     with_line (elided clean) linenum (\<lambda>line.
       let declarator_end = str_rfind_char line (CHR '')'');
           fragment =
             (if declarator_end \<ge> 0 then Some (drop (nat declarator_end) line)
              else if linenum > 1 \<and> str_rfind_char (elided clean ! (linenum - 1)) (CHR '')'') \<ge> 0 then Some line
              else None)
       in case fragment of
            None \<Rightarrow> Inr
          | Some fragment \<Rightarrow>
              whenever (Search (raw ''`boverride`b'') fragment \<noteq> None \<and> Search (raw ''`bfinal`b'') fragment \<noteq> None)
                (error filename (Some (int linenum)) ''readability/inheritance'' 4
                  (''"override" is redundant since function is '' @ ''already declared as "final"'')))\<close>

section \<open>Language versions\<close>

definition INCLUDED_HEADER :: string where
  \<open>INCLUDED_HEADER = raw ''`s*#`s*include`s+[<"]([^<"]+)[">]''\<close>

definition CXX11_HEADERS :: "string list" where
  "CXX11_HEADERS = [''cfenv'', ''condition_variable'', ''fenv.h'', ''future'', ''mutex'', ''thread'', ''chrono'',
     ''ratio'', ''regex'', ''system_error'']"

definition FlagCxx11Features :: "error_fn \<Rightarrow> string \<Rightarrow> cleansed_lines \<Rightarrow> nat \<Rightarrow> action" where
  "FlagCxx11Features error filename clean linenum =
     with_line (elided clean) linenum (\<lambda>line.
       let incl = map_option (\<lambda>m. m_grp m 1) (Match INCLUDED_HEADER line) in
       run [whenever (incl \<noteq> None \<and> startswith (the incl) ''tr1/'')
              (error filename (Some (int linenum)) ''build/c++tr1'' 5
                (''C++ TR1 headers such as <'' @ the incl @ ''> are unapproved.'')),
            whenever (incl \<noteq> None \<and> the incl \<in> set CXX11_HEADERS)
              (error filename (Some (int linenum)) ''build/c++11'' 5
                (''<'' @ the incl @ ''> is an unapproved C++11 header.'')),
            whenever (\<not> (Match (raw ''`s*#'') line \<noteq> None \<and> Match (raw ''`s*#`s*define`b'') line = None))
              (for_each [''alignment_of'', ''aligned_union''] (\<lambda>top_name.
                 whenever (Search (raw ''`bstd::'' @ top_name @ raw ''`b'') line \<noteq> None)
                   (error filename (Some (int linenum)) ''build/c++11'' 5
                     (''std::'' @ top_name @ '' is an unapproved C++11 class or function.  Send c-style '' @
                      ''an example of where it would make your code more readable, and '' @ ''they may let you use it.''))))])"

definition FlagCxx14Features :: "error_fn \<Rightarrow> string \<Rightarrow> cleansed_lines \<Rightarrow> nat \<Rightarrow> action" where
  "FlagCxx14Features error filename clean linenum =
     with_line (elided clean) linenum (\<lambda>line.
       let incl = map_option (\<lambda>m. m_grp m 1) (Match INCLUDED_HEADER line) in
       whenever (incl \<noteq> None \<and> the incl \<in> {''scoped_allocator'', ''shared_mutex''})
         (error filename (Some (int linenum)) ''build/c++14'' 5
           (''<'' @ the incl @ ''> is an unapproved C++14 header.'')))"

section \<open>Lemmas\<close>

lemma with_line_safe: "n < length ls \<Longrightarrow> safe P (f (ls ! n)) \<Longrightarrow> safe P (with_line ls n f)"
  by (simp add: safe_def with_line_def)

lemma alt_token_groups:
  "group_sure (re_const ALT_TOKEN_REPLACEMENT_PATTERN) 1"
  "group_in (re_const ALT_TOKEN_REPLACEMENT_PATTERN) 1 (map fst ALT_TOKEN_REPLACEMENT)"
  by code_simp+

lemma alt_token_known:
  assumes "m \<in> set (re_finditer (re_const ALT_TOKEN_REPLACEMENT_PATTERN) line)"
  shows "\<exists>operator. map_of ALT_TOKEN_REPLACEMENT (m_grp m 1) = Some operator"
proof -
  have "m_grp m 1 \<in> fst ` set ALT_TOKEN_REPLACEMENT"
    using finditer_group_text [OF assms alt_token_groups] by simp
  then show ?thesis by (metis map_of_eq_None_iff not_Some_eq)
qed

text \<open>A match of the pattern for a parameter list is followed by its opening parenthesis.\<close>

lemma parameter_list_position:
  assumes "Match (raw ''^([^(]*)`('') s = Some m"
  shows "length (m_grp m 1) < length s"
proof -
  have re: "re_const (raw ''^([^(]*)`('') =
      RSeq (RBol False) (RSeq (RGroup 1 (RCStar True (CSet True [CChr (CHR ''('')]))) (RLit (CHR ''('')))" by code_simp
  from assms obtain p' s' where "mcap (re_const (raw ''^([^(]*)`('')) None s [] p' s' (m_caps m)"
    unfolding Match_def by (rule re_match_caps)
  then obtain s1 where s1: "m_caps m = [(1, take (length s - length s1) s)]" "s1 = CHR ''('' # s'" "suffix s1 s"
    unfolding re using mcap_suffix [of "RCStar True (CSet True [CChr (CHR ''('')])" None s] by auto
  have "length s1 \<le> length s" using s1(3) by (rule suffix_length_le)
  then show ?thesis using s1(1,2) by (simp add: m_grp_def m_group_def)
qed

lemma find_parameter_list_returns:
  assumes "lines_ok clean" "\<forall>i \<in> set is. i < NumLines clean"
  shows "\<exists>r. find_parameter_list clean is col = Inr r"
  using assms(2)
proof (induction "is" arbitrary: col)
  case (Cons i "is")
  then have i: "i < length (elided clean)" using assms(1) by (simp add: lines_ok_def)
  show ?case
  proof (cases "Match (raw ''^([^(]*)`('') (drop col (elided clean ! i))")
    case None
    with Cons i show ?thesis by simp
  next
    case (Some m)
    then have "col + length (m_grp m 1) < length (elided clean ! i)"
      using parameter_list_position [OF Some] by simp
    from CloseExpression_returns [OF assms(1) _ this] Cons.prems obtain r where
      "CloseExpression clean i (col + length (m_grp m 1)) = Inr r" by auto
    with Some i show ?thesis by (cases r) simp
  qed
qed auto

context reporter
begin

lemma listed_report_safe:
  "category \<in> {''legal/copyright'', ''whitespace/ending_newline'', ''readability/multiline_comment'',
     ''readability/multiline_string'', ''runtime/threadsafe_fn'', ''runtime/vlog'', ''runtime/invalid_increment'',
     ''build/explicit_make_pair'', ''runtime/indentation_namespace'', ''readability/fn_size'', ''whitespace/todo'',
     ''readability/todo'', ''whitespace/comments'', ''readability/alt_tokens'', ''readability/inheritance'',
     ''build/c++tr1'', ''build/c++11'', ''build/c++14''} \<Longrightarrow>
   0 \<le> confidence \<Longrightarrow> confidence \<le> 5 \<Longrightarrow> safe Inv (error filename linenum category confidence message)"
  by (rule report_safe) (auto simp: ERROR_CATEGORIES_def)

lemmas check_safe = whenever_safe listed_report_safe for_each_safe with_line_safe safe_return

lemma CheckForCopyright_safe: "safe Inv (CheckForCopyright error filename lines)"
  unfolding CheckForCopyright_def by (intro check_safe) simp_all

lemma CheckForNewlineAtEOF_safe: "safe Inv (CheckForNewlineAtEOF error filename lines)"
  unfolding CheckForNewlineAtEOF_def by (intro check_safe) simp_all

lemma CheckForMultiline_safe:
  "linenum < length (elided clean) \<Longrightarrow> safe Inv (CheckForMultilineCommentsAndStrings error filename clean linenum)"
  unfolding CheckForMultilineCommentsAndStrings_def Let_def
  by (rule with_line_safe, assumption, intro safe_flow check_safe) simp_all

lemma CheckPosixThreading_safe:
  "linenum < length (elided clean) \<Longrightarrow> safe Inv (CheckPosixThreading error filename clean linenum)"
  unfolding CheckPosixThreading_def by (rule with_line_safe, assumption, rule for_each_safe) (auto intro!: check_safe split: prod.split)

lemma CheckVlogArguments_safe:
  "linenum < length (elided clean) \<Longrightarrow> safe Inv (CheckVlogArguments error filename clean linenum)"
  unfolding CheckVlogArguments_def by (intro check_safe) simp_all

lemma CheckInvalidIncrement_safe:
  "linenum < length (elided clean) \<Longrightarrow> safe Inv (CheckInvalidIncrement error filename clean linenum)"
  unfolding CheckInvalidIncrement_def by (intro check_safe) simp_all

lemma CheckMakePair_safe:
  "linenum < length (elided clean) \<Longrightarrow> safe Inv (CheckMakePairUsesDeduction error filename clean linenum)"
  unfolding CheckMakePairUsesDeduction_def by (intro check_safe) simp_all

lemma CheckForNamespaceIndentation_safe:
  "linenum < length (elided clean) \<Longrightarrow> safe Inv (CheckForNamespaceIndentation error filename ns clean linenum)"
  unfolding CheckForNamespaceIndentation_def CheckItemIndentationInNamespace_def Let_def by (intro check_safe) simp_all

lemma CheckComment_safe: "safe Inv (CheckComment error line filename linenum next_line_start)"
  unfolding CheckComment_def check_todo_def Let_def
  by (auto split: option.split intro!: run_safe check_safe)

lemma CheckAltTokens_safe:
  "linenum < length (elided clean) \<Longrightarrow> safe Inv (CheckAltTokens error filename clean linenum)"
  unfolding CheckAltTokens_def
proof (rule with_line_safe, assumption, rule whenever_safe, rule for_each_safe)
  fix m assume "m \<in> set (re_finditer (re_const ALT_TOKEN_REPLACEMENT_PATTERN) (elided clean ! linenum))"
  then obtain op where op: "map_of ALT_TOKEN_REPLACEMENT (m_grp m 1) = Some op" using alt_token_known by blast
  show "safe Inv (\<lambda>st. case map_of ALT_TOKEN_REPLACEMENT (m_grp m 1) of None \<Rightarrow> Inl (KeyError (m_grp m 1))
     | Some operator \<Rightarrow> error filename (Some (int linenum)) ''readability/alt_tokens'' 2
         (''Use operator '' @ operator @ '' instead of '' @ m_grp m 1) st)"
    unfolding op option.case by (rule listed_report_safe) simp_all
qed

lemma report_virtual_safe: "safe Inv (report_virtual error filename linenum ls)"
proof (induction ls)
  case (Cons line ls)
  show ?case
    unfolding report_virtual.simps
    by (intro safe_bind safe_if safe_option safe_return' listed_report_safe Cons.IH) simp_all
qed (simp add: safe_def)

lemma CheckRedundantVirtual_safe:
  assumes "lines_ok clean" "linenum < NumLines clean"
  shows "safe Inv (CheckRedundantVirtual error filename clean linenum)"
  unfolding CheckRedundantVirtual_def
proof (rule with_line_safe)
  show "linenum < length (elided clean)" using assms by (simp add: lines_ok_def)
  have "\<exists>r. find_parameter_list clean [linenum..<min (linenum + 3) (NumLines clean)] col = Inr r" for col
    by (rule find_parameter_list_returns [OF assms(1)]) simp
  note p = this
  show "safe Inv (\<lambda>st. case Match (raw ''^(.*)(`bvirtual`b)(.*)$'') (elided clean ! linenum) of
         None \<Rightarrow> Inr st
       | Some virtual \<Rightarrow>
           if Search (raw ''`b(public|protected|private)`s+$'') (m_grp virtual 1) \<noteq> None \<or>
              Match (raw ''^`s+(public|protected|private)`b'') (m_grp virtual 3) \<noteq> None
           then Inr st
           else if Match ''^.*[^:]:[^:].*$'' (elided clean ! linenum) \<noteq> None then Inr st
           else
             py_bind (find_parameter_list clean [linenum..<min (linenum + 3) (NumLines clean)] (length (m_grp virtual 2)))
               (\<lambda>(end_line, end_col).
                  if end_col < 0 then Inr st
                  else report_virtual error filename linenum (lines_behind clean end_line (nat end_col)) st))"
    by (intro safe_option safe_if safe_return' safe_value [OF p] safe_prod report_virtual_safe)
qed

lemma CheckRedundantOverrideOrFinal_safe:
  "linenum < length (elided clean) \<Longrightarrow> safe Inv (CheckRedundantOverrideOrFinal error filename clean linenum)"
  unfolding CheckRedundantOverrideOrFinal_def Let_def
  by (rule with_line_safe) (auto split: option.split intro!: check_safe)

lemma FlagCxx11Features_safe:
  "linenum < length (elided clean) \<Longrightarrow> safe Inv (FlagCxx11Features error filename clean linenum)"
  unfolding FlagCxx11Features_def Let_def
  by (rule with_line_safe, assumption, intro safe_flow check_safe) simp_all

lemma FlagCxx14Features_safe:
  "linenum < length (elided clean) \<Longrightarrow> safe Inv (FlagCxx14Features error filename clean linenum)"
  unfolding FlagCxx14Features_def Let_def by (intro check_safe) simp_all

lemma CheckForFunctionLengths_safe:
  assumes "\<And>st. Inv st \<Longrightarrow> 0 \<le> verbose_level (lstate st)" "linenum < length (clean_lines clean)" "Inv st"
  shows "\<exists>fs' st'. CheckForFunctionLengths error filename clean linenum fs st = Inr (fs', st') \<and> Inv st'"
proof -
  have "\<exists>st'. Check error filename (int linenum) fs st = Inr st' \<and> Inv st'"
    by (rule safeD [OF function_check_safe [OF assms(1)] assms(3)])
  moreover have "\<exists>st'. error filename (Some (int linenum)) ''readability/fn_size'' 5 msg st = Inr st' \<and> Inv st'" for msg
    by (rule safeD [OF listed_report_safe assms(3)]) simp_all
  ultimately obtain st1 st2 where
    "Check error filename (int linenum) fs st = Inr st1" "Inv st1"
    "error filename (Some (int linenum)) ''readability/fn_size'' 5 ''Lint failed to find start of function body.'' st = Inr st2" "Inv st2"
    by blast
  with assms(2,3) show ?thesis by (simp add: CheckForFunctionLengths_def split: option.split)
qed

end

lemma Error_verbose:
  "Error filename linenum category confidence message st = Inr st' \<Longrightarrow>
   verbose_level (lstate st') = verbose_level (lstate st)"
  by (auto simp: report_defs Let_def py_bind_Inr_iff IncrementErrorCount_bump split: if_splits)

interpretation Verbose: reporter Error "\<lambda>st. lint_inv st \<and> 0 \<le> verbose_level (lstate st)"
proof unfold_locales
  fix filename linenum category confidence message st
  assume "category \<in> set ERROR_CATEGORIES" "lint_inv st \<and> 0 \<le> verbose_level (lstate st)"
  with Error_safe [of category st filename linenum confidence message]
  show "\<exists>st'. Error filename linenum category confidence message st = Inr st' \<and>
      lint_inv st' \<and> 0 \<le> verbose_level (lstate st')"
    using Error_verbose by metis
qed (simp add: add_suppression_def lint_inv_def)

section \<open>Properties\<close>

text \<open>On every line of every file each of these checks returns and leaves the error state
  consistent: no index is out of range, no keyword is looked up that is not in its table, no
  report has an unknown category or a confidence outside 0 to 5.\<close>

theorem line_checks_safe:
  assumes "linenum < length lines" "lint_inv st" "0 \<le> verbose_level (lstate st)"
  shows "let clean = CleansedLines lines in
    (\<forall>check \<in> set [CheckForMultilineCommentsAndStrings, CheckPosixThreading, CheckVlogArguments,
        CheckInvalidIncrement, CheckMakePairUsesDeduction, CheckAltTokens, CheckRedundantVirtual,
        CheckRedundantOverrideOrFinal, FlagCxx11Features, FlagCxx14Features].
       \<exists>st'. check Error filename clean linenum st = Inr st' \<and> lint_inv st') \<and>
    (\<exists>st'. CheckForNamespaceIndentation Error filename ns clean linenum st = Inr st' \<and> lint_inv st') \<and>
    (\<exists>st'. CheckComment Error (lines ! linenum) filename linenum next_line_start st = Inr st' \<and> lint_inv st') \<and>
    (\<exists>fs' st'. CheckForFunctionLengths Error filename clean linenum fs st = Inr (fs', st') \<and> lint_inv st')"
proof -
  let ?clean = "CleansedLines lines"
  note ok = lines_ok_CleansedLines [of lines]
  have n: "linenum < length (elided ?clean)" "linenum < NumLines ?clean" "linenum < length (clean_lines ?clean)"
    using assms(1) by simp_all
  note safe = Err.CheckForMultiline_safe [OF n(1)] Err.CheckPosixThreading_safe [OF n(1)]
    Err.CheckVlogArguments_safe [OF n(1)] Err.CheckInvalidIncrement_safe [OF n(1)] Err.CheckMakePair_safe [OF n(1)]
    Err.CheckAltTokens_safe [OF n(1)] Err.CheckRedundantVirtual_safe [OF ok n(2)]
    Err.CheckRedundantOverrideOrFinal_safe [OF n(1)] Err.FlagCxx11Features_safe [OF n(1)]
    Err.FlagCxx14Features_safe [OF n(1)] Err.CheckForNamespaceIndentation_safe [OF n(1)] Err.CheckComment_safe
  have "\<exists>fs' st'. CheckForFunctionLengths Error filename ?clean linenum fs st = Inr (fs', st') \<and> lint_inv st'"
    using Verbose.CheckForFunctionLengths_safe [OF _ n(3), of st] assms(2,3) by blast
  then show ?thesis using safe [THEN safeD, OF assms(2)] by (simp add: Let_def)
qed

theorem line_checks_safe_witness:
  "\<exists>st'. CheckAltTokens Error ''a.cc'' (CleansedLines [''if (a and b) {'']) 0 (lint_init CppLintState_init) = Inr st' \<and> lint_inv st'"
proof -
  have "lint_inv (lint_init CppLintState_init)" "0 \<le> verbose_level (lstate (lint_init CppLintState_init))" by code_simp+
  with line_checks_safe [of 0 "[''if (a and b) {'']" "lint_init CppLintState_init" "''a.cc''"] show ?thesis
    by (simp add: Let_def)
qed

end
