(* ===== verification/Spacing_Checks.thy ===== *)
theory Spacing_Checks
  imports Line_Checks Regex_Groups
begin

text \<open>
  The checks of \<open>cpplint.py\<close> on white space: around function calls, operators, parentheses,
  commas, braces and sections, and on blank lines (\<open>CheckSpacing\<close> and its companions), with
  the helpers \<open>_IsType\<close>, \<open>IsDecltype\<close> and \<open>GetPreviousNonBlankLine\<close>.
\<close>

section \<open>Groups and positions of a match\<close>

lemma Match_lead_group:
  assumes "Match pat s = Some m" "lead_group (re_const pat) n" "0 < n"
  shows "length (m_grp m n) < length s" "prefix (m_grp m n) s"
  using lead_group_position [OF assms(2,3)] assms(1) by (auto simp: Match_def)

lemma Match_tail_group: "Match pat s = Some m \<Longrightarrow> tail_group (re_const pat) n \<Longrightarrow> 0 < n \<Longrightarrow> length (m_grp m n) < length s"
  using tail_group_shorter by (auto simp: Match_def)

lemma Match_group_text:
  assumes "Match pat s = Some m" "group_sure (re_const pat) n" "group_in (re_const pat) n ws" "0 < n"
  shows "m_grp m n \<in> set ws"
proof -
  from assms(1) obtain p' s' where "mcap (re_const pat) None s [] p' s' (m_caps m)"
    unfolding Match_def by (rule re_match_caps)
  from group_text [OF this assms(2-4)] show ?thesis .
qed

lemma Search_end: "Search pat s = Some m \<Longrightarrow> consumes (re_const pat) \<Longrightarrow> m_end m - 1 < length s"
  using search_from_end [of "re_const pat" None 0 s m] by (auto simp: Search_def re_search_def)

lemma ReverseCloseExpression_returns:
  assumes "lines_ok clean" "n < NumLines clean" "pos < length (elided clean ! n)"
  shows "\<exists>r. ReverseCloseExpression clean n pos = Inr r"
  using assms by (auto simp: ReverseCloseExpression_def lines_ok_def simp del: split_paired_Ex split: prod.split)

lemma CloseExpression_place:
  assumes "CloseExpression clean n pos = Inr (l, n', p)" "p > -1" "lines_ok clean" "n < NumLines clean"
  shows "n' < NumLines clean" "l = elided clean ! n'" "p \<le> int (length l)"
proof -
  from assms have "n' < NumLines clean \<and> l = elided clean ! n' \<and> p \<le> int (length l)"
    using FindEnd_bounds [of "elided clean ! n" pos "[]"] close_loop_bounds [of clean n]
    by (fastforce simp: CloseExpression_def py_bind_Inr_iff lines_ok_def split: if_splits prod.splits)
  then show "n' < NumLines clean" "l = elided clean ! n'" "p \<le> int (length l)" by auto
qed

section \<open>Function calls\<close>

text \<open>What to look at: the inside of a control structure's parentheses, or the whole line.\<close>

definition call_text :: "string \<Rightarrow> string" where
  "call_text line =
     (case List.find (\<lambda>pattern. Search pattern line \<noteq> None)
        [raw ''`bif`s*`((.*)`)`s*{'', raw ''`bfor`s*`((.*)`)`s*{'',
         raw ''`bwhile`s*`((.*)`)`s*[{;]'', raw ''`bswitch`s*`((.*)`)`s*{''] of
        Some pattern \<Rightarrow> (case Search pattern line of Some m \<Rightarrow> m_grp m 1 | None \<Rightarrow> line)
      | None \<Rightarrow> line)"

definition CheckSpacingForFunctionCall :: "error_fn \<Rightarrow> string \<Rightarrow> cleansed_lines \<Rightarrow> nat \<Rightarrow> action" where
  "CheckSpacingForFunctionCall error filename clean linenum =
     with_line (elided clean) linenum (\<lambda>line.
       let fncall = call_text line; report = error filename (Some (int linenum)) ''whitespace/parens'' in
       whenever (Search (raw ''`b(if|for|while|switch|return|new|delete|catch|sizeof)`b'') fncall = None \<and>
                 Search (raw '' `([^)]+`)`([^)]*(`)|,$)'') fncall = None \<and>
                 Search (raw '' `([^)]+`)`[[^`]]+`]'') fncall = None)
         (run [(if Search (raw ''`w`s*`(`s(?!`s*``$)'') fncall \<noteq> None
                then report 4 ''Extra space after ( in function call''
                else whenever (Search (raw ''`(`s+(?!(`s*``)|`()'') fncall \<noteq> None) (report 2 ''Extra space after ('')),
               whenever (Search (raw ''`w`s+`('') fncall \<noteq> None \<and>
                         Search (raw ''_{0,2}asm_{0,2}`s+_{0,2}volatile_{0,2}`s+`('') fncall = None \<and>
                         Search (raw ''#`s*define|typedef|using`s+`w+`s*='') fncall = None \<and>
                         Search (raw ''`w`s+`((`w+::)*`*`w+`)`('') fncall = None \<and>
                         Search (raw ''`bcase`s+`('') fncall = None)
                 (report (if Search (raw ''`boperator_*`b'') line \<noteq> None then 0 else 4)
                    ''Extra space before ( in function call''),
               whenever (Search (raw ''[^)]`s+`)`s*[^{`s]'') fncall \<noteq> None)
                 (report 2 (if Search (raw ''^`s+`)'') fncall \<noteq> None
                            then ''Closing ) should be moved to the previous line''
                            else ''Extra space before )''))]))"

section \<open>Blank lines, comments and brackets\<close>

text \<open>The loop that goes up over lines indented by six: the number of the line above them.\<close>

fun above_six :: "string list \<Rightarrow> nat \<Rightarrow> nat option" where
  "above_six ls 0 = None"
| "above_six ls (Suc search_position) =
     (if Match (raw '' {6}`w'') (ls ! search_position) \<noteq> None then above_six ls search_position
      else Some search_position)"

definition header_exception :: "string list \<Rightarrow> nat \<Rightarrow> string \<Rightarrow> bool" where
  "header_exception ls linenum prev_line =
     (if Match (raw '' {6}`w'') prev_line \<noteq> None then
        (case above_six ls (linenum - 1) of Some i \<Rightarrow> take 5 (ls ! i) = ''    :'' | None \<Rightarrow> False)
      else Match (raw '' {4}`w[^`(]*`)`s*(const`s*)?(`{`s*$|:)'') prev_line \<noteq> None \<or> Match '' {4}:'' prev_line \<noteq> None)"

text \<open>A brace opened last on the line, and not closed on it.\<close>

definition opens_block :: "string \<Rightarrow> bool" where
  "opens_block prev_line =
     (let prevbrace = str_rfind_char prev_line (CHR ''{'') in
      prevbrace \<noteq> -1 \<and> str_find (drop (nat prevbrace) prev_line) ''}'' = -1)"

definition check_blank_line :: "error_fn \<Rightarrow> string \<Rightarrow> cleansed_lines \<Rightarrow> nat \<Rightarrow> action" where
  \<open>check_blank_line error filename clean linenum st =
     py_bind (py_index (elided clean) (int linenum - 1)) (\<lambda>prev_line.
       run [whenever (opens_block prev_line \<and> \<not> header_exception (elided clean) linenum prev_line)
              (error filename (Some (int linenum)) ''whitespace/blank_line'' 2
                (''Redundant blank line at the start of a code block '' @ ''should be deleted.'')),
            whenever (linenum + 1 < NumLines clean)
              (with_line (lines_without_raw_strings clean) (linenum + 1) (\<lambda>next_line.
                 whenever (next_line \<noteq> [] \<and> Match (raw ''`s*}'') next_line \<noteq> None \<and> str_find next_line ''} else '' = -1)
                   (error filename (Some (int linenum)) ''whitespace/blank_line'' 3
                     (''Redundant blank line at the end of a code block '' @ ''should be deleted.'')))),
            (case Match (raw ''`s*(public|protected|private):'') prev_line of
               Some matched \<Rightarrow> error filename (Some (int linenum)) ''whitespace/blank_line'' 3
                 (''Do not leave a blank line after "'' @ m_grp matched 1 @ '':"'')
             | None \<Rightarrow> Inr)] st)\<close>

text \<open>The first column that is not white space on the line after this one, and 0 at the end.\<close>

definition with_next_line_start :: "cleansed_lines \<Rightarrow> nat \<Rightarrow> (int \<Rightarrow> action) \<Rightarrow> action" where
  "with_next_line_start clean linenum f =
     (if linenum + 1 < NumLines clean
      then with_line (lines_without_raw_strings clean) (linenum + 1) (\<lambda>next_line.
        f (int (length next_line) - int (length (str_lstrip next_line))))
      else f 0)"

definition CheckSpacing :: "error_fn \<Rightarrow> string \<Rightarrow> cleansed_lines \<Rightarrow> nat \<Rightarrow> nesting_state \<Rightarrow> action" where
  "CheckSpacing error filename clean linenum ns =
     with_line (lines_without_raw_strings clean) linenum (\<lambda>line.
       run [whenever (IsBlankLine line \<and> \<not> InNamespaceBody ns \<and> \<not> InExternC ns)
              (check_blank_line error filename clean linenum),
            with_next_line_start clean linenum (\<lambda>next_line_start.
              CheckComment error line filename linenum next_line_start),
            with_line (elided clean) linenum (\<lambda>line.
              run [whenever (Search (raw ''`w`s+`['') line \<noteq> None \<and> Search (raw ''(?:auto&?|delete|return)`s+`['') line = None)
                     (error filename (Some (int linenum)) ''whitespace/braces'' 5 ''Extra space before [''),
                   whenever (Search (raw ''for *`(.*[^:]:[^: ]'') line \<noteq> None \<or> Search (raw ''for *`(.*[^: ]:[^:]'') line \<noteq> None)
                     (error filename (Some (int linenum)) ''whitespace/forcolon'' 2
                       ''Missing space around colon in range-based for loop'')])])"

section \<open>Operators\<close>

definition OPERATOR_METHOD :: string where
  "OPERATOR_METHOD = raw ''^(.*`boperator`b)(`S+)(`s*`(.*)$''"

definition CheckParenthesisSpacing :: "error_fn \<Rightarrow> string \<Rightarrow> cleansed_lines \<Rightarrow> nat \<Rightarrow> action" where
  "CheckParenthesisSpacing error filename clean linenum =
     with_line (elided clean) linenum (\<lambda>line.
       let report = error filename (Some (int linenum)) ''whitespace/parens'' 5 in
       run [(case Search (raw '' (if`(|for`(|while`(|switch`()'') line of
               Some m \<Rightarrow> report (''Missing space before ( in '' @ m_grp m 1)
             | None \<Rightarrow> Inr),
            (case Search (raw ''`b(if|for|while|switch)`s*'' @ raw ''`(([ ]*)(.).*[^ ]+([ ]*)`)`s*{`s*$'') line of
               Some m \<Rightarrow>
                 run [whenever (length (m_grp m 2) \<noteq> length (m_grp m 4) \<and>
                        \<not> (m_grp m 3 = '';'' \<and> length (m_grp m 2) = 1 + length (m_grp m 4) \<or>
                           m_grp m 2 = [] \<and> Search (raw ''`bfor`s*`(.*; `)'') line \<noteq> None))
                        (report (''Mismatching spaces inside () in '' @ m_grp m 1)),
                      whenever (length (m_grp m 2) \<notin> {0, 1})
                        (report (''Should have zero or one spaces inside ( and ) in '' @ m_grp m 1))]
             | None \<Rightarrow> Inr)])"

definition CheckCommaSpacing :: "error_fn \<Rightarrow> string \<Rightarrow> cleansed_lines \<Rightarrow> nat \<Rightarrow> action" where
  "CheckCommaSpacing error filename clean linenum =
     with_line (elided clean) linenum (\<lambda>line.
       run [whenever (Search (raw '',[^,`s]'') (ReplaceAll (raw ''`boperator`s*,`s*`('') ''F('' line) \<noteq> None)
              (with_line (lines_without_raw_strings clean) linenum (\<lambda>raw_line.
                 whenever (Search (raw '',[^,`s]'') raw_line \<noteq> None)
                   (error filename (Some (int linenum)) ''whitespace/comma'' 3 ''Missing space after ,''))),
            whenever (Search (raw '';[^`s};``)/]'') line \<noteq> None)
              (error filename (Some (int linenum)) ''whitespace/semicolon'' 3 ''Missing space after ;'')])"

section \<open>Types\<close>

definition TYPES :: string where
  "TYPES = ''^(?:'' @ ''(char(16_t|32_t)?)|wchar_t|'' @ ''bool|short|int|long|signed|unsigned|float|double|'' @
     ''(ptrdiff_t|size_t|max_align_t|nullptr_t)|'' @ ''(u?int(_fast|_least)?(8|16|32|64)_t)|'' @ ''(u?int(max|ptr)_t)|'' @ '')$''"

text \<open>The last line with \<open>template\<close> from \<open>first_line\<close> back to \<open>next_block_start\<close>.\<close>

fun find_template :: "string list \<Rightarrow> nat \<Rightarrow> nat \<Rightarrow> nat option py" where
  "find_template ls next_block_start 0 = Inr None"
| "find_template ls next_block_start (Suc first_line) =
     (if first_line < next_block_start then Inr None
      else py_bind (py_index ls (int first_line)) (\<lambda>l.
        if str_find l ''template'' \<ge> 0 then Inr (Some first_line) else find_template ls next_block_start first_line))"

text \<open>The walk up the stack of blocks (innermost first).\<close>

fun is_type_param :: "string list \<Rightarrow> string \<Rightarrow> block_info list \<Rightarrow> bool py" where
  "is_type_param ls typename_pattern [] = Inr False"
| "is_type_param ls typename_pattern (b # bs) =
     (if is_namespace b then Inr False
      else
        (let last_line = starting_linenum b;
             next_block_start = (case bs of [] \<Rightarrow> 0 | b2 # _ \<Rightarrow> starting_linenum b2)
         in py_bind (find_template ls next_block_start (Suc last_line)) (\<lambda>found.
              if found \<noteq> None \<and> list_ex (\<lambda>i. Search typename_pattern (ls ! i) \<noteq> None) [the found..<Suc last_line]
              then Inr True else is_type_param ls typename_pattern bs)))"

definition IsType :: "cleansed_lines \<Rightarrow> nesting_state \<Rightarrow> string \<Rightarrow> bool py" where
  "IsType clean ns expr =
     (let token = (case Match (raw ''^.*(`b`S+)$'') expr of Some last_word \<Rightarrow> m_grp last_word 1 | None \<Rightarrow> expr) in
      if re_match (re_const TYPES) token \<noteq> None then Inr True
      else is_type_param (elided clean)
             (raw ''`b(?:typename|class|struct)`s+'' @ re_escape token @ raw ''`b'') (stack ns))"

section \<open>Braces and sections\<close>

text \<open>The text after the closing brace: the rest of its line and up to two more lines.\<close>

definition trailing_text :: "cleansed_lines \<Rightarrow> string \<times> nat \<times> int \<Rightarrow> string" where
  "trailing_text clean = (\<lambda>(endline, endlinenum, endpos).
     (if endpos > -1 then drop (nat endpos) endline else []) @
     concat (map (\<lambda>offset. elided clean ! offset)
       [endlinenum + 1..<min (endlinenum + 3) (NumLines clean - 1)]))"

definition CheckBracesSpacing :: "error_fn \<Rightarrow> string \<Rightarrow> cleansed_lines \<Rightarrow> nat \<Rightarrow> nesting_state \<Rightarrow> action" where
  "CheckBracesSpacing error filename clean linenum ns =
     with_line (elided clean) linenum (\<lambda>line.
       run [(case Match ''^(.*[^ ({>]){'' line of
               None \<Rightarrow> Inr
             | Some m \<Rightarrow> (\<lambda>st.
                 py_bind (CloseExpression clean linenum (length (m_grp m 1))) (\<lambda>e.
                 py_bind (if Match (raw ''^[`s}]*[{.;,)<>`]:]'') (trailing_text clean e) \<noteq> None then Inr True
                          else IsType clean ns (m_grp m 1)) (\<lambda>silent.
                 whenever (\<not> silent)
                   (error filename (Some (int linenum)) ''whitespace/braces'' 5 ''Missing space before {'') st)))),
            whenever (Search ''}else'' line \<noteq> None)
              (error filename (Some (int linenum)) ''whitespace/braces'' 5 ''Missing space before else''),
            (if Search (raw '':`s*;`s*$'') line \<noteq> None then
               error filename (Some (int linenum)) ''whitespace/semicolon'' 5
                 ''Semicolon defining empty statement. Use {} instead.''
             else if Search (raw ''^`s*;`s*$'') line \<noteq> None then
               error filename (Some (int linenum)) ''whitespace/semicolon'' 5
                 (''Line contains only semicolon. If this should be an empty statement, '' @ ''use {} instead.'')
             else
               whenever (Search (raw ''`s+;`s*$'') line \<noteq> None \<and> Search (raw ''`bfor`b'') line = None)
                 (error filename (Some (int linenum)) ''whitespace/semicolon'' 5
                   (''Extra space before last semicolon. If this should be an empty '' @ ''statement, use {} instead.'')))])"

definition IsDecltype :: "cleansed_lines \<Rightarrow> nat \<Rightarrow> nat \<Rightarrow> bool py" where
  "IsDecltype clean linenum column =
     py_bind (ReverseCloseExpression clean linenum column) (\<lambda>(text, _, start_col).
       Inr (\<not> start_col < 0 \<and> Search (raw ''`bdecltype`s*$'') (take (nat start_col) text) \<noteq> None))"

definition CheckSectionSpacing :: "error_fn \<Rightarrow> string \<Rightarrow> cleansed_lines \<Rightarrow> block_info \<Rightarrow> class_data \<Rightarrow> nat \<Rightarrow> action" where
  \<open>CheckSectionSpacing error filename clean b class_info linenum =
     whenever (\<not> (int (last_line class_info) - int (starting_linenum b) \<le> 24 \<or> linenum \<le> starting_linenum b))
       (with_line (clean_lines clean) linenum (\<lambda>line.
          case Match (raw ''`s*(public|protected|private):'') line of
            None \<Rightarrow> Inr
          | Some matched \<Rightarrow>
              with_line (clean_lines clean) (linenum - 1) (\<lambda>prev_line.
                whenever (\<not> IsBlankLine prev_line \<and> Search (raw ''`b(class|struct)`b'') prev_line = None \<and>
                          Search (raw ''``$'') prev_line = None)
                  (let end_class_head =
                         (case List.find (\<lambda>i. Search (raw ''`{`s*$'') (clean_lines clean ! i) \<noteq> None)
                            [starting_linenum b..<linenum] of Some i \<Rightarrow> i | None \<Rightarrow> starting_linenum b)
                   in whenever (end_class_head < linenum - 1)
                        (error filename (Some (int linenum)) ''whitespace/blank_line'' 3
                          (''"'' @ m_grp matched 1 @ '':" should be preceded by a blank line''))))))\<close>

fun previous_non_blank :: "string list \<Rightarrow> nat \<Rightarrow> string \<times> int" where
  "previous_non_blank ls 0 = ([], -1)"
| "previous_non_blank ls (Suc prevlinenum) =
     (if \<not> IsBlankLine (ls ! prevlinenum) then (ls ! prevlinenum, int prevlinenum)
      else previous_non_blank ls prevlinenum)"

definition GetPreviousNonBlankLine :: "cleansed_lines \<Rightarrow> nat \<Rightarrow> string \<times> int" where
  "GetPreviousNonBlankLine clean linenum = previous_non_blank (elided clean) linenum"

section \<open>Hiding the names of operator methods\<close>

definition operator_word :: regex where
  "operator_word = RSeq (RCStar True (CSet True [CChr newline])) (RSeq (RWordB True) (rlits ''operator'' (RWordB True)))"

definition operator_symbol :: regex where
  "operator_symbol = RSeq (RChr (CSet False [CEsc (CHR ''S'')])) (RCStar True (CSet False [CEsc (CHR ''S'')]))"

definition operator_args :: regex where
  "operator_args = RSeq spaces (RSeq (RLit (CHR ''('')) (RCStar True (CSet True [CChr newline])))"

lemma operator_method_re:
  "re_const OPERATOR_METHOD =
     RSeq (RBol False) (RSeq (RGroup 1 operator_word) (RSeq (RGroup 2 operator_symbol)
       (RSeq (RGroup 3 operator_args) (REol False))))"
  by code_simp

lemma operator_parts:
  assumes "mcap operator_symbol p s g p' s' g'"
  shows "length s' < length s" "g' = g"
  using assms consumes_mcap [of operator_symbol] by (auto simp: operator_symbol_def)

lemma after_operator_word:
  assumes "mcap operator_word p s g p' s' g'" "s' = c # t"
  shows "\<not> is_word c" "g' = g"
proof -
  from assms(1) obtain q u where "mcap (rlits ''operator'' (RWordB True)) q u g p' s' g'"
    unfolding operator_word_def by (elim mcap_seqE) (auto simp: mcap_rlits)
  then have "at_wordb (Some CHR ''r'') s'" "g' = g" unfolding mcap_rlits by auto
  moreover have "is_word CHR ''r''" by code_simp
  ultimately show "\<not> is_word c" "g' = g" using assms(2) by (auto simp: at_wordb_def is_word_opt_def head_opt_def)
qed

lemma operator_method_split:
  assumes "Match OPERATOR_METHOD line = Some m"
  obtains a c b d e where "line = a @ (c # b) @ d @ e" "m_grp m 1 = a" "m_grp m 2 = c # b" "m_grp m 3 = d" "\<not> is_word c"
proof -
  from assms obtain p' s' where "mcap (re_const OPERATOR_METHOD) None line [] p' s' (m_caps m)"
    unfolding Match_def by (rule re_match_caps)
  then obtain p0 s0 g0 p1 s1 g1 p2 s2 g2 p3 s3 g3 where 0: "mcap (RBol False) None line [] p0 s0 g0"
    and 1: "mcap (RGroup 1 operator_word) p0 s0 g0 p1 s1 g1"
    and 3: "mcap (RGroup 2 operator_symbol) p1 s1 g1 p2 s2 g2"
    and 4: "mcap (RGroup 3 operator_args) p2 s2 g2 p3 s3 g3" and 5: "mcap (REol False) p3 s3 g3 p' s' (m_caps m)"
    unfolding operator_method_re by (elim mcap_seqE) blast
  from 0 have z: "s0 = line" by simp
  from 1 obtain a h where a: "line = a @ s1" "g1 = (1, a) # h" "mcap operator_word p0 line g0 p1 s1 h"
    unfolding z by (rule mcap_groupE)
  from 3 obtain cb h2 where b: "s1 = cb @ s2" "g2 = (2, cb) # h2" "mcap operator_symbol p1 s1 g1 p2 s2 h2" by (rule mcap_groupE)
  note sym = operator_parts [OF b(3)]
  from 4 obtain d h3 where d: "s2 = d @ s3" "g3 = (3, d) # h3" "mcap operator_args p2 s2 g2 p3 s3 h3" by (rule mcap_groupE)
  from d(3) have "h3 = g2" by (auto simp: operator_args_def)
  with 5 d(2) have caps: "m_caps m = (3, d) # (2, cb) # (1, a) # h" using b(2) sym(2) a(2) by simp
  from b(1) sym(1) obtain c b' where cb: "cb = c # b'" by (cases cb) auto
  have w: "\<not> is_word c" using after_operator_word(1) [OF a(3)] b(1) cb by simp
  show thesis
    by (rule that [of a c b' d s3]) (use a(1) b(1) d(1) caps cb w in \<open>simp_all add: m_grp_def m_group_def\<close>)
qed

text \<open>How many characters are not an underscore: what each round of the loop lowers.\<close>

definition visible :: "string \<Rightarrow> nat" where
  "visible s = length (filter (\<lambda>c. c \<noteq> CHR ''_'') s)"

function hide_operators :: "string \<Rightarrow> string" where
  "hide_operators line =
     (case Match OPERATOR_METHOD line of
        Some m \<Rightarrow> hide_operators (m_grp m 1 @ replicate (length (m_grp m 2)) (CHR ''_'') @ m_grp m 3)
      | None \<Rightarrow> line)"
  by pat_completeness auto
termination
proof (relation "measure visible")
  fix line m assume "Match OPERATOR_METHOD line = Some m"
  then obtain a c b d e where s: "line = a @ (c # b) @ d @ e" "m_grp m 1 = a" "m_grp m 2 = c # b" "m_grp m 3 = d" "\<not> is_word c"
    by (rule operator_method_split)
  have "is_word CHR ''_''" by code_simp
  with s(5) have "c \<noteq> CHR ''_''" by auto
  with s(1-4) show "(m_grp m 1 @ replicate (length (m_grp m 2)) (CHR ''_'') @ m_grp m 3, line) \<in> measure visible"
    by (simp add: visible_def)
qed simp

declare hide_operators.simps [simp del]

lemma hide_operators_length: "length (hide_operators line) \<le> length line"
proof (induction line rule: hide_operators.induct)
  case (1 line)
  show ?case
  proof (cases "Match OPERATOR_METHOD line")
    case None
    then show ?thesis by (simp add: hide_operators.simps)
  next
    case (Some m)
    from Some obtain a c b d e where "line = a @ (c # b) @ d @ e" "m_grp m 1 = a" "m_grp m 2 = c # b" "m_grp m 3 = d"
      by (rule operator_method_split)
    with 1 [OF Some] Some show ?thesis by (subst hide_operators.simps) simp
  qed
qed

text \<open>\<open>str.isdigit\<close> below code point 256.\<close>

definition str_isdigit :: "string \<Rightarrow> bool" where
  "str_isdigit s = (s \<noteq> [] \<and> list_all (\<lambda>c. is_digit c \<or> ord c \<in> {178, 179, 185}) s)"

definition CheckOperatorSpacing :: "error_fn \<Rightarrow> string \<Rightarrow> cleansed_lines \<Rightarrow> nat \<Rightarrow> action" where
  "CheckOperatorSpacing error filename clean linenum =
     with_line (elided clean) linenum (\<lambda>line.
       let line = hide_operators line; report = error filename (Some (int linenum)) ''whitespace/operators'' in
       run [whenever ((Search (raw ''[`w.]='') line \<noteq> None \<or> Search (raw ''=[`w.]'') line \<noteq> None) \<and>
                      Search (raw ''`b(if|while|for) '') line = None \<and>
                      Search (raw ''(>=|<=|==|!=|&=|`^=|`|=|`+=|`*=|`/=|`%=)'') line = None \<and>
                      Search ''operator='' line = None)
              (report 4 ''Missing spaces around =''),
            (case Search (raw ''[^<>=!`s](==|!=|<=|>=|`|`|)[^<>=!`s,;`)]'') line of
               Some m \<Rightarrow> report 3 (''Missing spaces around '' @ m_grp m 1)
             | None \<Rightarrow>
                 whenever (Match ''#.*include'' line = None)
                   (run [(case Match (raw ''^(.*[^`s<])<[^`s=<,]'') line of
                            None \<Rightarrow> Inr
                          | Some m \<Rightarrow> (\<lambda>st.
                              py_bind (CloseExpression clean linenum (length (m_grp m 1))) (\<lambda>(_, _, end_pos).
                                whenever (end_pos \<le> -1) (report 3 ''Missing spaces around <'') st))),
                         (case Match (raw ''^(.*[^-`s>])>[^`s=>,]'') line of
                            None \<Rightarrow> Inr
                          | Some m \<Rightarrow> (\<lambda>st.
                              py_bind (ReverseCloseExpression clean linenum (length (m_grp m 1))) (\<lambda>(_, _, start_pos).
                                whenever (start_pos \<le> -1) (report 3 ''Missing spaces around >'') st)))])),
            (case Search (raw ''(operator|[^`s(<])(?:L|UL|LL|ULL|l|ul|ll|ull)?<<([^`s,=<])'') line of
               None \<Rightarrow> Inr
             | Some m \<Rightarrow>
                 whenever (\<not> (str_isdigit (m_grp m 1) \<and> str_isdigit (m_grp m 2)) \<and>
                           \<not> (m_grp m 1 = ''operator'' \<and> m_grp m 2 = '';''))
                   (report 3 ''Missing spaces around <<'')),
            whenever (Search ''>>[a-zA-Z_]'' line \<noteq> None) (report 3 ''Missing spaces around >>''),
            (case Search (raw ''(!`s|~`s|[`s]--[`s;]|[`s]`+`+[`s;])'') line of
               None \<Rightarrow> Inr
             | Some m \<Rightarrow> report 4 (''Extra space for operator '' @ m_grp m 1))])"

section \<open>Safety\<close>


lemma bracket_groups:
  "lead_group (re_const (raw ''^(.*[^`s<])<[^`s=<,]'')) 1"
  "lead_group (re_const (raw ''^(.*[^-`s>])>[^`s=>,]'')) 1"
  "lead_group (re_const (raw ''^(.*[^ ({>]){'')) 1"
  by code_simp+

lemma find_template_returns:
  "k \<le> length ls \<Longrightarrow> \<exists>r. find_template ls lo k = Inr r \<and> (\<forall>i. r = Some i \<longrightarrow> i < k)"
  by (induction k) (auto simp: less_Suc_eq)

lemma is_type_param_returns:
  "list_all (\<lambda>b. starting_linenum b < length ls) bs \<Longrightarrow> \<exists>r. is_type_param ls pat bs = Inr r"
proof (induction bs)
  case (Cons b bs)
  from Cons.prems have "Suc (starting_linenum b) \<le> length ls" by simp
  from find_template_returns [OF this] obtain r where
    "find_template ls (case bs of [] \<Rightarrow> 0 | b2 # _ \<Rightarrow> starting_linenum b2) (Suc (starting_linenum b)) = Inr r" by blast
  with Cons show ?case by (cases "is_namespace b") (auto simp: Let_def simp del: find_template.simps upt_Suc)
qed auto

text \<open>The blocks on the stack started on lines of the file.\<close>

definition blocks_in_file :: "cleansed_lines \<Rightarrow> nesting_state \<Rightarrow> bool" where
  "blocks_in_file clean ns = list_all (\<lambda>b. starting_linenum b < length (elided clean)) (stack ns)"

lemma IsType_returns: "blocks_in_file clean ns \<Longrightarrow> \<exists>r. IsType clean ns expr = Inr r"
  using is_type_param_returns [of "elided clean" "stack ns"] by (auto simp: IsType_def blocks_in_file_def Let_def)

context reporter
begin

lemma spacing_report_safe:
  "category \<in> {''whitespace/parens'', ''whitespace/blank_line'', ''whitespace/braces'', ''whitespace/forcolon'',
     ''whitespace/operators'', ''whitespace/comma'', ''whitespace/semicolon''} \<Longrightarrow>
   0 \<le> confidence \<Longrightarrow> confidence \<le> 5 \<Longrightarrow> safe Inv (error filename linenum category confidence message)"
  by (rule report_safe) (auto simp: ERROR_CATEGORIES_def)

lemmas spacing_safe = safe_flow with_line_safe safe_return safe_return' spacing_report_safe

lemma CheckSpacingForFunctionCall_safe:
  "linenum < length (elided clean) \<Longrightarrow> safe Inv (CheckSpacingForFunctionCall error filename clean linenum)"
  unfolding CheckSpacingForFunctionCall_def Let_def
  by (intro spacing_safe) simp_all

lemma check_blank_line_safe:
  assumes "NumLines clean = length (lines_without_raw_strings clean)" "elided clean \<noteq> []" "linenum < length (elided clean)"
  shows "safe Inv (check_blank_line error filename clean linenum)"
proof -
  have p: "\<exists>x. py_index (elided clean) (int linenum - 1) = Inr x"
    using assms(2,3) by (cases linenum) (auto simp: py_index_def Suc_le_eq)
  show ?thesis
    unfolding check_blank_line_def
    by (intro safe_value [OF p] spacing_safe) (use assms(1) in simp_all)
qed

lemma CheckSpacing_safe:
  assumes "NumLines clean = length (lines_without_raw_strings clean)" "NumLines clean = length (elided clean)"
    and "linenum < NumLines clean"
  shows "safe Inv (CheckSpacing error filename clean linenum ns)"
proof -
  have e: "elided clean \<noteq> []" "linenum < length (elided clean)" "linenum < length (lines_without_raw_strings clean)"
    using assms by auto
  have n: "safe Inv (with_next_line_start clean linenum f)" if "\<And>i. safe Inv (f i)" for f
    unfolding with_next_line_start_def using assms(1) that by (auto intro: with_line_safe)
  show ?thesis
    unfolding CheckSpacing_def
    by (intro with_line_safe run_Cons_safe run_Nil_safe whenever_safe n check_blank_line_safe CheckComment_safe
        spacing_report_safe e assms(1)) simp_all
qed

lemma CheckOperatorSpacing_safe:
  assumes "lines_ok clean" "linenum < NumLines clean"
  shows "safe Inv (CheckOperatorSpacing error filename clean linenum)"
proof -
  let ?line = "hide_operators (elided clean ! linenum)"
  have l: "linenum < length (elided clean)" using assms by (simp add: lines_ok_def)
  have lt: "\<exists>r. CloseExpression clean linenum (length (m_grp m 1)) = Inr r"
    if "Match (raw ''^(.*[^`s<])<[^`s=<,]'') ?line = Some m" for m
    using Match_lead_group(1) [OF that bracket_groups(1)] hide_operators_length [of "elided clean ! linenum"]
    by (intro CloseExpression_returns [OF assms]) simp
  have gt: "\<exists>r. ReverseCloseExpression clean linenum (length (m_grp m 1)) = Inr r"
    if "Match (raw ''^(.*[^-`s>])>[^`s=>,]'') ?line = Some m" for m
    using Match_lead_group(1) [OF that bracket_groups(2)] hide_operators_length [of "elided clean ! linenum"]
    by (intro ReverseCloseExpression_returns [OF assms]) simp
  show ?thesis
    unfolding CheckOperatorSpacing_def Let_def
    by (intro spacing_safe safe_triple lt gt l) simp_all
qed

lemma CheckParenthesisSpacing_safe:
  "linenum < length (elided clean) \<Longrightarrow> safe Inv (CheckParenthesisSpacing error filename clean linenum)"
  unfolding CheckParenthesisSpacing_def Let_def
  by (intro spacing_safe) simp_all

lemma CheckCommaSpacing_safe:
  "linenum < length (elided clean) \<Longrightarrow> linenum < length (lines_without_raw_strings clean) \<Longrightarrow>
   safe Inv (CheckCommaSpacing error filename clean linenum)"
  unfolding CheckCommaSpacing_def
  by (intro with_line_safe run_Cons_safe run_Nil_safe whenever_safe spacing_report_safe) simp_all

lemma CheckBracesSpacing_safe:
  assumes "lines_ok clean" "linenum < NumLines clean" "blocks_in_file clean ns"
  shows "safe Inv (CheckBracesSpacing error filename clean linenum ns)"
proof -
  have l: "linenum < length (elided clean)" using assms by (simp add: lines_ok_def)
  have c: "\<exists>r. CloseExpression clean linenum (length (m_grp m 1)) = Inr r"
    if "Match ''^(.*[^ ({>]){'' (elided clean ! linenum) = Some m" for m
  proof -
    have "raw ''^(.*[^ ({>]){'' = ''^(.*[^ ({>]){''" by code_simp
    with Match_lead_group(1) [OF that] bracket_groups(3) show ?thesis
      by (intro CloseExpression_returns [OF assms(1,2)]) simp
  qed
  have t: "\<exists>r. (if b then Inr True else IsType clean ns expr) = Inr r" for b expr
    using IsType_returns [OF assms(3)] by (cases b) auto
  show ?thesis
    unfolding CheckBracesSpacing_def
    by (intro spacing_safe safe_value c t l) simp_all
qed

lemma CheckSectionSpacing_safe:
  "linenum < length (clean_lines clean) \<Longrightarrow> safe Inv (CheckSectionSpacing error filename clean b class_info linenum)"
  unfolding CheckSectionSpacing_def Let_def
  by (intro spacing_safe) simp_all

end

end
