(* ===== verification/Py_Path.thy ===== *)
theory Py_Path
  imports Py_Prelude
begin

text \<open>
  The functions of Python's \<open>os.path\<close> that the scripts use, for POSIX path names.  What
  they ask of the system is the record \<open>os_env\<close>: the working directory and which paths
  exist.  It is an argument of every definition that depends on it.
\<close>

record os_env =
  cwd :: string
  path_exists :: "string \<Rightarrow> bool"

section \<open>Definitions\<close>

abbreviation slash :: char where
  "slash \<equiv> CHR ''/''"

text \<open>The part up to and including the last slash, and the part behind it.\<close>

definition path_head :: "string \<Rightarrow> string" where
  "path_head p = rev (dropWhile (\<lambda>c. c \<noteq> slash) (rev p))"

definition path_tail :: "string \<Rightarrow> string" where
  "path_tail p = rev (takeWhile (\<lambda>c. c \<noteq> slash) (rev p))"

definition path_dirname :: "string \<Rightarrow> string" where
  "path_dirname p =
     (let head = path_head p in
      if head \<noteq> [] \<and> \<not> list_all (\<lambda>c. c = slash) head then str_rstrip_chars head [slash] else head)"

definition path_split :: "string \<Rightarrow> string \<times> string" where
  "path_split p = (path_dirname p, path_tail p)"

text \<open>The extension starts at the last dot of the last component, unless only dots precede it there.\<close>

definition path_splitext :: "string \<Rightarrow> string \<times> string" where
  "path_splitext p =
     (let base = path_tail p;
          ext = takeWhile (\<lambda>c. c \<noteq> CHR ''.'') (rev base);
          stem = rev (drop (length ext + 1) (rev base))
      in if CHR ''.'' \<in> set base \<and> \<not> list_all (\<lambda>c. c = CHR ''.'') stem
         then (take (length p - (length ext + 1)) p, CHR ''.'' # rev ext)
         else (p, []))"

definition path_join2 :: "string \<Rightarrow> string \<Rightarrow> string" where
  "path_join2 a b =
     (if startswith b [slash] then b
      else if a = [] \<or> endswith a [slash] then a @ b
      else a @ [slash] @ b)"

text \<open>\<open>os.path.join(*xs)\<close> for a non-empty list.\<close>

definition path_join :: "string list \<Rightarrow> string" where
  "path_join xs = foldl path_join2 (hd xs) (tl xs)"

definition normalize_component :: "bool \<Rightarrow> string list \<Rightarrow> string \<Rightarrow> string list" where
  "normalize_component rooted comps part =
     (if part = [] \<or> part = ''.'' then comps
      else if part \<noteq> ''..'' \<or> \<not> rooted \<and> comps = [] \<or> comps \<noteq> [] \<and> last comps = ''..'' then comps @ [part]
      else butlast comps)"

definition initial_slashes :: "string \<Rightarrow> nat" where
  "initial_slashes p =
     (if \<not> startswith p [slash] then 0
      else if startswith p [slash, slash] \<and> \<not> startswith p [slash, slash, slash] then 2 else 1)"

definition path_normpath :: "string \<Rightarrow> string" where
  "path_normpath p =
     (if p = [] then ''.''
      else
        (let comps = foldl (normalize_component (initial_slashes p > 0)) [] (str_split slash p);
             p' = replicate (initial_slashes p) slash @ str_join [slash] comps
         in if p' = [] then ''.'' else p'))"

definition path_isabs :: "string \<Rightarrow> bool" where
  "path_isabs p = startswith p [slash]"

definition path_abspath :: "os_env \<Rightarrow> string \<Rightarrow> string" where
  "path_abspath env p = path_normpath (if path_isabs p then p else path_join2 (cwd env) p)"

definition path_relpath :: "os_env \<Rightarrow> string \<Rightarrow> string \<Rightarrow> string" where
  "path_relpath env p start =
     (let start_list = filter (\<lambda>x. x \<noteq> []) (str_split slash (path_abspath env start));
          path_list = filter (\<lambda>x. x \<noteq> []) (str_split slash (path_abspath env p));
          i = length (longest_common_prefix start_list path_list);
          rel_list = replicate (length start_list - i) ''..'' @ drop i path_list
      in if rel_list = [] then ''.'' else path_join rel_list)"

text \<open>\<open>os.path.normcase\<close> is the identity on POSIX systems; \<open>os.path.commonprefix\<close> of two strings.\<close>

definition path_commonprefix :: "string \<Rightarrow> string \<Rightarrow> string" where
  "path_commonprefix a b = longest_common_prefix a b"

section \<open>Facts\<close>

lemma path_head_tail: "path_head p @ path_tail p = p"
  by (metis path_head_def path_tail_def rev_append rev_rev_ident takeWhile_dropWhile_id)

lemma path_tail_no_slash: "slash \<notin> set (path_tail p)"
  by (auto simp: path_tail_def dest: set_takeWhileD)

lemma rstrip_chars_prefix: "prefix (str_rstrip_chars s cs) s"
  by (metis str_rstrip_chars_def prefix_def rev_append rev_rev_ident takeWhile_dropWhile_id)

lemma rstrip_chars_last:
  assumes "str_rstrip_chars s cs \<noteq> []"
  shows "last (str_rstrip_chars s cs) \<notin> set cs"
proof -
  have d: "dropWhile (\<lambda>c. c \<in> set cs) (rev s) \<noteq> []" using assms by (simp add: str_rstrip_chars_def)
  from hd_dropWhile [OF this] d show ?thesis by (simp add: str_rstrip_chars_def last_rev)
qed

lemma path_head_last: "path_head p \<noteq> [] \<Longrightarrow> last (path_head p) = slash"
  using hd_dropWhile [of "\<lambda>c. c \<noteq> slash" "rev p"] by (simp add: path_head_def last_rev)

lemma path_dirname_head: "prefix (path_dirname p) (path_head p)"
  by (simp add: path_dirname_def Let_def rstrip_chars_prefix)

lemma path_dirname_prefix: "prefix (path_dirname p) p"
proof -
  have "prefix (path_head p) p" by (metis path_head_tail prefixI)
  with path_dirname_head show ?thesis by (rule prefix_order.trans)
qed

lemma path_dirname_length: "length (path_dirname p) \<le> length p"
  using path_dirname_prefix by (rule prefix_length_le)

lemma path_dirname_shorter: "path_dirname p \<noteq> p \<Longrightarrow> length (path_dirname p) < length p"
  using path_dirname_prefix [of p] by (metis prefix_length_less strict_prefixI)

lemma path_splitext_append: "fst (path_splitext p) @ snd (path_splitext p) = p"
proof -
  let ?b = "path_tail p" and ?P = "\<lambda>c. c \<noteq> CHR ''.''"
  let ?e = "takeWhile ?P (rev ?b)"
  have cut: "take (length p - (length e + 1)) p @ CHR ''.'' # rev e = p" if "p = q @ CHR ''.'' # rev e" for q e
    using that by simp
  have "take (length p - (length ?e + 1)) p @ CHR ''.'' # rev ?e = p" if "CHR ''.'' \<in> set ?b"
  proof -
    from that have "dropWhile ?P (rev ?b) \<noteq> []" by simp
    then obtain c r where c: "dropWhile ?P (rev ?b) = c # r" by (cases "dropWhile ?P (rev ?b)") auto
    then have r: "dropWhile ?P (rev ?b) = CHR ''.'' # r" using hd_dropWhile [of ?P "rev ?b"] by simp
    have "rev ?b = ?e @ CHR ''.'' # r" unfolding r [symmetric] by simp
    then have "rev (rev ?b) = rev (?e @ CHR ''.'' # r)" by (rule arg_cong)
    then have b: "?b = rev r @ CHR ''.'' # rev ?e" by simp
    have "p = path_head p @ ?b" by (simp add: path_head_tail)
    also have "\<dots> = (path_head p @ rev r) @ CHR ''.'' # rev ?e" by (subst b) simp
    finally have "p = (path_head p @ rev r) @ CHR ''.'' # rev ?e" .
    then show ?thesis by (rule cut)
  qed
  then show ?thesis by (simp add: path_splitext_def Let_def)
qed

end
