(* ===== verification/File_Info.thy ===== *)
theory File_Info
  imports Lint_State Py_Path
begin

text \<open>
  Class \<open>FileInfo\<close> of \<open>cpplint.py\<close> (the name of a file relative to its repository) and
  \<open>PathSplitToList\<close>.  A \<open>FileInfo\<close> object holds nothing but the file name, so its methods
  are functions of the name, of the system (\<open>os_env\<close>) and of the module state, from which
  they read \<open>_repository\<close>.

  The climb to the top of an SVN checkout need not end: at the root of the file system the
  directory above is the root again.  It is a \<open>partial_function\<close>, and a climb that does not
  end makes the caller's result \<open>Inl Diverges\<close>.
\<close>

section \<open>Definitions\<close>

definition FullName :: "os_env \<Rightarrow> string \<Rightarrow> string" where
  "FullName env filename = str_replace (path_abspath env filename) [backslash] [slash]"

text \<open>The loop for a repository path given by the user: the directory reached, if any.\<close>

function find_repository :: "os_env \<Rightarrow> string \<Rightarrow> string \<Rightarrow> string option" where
  "find_repository env repo root_dir =
     (if path_exists env root_dir then
        (if root_dir = repo then Some root_dir
         else
           (let one_up_dir = path_dirname root_dir in
            if one_up_dir = root_dir then None else find_repository env repo one_up_dir))
      else None)"
  by pat_completeness auto
termination
  by (relation "measure (\<lambda>(env, repo, root_dir). length root_dir)") (auto dest: path_dirname_shorter)

declare find_repository.simps [simp del]

partial_function (option) svn_root_loop :: "os_env \<Rightarrow> string \<Rightarrow> string \<Rightarrow> string option" where
  "svn_root_loop env root_dir one_up_dir =
     (if path_exists env (path_join2 one_up_dir ''.svn'')
      then svn_root_loop env (path_dirname root_dir) (path_dirname one_up_dir)
      else Some root_dir)"

definition has_vcs :: "os_env \<Rightarrow> string \<Rightarrow> bool" where
  "has_vcs env dir =
     (path_exists env (path_join2 dir ''.git'') \<or> path_exists env (path_join2 dir ''.hg'') \<or>
      path_exists env (path_join2 dir ''.svn''))"

function vcs_root_loop :: "os_env \<Rightarrow> string \<Rightarrow> string \<Rightarrow> string" where
  "vcs_root_loop env root_dir current_dir =
     (if current_dir \<noteq> path_dirname current_dir then
        vcs_root_loop env (if has_vcs env current_dir then current_dir else root_dir) (path_dirname current_dir)
      else root_dir)"
  by pat_completeness auto
termination
  by (relation "measure (\<lambda>(env, root_dir, current_dir). length current_dir)")
    (auto dest: path_dirname_shorter [OF not_sym])

declare vcs_root_loop.simps [simp del]

definition RepositoryName :: "os_env \<Rightarrow> lint \<Rightarrow> string \<Rightarrow> string py" where
  "RepositoryName env st filename =
     (let fullname = FullName env filename in
      if path_exists env fullname then
        (let project_dir = path_dirname fullname;
             in_repository =
               (case repository st of
                  None \<Rightarrow> None
                | Some r \<Rightarrow> if r = [] then None else find_repository env (FullName env r) project_dir)
         in case in_repository of
              Some root_dir \<Rightarrow> Inr (str_replace (path_relpath env fullname root_dir) [backslash] [slash])
            | None \<Rightarrow>
                if path_exists env (path_join2 project_dir ''.svn'') then
                  (case svn_root_loop env project_dir (path_dirname project_dir) of
                     None \<Rightarrow> Inl Diverges
                   | Some root_dir \<Rightarrow> Inr (drop (length (path_commonprefix root_dir project_dir) + 1) fullname))
                else
                  (let root_dir = vcs_root_loop env project_dir project_dir in
                   if has_vcs env root_dir
                   then Inr (drop (length (path_commonprefix root_dir project_dir) + 1) fullname)
                   else Inr fullname))
      else Inr fullname)"

definition Split :: "os_env \<Rightarrow> lint \<Rightarrow> string \<Rightarrow> (string \<times> string \<times> string) py" where
  "Split env st filename =
     py_bind (RepositoryName env st filename) (\<lambda>googlename.
       case path_split googlename of (project, rest) \<Rightarrow>
         (case path_splitext rest of (base, ext) \<Rightarrow> Inr (project, base, ext)))"

definition BaseName :: "os_env \<Rightarrow> lint \<Rightarrow> string \<Rightarrow> string py" where
  "BaseName env st filename = py_bind (Split env st filename) (\<lambda>(project, base, ext). Inr base)"

definition Extension :: "os_env \<Rightarrow> lint \<Rightarrow> string \<Rightarrow> string py" where
  "Extension env st filename = py_bind (Split env st filename) (\<lambda>(project, base, ext). Inr ext)"

definition NoExtension :: "os_env \<Rightarrow> lint \<Rightarrow> string \<Rightarrow> string py" where
  "NoExtension env st filename =
     py_bind (Split env st filename) (\<lambda>(project, base, ext). Inr (str_join [slash] [project, base]))"

definition IsSource :: "os_env \<Rightarrow> lint \<Rightarrow> string \<Rightarrow> bool py" where
  "IsSource env st filename = py_bind (Extension env st filename) (\<lambda>ext. Inr (IsSourceExtension st (tl ext)))"

text \<open>The components of a path, last one first while the loop runs.\<close>

function path_components :: "string \<Rightarrow> string list" where
  "path_components path =
     (case path_split path of (head, tail) \<Rightarrow>
        if head = path then [head]
        else if tail = path then [tail]
        else tail # path_components head)"
  by pat_completeness auto
termination
  by (relation "measure length") (auto simp: path_split_def dest: path_dirname_shorter)

declare path_components.simps [simp del]

definition PathSplitToList :: "string \<Rightarrow> string list" where
  "PathSplitToList path = rev (path_components path)"

section \<open>Lemmas\<close>

lemma vcs_root_prefix:
  "prefix root_dir p \<Longrightarrow> prefix current_dir p \<Longrightarrow> prefix (vcs_root_loop env root_dir current_dir) p"
proof (induction env root_dir current_dir rule: vcs_root_loop.induct)
  case (1 env root_dir current_dir)
  show ?case
    using 1 path_dirname_prefix [of current_dir]
    by (subst vcs_root_loop.simps) (auto intro: prefix_order.trans)
qed

lemma svn_root_prefix: "svn_root_loop env root_dir one_up_dir = Some r \<Longrightarrow> prefix r root_dir"
proof (erule svn_root_loop.raw_induct [where P = "\<lambda>env root_dir one_up_dir r. prefix r root_dir", rotated])
  fix f :: "os_env \<Rightarrow> string \<Rightarrow> string \<Rightarrow> string option" and env root_dir one_up_dir r
  assume "\<And>env root_dir one_up_dir r. f env root_dir one_up_dir = Some r \<Longrightarrow> prefix r root_dir"
    and "(if path_exists env (path_join2 one_up_dir ''.svn'')
          then f env (path_dirname root_dir) (path_dirname one_up_dir) else Some root_dir) = Some r"
  then show "prefix r root_dir"
    using path_dirname_prefix [of root_dir] by (auto split: if_splits) (blast intro: prefix_order.trans)
qed

text \<open>At the root of the file system the climb does not end; anywhere else it goes up.\<close>

lemma svn_root_diverges:
  assumes "path_exists env ''/.svn''"
  shows "svn_root_loop env root_dir ''/'' = None"
proof -
  have d: "path_dirname ''/'' = ''/''" "path_join2 ''/'' ''.svn'' = ''/.svn''" by code_simp+
  have "\<not> (path_exists env ''/.svn'' \<and> one_up = ''/'')" if "svn_root_loop env root_dir one_up = Some r"
    for env root_dir one_up r
  proof (rule svn_root_loop.raw_induct
      [where P = "\<lambda>env root_dir one_up r. \<not> (path_exists env ''/.svn'' \<and> one_up = ''/'')", OF _ that])
    fix f :: "os_env \<Rightarrow> string \<Rightarrow> string \<Rightarrow> string option" and env root_dir one_up r
    assume "\<And>env root_dir one_up r. f env root_dir one_up = Some r \<Longrightarrow> \<not> (path_exists env ''/.svn'' \<and> one_up = ''/'')"
      and "(if path_exists env (path_join2 one_up ''.svn'')
            then f env (path_dirname root_dir) (path_dirname one_up) else Some root_dir) = Some r"
    then show "\<not> (path_exists env ''/.svn'' \<and> one_up = ''/'')"
      using d by (auto split: if_splits)
  qed
  with assms show ?thesis by (cases "svn_root_loop env root_dir ''/''") auto
qed

lemma dirname_fixpoint:
  assumes "path_dirname p = p"
  shows "list_all (\<lambda>c. c = slash) p"
proof (rule ccontr)
  assume n: "\<not> list_all (\<lambda>c. c = slash) p"
  from n have ne: "p \<noteq> []" by auto
  have "prefix p (path_head p)" using path_dirname_head [of p] assms by simp
  moreover have "prefix (path_head p) p" by (metis path_head_tail prefixI)
  ultimately have hp: "path_head p = p" by (rule prefix_order.antisym [rotated])
  with n ne assms have r: "str_rstrip_chars p [slash] = p" by (simp add: path_dirname_def)
  have "last p = slash" using path_head_last [of p] hp ne by simp
  moreover have "last p \<noteq> slash" using rstrip_chars_last [of p "[slash]"] r ne by simp
  ultimately show False by simp
qed

lemma svn_root_returns:
  assumes "\<And>d. list_all (\<lambda>c. c = slash) d \<Longrightarrow> \<not> path_exists env (path_join2 d ''.svn'')"
  shows "\<exists>r. svn_root_loop env root_dir one_up_dir = Some r"
proof (induction "length one_up_dir" arbitrary: root_dir one_up_dir rule: less_induct)
  case less
  show ?case
  proof (cases "path_dirname one_up_dir = one_up_dir")
    case True
    from assms [OF dirname_fixpoint [OF True]] show ?thesis by (simp add: svn_root_loop.simps)
  next
    case False
    from less [OF path_dirname_shorter [OF False]] show ?thesis
      by (subst svn_root_loop.simps) auto
  qed
qed

lemma dirname_last_component:
  assumes "d \<noteq> []" "last d \<noteq> slash" "slash \<notin> set f"
  shows "path_dirname (d @ slash # f) = d"
proof -
  have h: "path_head (d @ slash # f) = d @ [slash]"
    using assms(3) by (simp add: path_head_def dropWhile_append)
  have r: "str_rstrip_chars (d @ [slash]) [slash] = d"
  proof -
    from assms(1,2) obtain ys y where "d = ys @ [y]" "y \<noteq> slash" by (cases d rule: rev_cases) auto
    then show ?thesis by (simp add: str_rstrip_chars_def)
  qed
  have "\<not> list_all (\<lambda>c. c = slash) (d @ [slash])"
  proof
    assume "list_all (\<lambda>c. c = slash) (d @ [slash])"
    then have "\<forall>c \<in> set d. c = slash" by (simp add: list_all_iff)
    with last_in_set [OF assms(1)] have "last d = slash" by blast
    with assms(2) show False ..
  qed
  with h r show ?thesis by (simp add: path_dirname_def)
qed

lemma dirname_below_root: "slash \<notin> set f \<Longrightarrow> path_dirname (slash # f) = ''/''"
  by (simp add: path_dirname_def path_head_def dropWhile_append)

section \<open>Properties\<close>

text \<open>Without a repository given by the user, and if there is no SVN directory at the root
  of the file system, the name of a file relative to its repository is found, and it is a
  final part of the full path name.\<close>

theorem repository_name_suffix:
  assumes "repository st = None \<or> repository st = Some []"
    and "\<forall>d. list_all (\<lambda>c. c = slash) d \<longrightarrow> \<not> path_exists env (path_join2 d ''.svn'')"
  shows "\<exists>name. RepositoryName env st filename = Inr name \<and> suffix name (FullName env filename)"
proof -
  let ?p = "path_dirname (FullName env filename)"
  obtain r where "svn_root_loop env ?p (path_dirname ?p) = Some r"
    using svn_root_returns [of env] assms(2) by blast
  with assms(1) show ?thesis by (auto simp: RepositoryName_def Let_def suffix_drop)
qed

theorem repository_name_suffix_witness:
  "\<exists>name. RepositoryName \<lparr>cwd = ''/home/me'', path_exists = (\<lambda>p. p \<in> {''/home/me/a.h'', ''/home/.git''})\<rparr>
      (lint_init CppLintState_init) ''a.h'' = Inr name \<and>
    suffix name (FullName \<lparr>cwd = ''/home/me'', path_exists = (\<lambda>p. p \<in> {''/home/me/a.h'', ''/home/.git''})\<rparr> ''a.h'')"
proof (rule repository_name_suffix)
  show "\<forall>d. list_all (\<lambda>c. c = slash) d \<longrightarrow>
      \<not> path_exists \<lparr>cwd = ''/home/me'', path_exists = (\<lambda>p. p \<in> {''/home/me/a.h'', ''/home/.git''})\<rparr> (path_join2 d ''.svn'')"
  proof (intro allI impI)
    fix d :: string assume "list_all (\<lambda>c. c = slash) d"
    then have "path_join2 d ''.svn'' = d @ ''.svn''" by (cases d rule: rev_cases) (auto simp: path_join2_def)
    then show "\<not> path_exists \<lparr>cwd = ''/home/me'', path_exists = (\<lambda>p. p \<in> {''/home/me/a.h'', ''/home/.git''})\<rparr> (path_join2 d ''.svn'')"
      by (auto dest: arg_cong [where f = last])
  qed
qed code_simp

text \<open>C36. With SVN directories at the root of the file system and in a directory just below it,
  asking for the repository name of a file in that directory does not return: the climb
  stays at the root for ever.\<close>

theorem repository_name_diverges:
  assumes "FullName env filename = slash # d @ slash # f" "d \<noteq> []" "slash \<notin> set d" "slash \<notin> set f"
    and "path_exists env (FullName env filename)" "repository st = None"
    and "path_exists env (slash # d @ ''/.svn'')" "path_exists env ''/.svn''"
  shows "RepositoryName env st filename = Inl Diverges"
proof -
  from assms(2,3) have l: "last (slash # d) \<noteq> slash" by (cases d rule: rev_cases) auto
  have p: "path_dirname (FullName env filename) = slash # d"
    using dirname_last_component [of "slash # d" f] l assms(1,4) by simp
  have "path_join2 (slash # d) ''.svn'' = slash # d @ ''/.svn''"
    using l assms(2) by (simp add: path_join2_def endswith_char)
  with p assms(5-8) svn_root_diverges [OF assms(8), of "slash # d"] dirname_below_root [OF assms(3)] show ?thesis
    by (simp add: RepositoryName_def)
qed

theorem repository_name_diverges_witness:
  "RepositoryName \<lparr>cwd = ''/w'', path_exists = (\<lambda>p. True)\<rparr> (lint_init CppLintState_init) ''a.h'' = Inl Diverges"
  by (rule repository_name_diverges [where d = "''w''" and f = "''a.h''"]) code_simp+

text \<open>\<open>Split\<close> takes the repository name apart without loss: the base name and the extension
  contain no slash and together end the name, the extension is empty or begins with a dot,
  and the directory is an initial part of the name.\<close>

theorem split_recombines:
  assumes "Split env st filename = Inr (project, base, ext)"
  shows "\<exists>name. RepositoryName env st filename = Inr name \<and> suffix (base @ ext) name \<and> prefix project name \<and>
    slash \<notin> set (base @ ext) \<and> (ext = [] \<or> hd ext = CHR ''.'')"
proof -
  from assms obtain name where n: "RepositoryName env st filename = Inr name"
    and s: "project = path_dirname name" "path_splitext (path_tail name) = (base, ext)"
    by (auto simp: Split_def py_bind_Inr_iff path_split_def split: prod.splits)
  have be: "base @ ext = path_tail name" using path_splitext_append [of "path_tail name"] s(2) by simp
  have "ext = [] \<or> hd ext = CHR ''.''" using s(2) by (auto simp: path_splitext_def Let_def split: if_splits)
  moreover have "suffix (path_tail name) name" by (metis path_head_tail suffixI)
  ultimately show ?thesis
    using n s(1) path_dirname_prefix [of name] path_tail_no_slash [of name] unfolding be by blast
qed

theorem split_recombines_witness:
  "\<exists>name. RepositoryName \<lparr>cwd = ''/w'', path_exists = (\<lambda>p. False)\<rparr> (lint_init CppLintState_init) ''d/a.tar.h'' = Inr name \<and>
    suffix (''a.tar'' @ ''.h'') name \<and> prefix ''/w/d'' name \<and>
    slash \<notin> set (''a.tar'' @ ''.h'') \<and> (''.h'' = [] \<or> hd ''.h'' = CHR ''.'')"
  by (rule split_recombines) code_simp

end
