(* ===== verification/Header_Guard.thy ===== *)
theory Header_Guard
  imports File_Info Cleansing
begin

text \<open>
  The include guard of a header: the variable that should be used
  (\<open>GetHeaderGuardCPPVariable\<close>) and the check of the \<open>#ifndef\<close>, \<open>#define\<close> and
  \<open>#endif\<close> lines (\<open>CheckForHeaderGuard\<close> of \<open>cpplint.py\<close>).  The debugging output
  under \<open>_root_debug\<close>, a constant False of the module, is left out.
\<close>

section \<open>The guard variable\<close>

definition StripListPrefix :: "string list \<Rightarrow> string list \<Rightarrow> string list option" where
  "StripListPrefix lst pre = (if take (length pre) lst \<noteq> pre then None else Some (drop (length pre) lst))"

definition FixupPathFromRoot :: "os_env \<Rightarrow> lint \<Rightarrow> string \<Rightarrow> string \<Rightarrow> string" where
  "FixupPathFromRoot env st filename file_path_from_root =
     (case root st of
        None \<Rightarrow> file_path_from_root
      | Some r \<Rightarrow>
          if r = [] then file_path_from_root
          else
            (let maybe_path = StripListPrefix (PathSplitToList file_path_from_root) (PathSplitToList r) in
             if maybe_path \<noteq> None \<and> maybe_path \<noteq> Some [] then path_join (the maybe_path)
             else
               (let maybe_path = StripListPrefix (PathSplitToList (FullName env filename))
                                   (PathSplitToList (path_abspath env r)) in
                if maybe_path \<noteq> None \<and> maybe_path \<noteq> Some [] then path_join (the maybe_path)
                else file_path_from_root)))"

definition restore_flymake :: "string \<Rightarrow> string" where
  "restore_flymake filename =
     (let filename = re_sub (re_const (raw ''_flymake`.h$'')) ''.h'' filename
      in re_sub_with (re_const (raw ''/`.flymake/([^/]*)$'')) (\<lambda>m. ''/'' @ m_grp m 1) filename)"

definition GetHeaderGuardCPPVariable :: "os_env \<Rightarrow> lint \<Rightarrow> string \<Rightarrow> string py" where
  "GetHeaderGuardCPPVariable env st filename =
     (let filename = restore_flymake filename;
          filename = str_replace (str_replace filename ''C++'' ''cpp'') ''c++'' ''cpp''
      in py_bind (RepositoryName env st filename) (\<lambda>file_path_from_root.
           let file_path_from_root = FixupPathFromRoot env st filename file_path_from_root
           in Inr (str_upper (re_sub (re_const ''[^a-zA-Z0-9]'') ''_'' file_path_from_root) @ ''_'')))"

section \<open>The check\<close>

text \<open>What the loop over the lines remembers.\<close>

record guard_scan =
  g_ifndef :: string
  g_ifndef_linenum :: nat
  g_define :: string
  g_endif :: string
  g_endif_linenum :: nat

definition guard_scan_init :: guard_scan where
  "guard_scan_init = \<lparr>g_ifndef = [], g_ifndef_linenum = 0, g_define = [], g_endif = [], g_endif_linenum = 0\<rparr>"

definition guard_step :: "nat \<times> string \<Rightarrow> guard_scan \<Rightarrow> guard_scan" where
  "guard_step = (\<lambda>(linenum, line) g.
     (let linesplit = str_words line;
          g = (if length linesplit \<ge> 2 \<and> g_ifndef g = [] \<and> linesplit ! 0 = ''#ifndef''
               then g\<lparr>g_ifndef := linesplit ! 1, g_ifndef_linenum := linenum\<rparr> else g);
          g = (if length linesplit \<ge> 2 \<and> g_define g = [] \<and> linesplit ! 0 = ''#define''
               then g\<lparr>g_define := linesplit ! 1\<rparr> else g)
      in if startswith line ''#endif'' then g\<lparr>g_endif := line, g_endif_linenum := linenum\<rparr> else g))"

definition scan_guard :: "string list \<Rightarrow> guard_scan" where
  "scan_guard rlines = fold guard_step (List.enumerate 0 rlines) guard_scan_init"

definition LINE_WITH_COMMENT :: string where
  \<open>LINE_WITH_COMMENT = raw ''^(?:(?:`\'(?:`.|[^`\'])*`\')|(?:"(?:`.|[^"])*")|[^`\'"])*//''\<close>

definition endif_error :: "error_fn \<Rightarrow> string \<Rightarrow> nat \<Rightarrow> int \<Rightarrow> string \<Rightarrow> action" where
  \<open>endif_error error filename linenum level guard =
     error filename (Some (int linenum)) ''build/header_guard'' level
       (''#endif line should be "#endif  '' @ guard @ ''"'')\<close>

text \<open>The comment on the \<open>#endif\<close> line.\<close>

definition check_endif :: "error_fn \<Rightarrow> string \<Rightarrow> string list \<Rightarrow> string \<Rightarrow> guard_scan \<Rightarrow> action" where
  "check_endif error filename rlines cppvar g =
     (case Match (raw ''#endif`s*//`s*'' @ cppvar @ raw ''(_)?`b'') (g_endif g) of
        Some m \<Rightarrow> whenever (m_group m 1 = Some ''_'')
                    (endif_error error filename (g_endif_linenum g) 0 (''// '' @ cppvar))
      | None \<Rightarrow>
          (let no_single_line_comments =
                 \<not> list_ex (\<lambda>line. Match LINE_WITH_COMMENT line \<noteq> None) (drop 1 (take (length rlines - 1) rlines));
               found = (if no_single_line_comments
                        then Match (raw ''#endif`s*/`*`s*'' @ cppvar @ raw ''(_)?`s*`*/'') (g_endif g) else None)
           in case found of
                Some m \<Rightarrow> whenever (m_group m 1 = Some ''_'')
                            (endif_error error filename (g_endif_linenum g) 0 (''/* '' @ cppvar @ '' */''))
              | None \<Rightarrow> endif_error error filename (g_endif_linenum g) 5 (''// '' @ cppvar)))"

definition nolint_at :: "error_fn \<Rightarrow> string \<Rightarrow> string list \<Rightarrow> nat \<Rightarrow> action" where
  "nolint_at error filename rlines linenum st =
     py_bind (py_index rlines (int linenum)) (\<lambda>l. ParseNolintSuppressions error filename l (int linenum) st)"

definition CheckForHeaderGuard :: "os_env \<Rightarrow> error_fn \<Rightarrow> string \<Rightarrow> cleansed_lines \<Rightarrow> action" where
  "CheckForHeaderGuard env error filename clean st =
     (let rlines = lines_without_raw_strings clean in
      if list_ex (\<lambda>i. Search (raw ''//`s*NOLINT`(build/header_guard`)'') i \<noteq> None) rlines then Inr st
      else if list_ex (\<lambda>i. Search (raw ''^`s*#pragma`s+once'') i \<noteq> None) rlines then Inr st
      else
        py_bind (GetHeaderGuardCPPVariable env st filename) (\<lambda>cppvar.
          let g = scan_guard rlines in
          if g_ifndef g = [] \<or> g_define g = [] \<or> g_ifndef g \<noteq> g_define g then
            error filename (Some 0) ''build/header_guard'' 5
              (''No #ifndef header guard found, suggested CPP variable is: '' @ cppvar) st
          else
            run [whenever (g_ifndef g \<noteq> cppvar)
                   (run [nolint_at error filename rlines (g_ifndef_linenum g),
                         error filename (Some (int (g_ifndef_linenum g))) ''build/header_guard''
                           (if g_ifndef g \<noteq> cppvar @ ''_'' then 5 else 0)
                           (''#ifndef header guard has wrong style, please use: '' @ cppvar)]),
                 nolint_at error filename rlines (g_endif_linenum g),
                 check_endif error filename rlines cppvar g] st))"

section \<open>Lemmas: the variable\<close>

definition guard_char :: "char \<Rightarrow> bool" where
  "guard_char c = (is_upper c \<or> is_digit c \<or> c = CHR ''_'')"

lemma upper_alnum:
  assumes "citem_match (CRange CHR ''a'' CHR ''z'') c \<or> citem_match (CRange CHR ''A'' CHR ''Z'') c
    \<or> citem_match (CRange CHR ''0'' CHR ''9'') c"
  shows "guard_char (upper_char c)"
proof -
  have o: "ord (char_of (n::nat)) = n" if "n < 256" for n using that by (simp add: ord_def)
  have r: "ord CHR ''a'' = 97" "ord CHR ''z'' = 122" "ord CHR ''A'' = 65" "ord CHR ''Z'' = 90"
    "ord CHR ''0'' = 48" "ord CHR ''9'' = 57" by (simp_all add: ord_def)
  from assms show ?thesis
    by (auto simp: r guard_char_def upper_char_def is_upper_def is_digit_def is_lower_def Let_def o)
qed

lemma guard_var_chars:
  assumes "GetHeaderGuardCPPVariable env st filename = Inr v"
  shows "list_all guard_char v" "v \<noteq> []" "last v = CHR ''_''"
proof -
  have re: "re_const ''[^a-zA-Z0-9]'' = RChr (CSet True [CRange CHR ''a'' CHR ''z'', CRange CHR ''A'' CHR ''Z'', CRange CHR ''0'' CHR ''9''])"
    by code_simp
  from assms obtain p where v: "v = str_upper (re_sub (re_const ''[^a-zA-Z0-9]'') ''_'' p) @ ''_''"
    by (auto simp: GetHeaderGuardCPPVariable_def Let_def py_bind_Inr_iff)
  have u: "guard_char (upper_char CHR ''_'')" "guard_char CHR ''_''" by code_simp+
  have "guard_char (upper_char (if cmatch (CSet True [CRange CHR ''a'' CHR ''z'', CRange CHR ''A'' CHR ''Z'', CRange CHR ''0'' CHR ''9'']) c
      then CHR ''_'' else c))" for c
    using u upper_alnum [of c] by (auto simp del: citem_match.simps)
  with u show "list_all guard_char v"
    by (auto simp: v re re_sub_char str_upper_def list_all_iff simp del: cmatch.simps)
  show "v \<noteq> []" "last v = CHR ''_''" by (simp_all add: v)
qed

lemma guard_char_word: "guard_char c \<Longrightarrow> is_word c \<and> \<not> is_space c"
  by (auto simp: guard_char_def is_word_def is_space_def is_upper_def is_digit_def Let_def ord_def)

section \<open>Lemmas: a pattern with the variable in it\<close>

lemma guard_char_plain: "guard_char c \<Longrightarrow> plain_re_char c"
  by (auto simp: guard_char_def plain_re_char_def raw_def is_upper_def is_digit_def Let_def ord_def)

lemma parse_endif_comment:
  assumes "list_all plain_re_char v" "v \<noteq> []" "hd v \<noteq> CHR ''?''"
  shows "re_const (raw ''#endif`s*//`s*'' @ v @ raw ''(_)?`b'') =
    rseqs (map RLit ''#endif'' @ [spaces] @ map RLit ''//'' @ [spaces] @ map RLit v @
      [RAlt (RGroup 1 (RLit CHR ''_'')) REmpty, RWordB True])"
proof -
  obtain c cs where v: "v = c # cs" using assms(2) by (cases v) auto
  let ?p = "raw ''#endif`s*//`s*'' @ v @ raw ''(_)?`b''"
  have p: "?p = ''#endif'' @ (backslash # CHR ''s'' # CHR ''*'' # CHR ''/'' # CHR ''/'' # backslash # CHR ''s'' # CHR ''*'' # v @ raw ''(_)?`b'')"
    by (simp add: raw_def backslash_def)
  have lits: "list_all plain_re_char ''#endif''" "list_all plain_re_char ''//''" by code_simp+
  have tail: "parse_re (9 + 0) no_flags 0 [] [] cur False (raw ''(_)?`b'') =
      Some (rseqs (rev cur @ [RAlt (RGroup 1 (RLit CHR ''_'')) REmpty, RWordB True]))" for cur
    by (simp add: raw_def parse_re.simps quantifier_def backslash_def eval_nat_numeral lit_node_def no_flags_def
        mk_opt_def)
  have "re_compile ?p = parse_re (length ''#endif'' + Suc (Suc (length ''//'' + Suc (Suc (length v + 9))))) no_flags 0 [] [] [] False ?p"
    unfolding re_compile_def re_compile_flags_def by (rule arg_cong [where f = "\<lambda>k. parse_re k no_flags 0 [] [] [] False ?p"])
      (simp add: raw_def)
  also have "\<dots> = parse_re (length ''//'' + Suc (Suc (length v + 9))) no_flags 0 [] [] (spaces # rev (map RLit ''#endif'')) True
      (''//'' @ backslash # CHR ''s'' # CHR ''*'' # v @ raw ''(_)?`b'')"
    unfolding p by (subst parse_literal [OF lits(1)], simp, subst parse_spaces, simp, simp only: append_Cons append_Nil append_Nil2)
  also have "\<dots> = parse_re (length v + 9) no_flags 0 [] [] (spaces # rev (map RLit ''//'') @ spaces # rev (map RLit ''#endif'')) True
      (v @ raw ''(_)?`b'')"
    using assms(3) unfolding v
    by (subst parse_literal [OF lits(2)], simp, subst append_Cons, subst parse_spaces, simp, simp only: append_Cons append_Nil)
  also have "\<dots> = Some (rseqs (rev (rev (map RLit v) @ spaces # rev (map RLit ''//'') @ spaces # rev (map RLit ''#endif''))
      @ [RAlt (RGroup 1 (RLit CHR ''_'')) REmpty, RWordB True]))"
    by (subst parse_literal [OF assms(1,2)]) (simp only: tail [simplified] One_nat_def)
  finally show ?thesis by (simp add: re_const_def)
qed


definition endif_pattern :: "string \<Rightarrow> string" where
  "endif_pattern v = raw ''#endif`s*//`s*'' @ v @ raw ''(_)?`b''"

abbreviation "endif_tail \<equiv> [RAlt (RGroup 1 (RLit CHR ''_'')) REmpty, RWordB True]"

lemma endif_regex:
  assumes "list_all guard_char v" "v \<noteq> []"
  shows "re_const (endif_pattern v) =
    rseqs (map RLit ''#endif'' @ [spaces] @ map RLit ''//'' @ [spaces] @ map RLit v @ endif_tail)"
proof -
  have "guard_char (hd v)" using assms by (auto simp: list_all_iff)
  then have "hd v \<noteq> CHR ''?''" using guard_char_plain [of "hd v"] by (auto simp: plain_re_char_def raw_def)
  moreover have "list_all plain_re_char v" using assms(1) guard_char_plain by (auto simp: list_all_iff)
  ultimately show ?thesis unfolding endif_pattern_def using assms(2) by (intro parse_endif_comment)
qed

lemma endif_comment_matches:
  assumes v: "list_all guard_char v" "v \<noteq> []"
  shows "matches (re_const (endif_pattern v)) None (''#endif  // '' @ v) (Some (last v)) []"
  unfolding endif_regex [OF v]
proof (subst matches_lits, simp, intro exI conjI)
  show "''#endif  // '' @ v = ''#endif'' @ ''  // '' @ v" by simp
  have "is_space CHR '' ''" by code_simp
  then have l: "list_all (cmatch (CSet False [CEsc CHR ''s''])) ''  ''" "list_all (cmatch (CSet False [CEsc CHR ''s''])) '' ''"
    by (simp_all add: esc_class_def)
  have c: "cstar_to (CSet False [CEsc CHR ''s'']) (Some CHR ''f'') (''  // '' @ v) (Some CHR '' '') (''// '' @ v)"
    using cstar_to_append [OF l(1), of "Some CHR ''f''" "''// '' @ v"] by simp
  have c2: "cstar_to (CSet False [CEsc CHR ''s'']) (Some CHR ''/'') ('' '' @ v) (Some CHR '' '') v"
    using cstar_to_append [OF l(2), of "Some CHR ''/''" v] by simp
  have "guard_char (last v)" using v by (auto simp: list_all_iff)
  then have "at_wordb (Some (last v)) []"
    using guard_char_word [of "last v"] by (simp add: at_wordb_def is_word_opt_def head_opt_def)
  then have "matches (rseqs endif_tail) (Some (last v)) [] (Some (last v)) []" by simp
  then have "matches (rseqs (map RLit v @ endif_tail)) (Some CHR '' '') v (Some (last v)) []"
    using v(2) by (subst matches_lits) auto
  then have "matches (rseqs ([spaces] @ map RLit v @ endif_tail)) (Some CHR ''/'') ('' '' @ v) (Some (last v)) []"
    using c2 by (subst append_Cons, subst rseqs_Cons) auto
  then have "matches (rseqs (map RLit ''//'' @ [spaces] @ map RLit v @ endif_tail)) (Some CHR '' '') (''// '' @ v) (Some (last v)) []"
    by (subst matches_lits) auto
  then show "matches (rseqs ([spaces] @ map RLit ''//'' @ [spaces] @ map RLit v @ endif_tail))
     (if ''#endif'' = [] then None else Some (last ''#endif'')) (''  // '' @ v) (Some (last v)) []"
    using c by (subst append_Cons, subst rseqs_Cons) auto
qed

lemma endif_comment_caps:
  assumes v: "list_all guard_char v" "v \<noteq> []" and m: "mcap (re_const (endif_pattern v)) None (''#endif  // '' @ v) [] p' s' g"
  shows "g = []"
proof -
  from m obtain t1 where t1: "''#endif  // '' @ v = ''#endif'' @ t1"
      "mcap (rseqs ([spaces] @ map RLit ''//'' @ [spaces] @ map RLit v @ endif_tail)) (Some CHR ''f'') t1 [] p' s' g"
    unfolding endif_regex [OF v] by (subst (asm) mcap_lits) auto
  from t1(2) obtain a t2 q1 where t2: "t1 = a @ t2" "list_all is_space a"
      "mcap (rseqs (map RLit ''//'' @ [spaces] @ map RLit v @ endif_tail)) q1 t2 [] p' s' g"
    by (rule mcap_spaces) simp
  from t2(3) obtain t3 where t3: "t2 = ''//'' @ t3"
      "mcap (rseqs ([spaces] @ map RLit v @ endif_tail)) (Some CHR ''/'') t3 [] p' s' g"
    by (subst (asm) mcap_lits) auto
  from t3(2) obtain b t4 q2 where t4: "t3 = b @ t4" "list_all is_space b"
      "mcap (rseqs (map RLit v @ endif_tail)) q2 t4 [] p' s' g"
    by (rule mcap_spaces) simp
  from t4(3) obtain t where t: "t4 = v @ t" "mcap (rseqs endif_tail) (Some (last v)) t [] p' s' g"
    using v(2) by (subst (asm) mcap_lits) auto
  from t1(1) t2(1) t3(1) t4(1) t(1) have d: "''  '' @ ''// '' @ v = a @ ''//'' @ b @ v @ t" by simp
  have "guard_char (hd v)" using v by (auto simp: list_all_iff)
  then have ns: "\<not> is_space (hd v)" "\<not> is_space CHR ''/''" "is_space CHR '' ''"
    using guard_char_word [of "hd v"] by (simp, code_simp+)
  from span_unique [OF d, of is_space] t2(2) ns have "''// '' @ v = ''//'' @ b @ v @ t" by simp
  then have "'' '' @ v = b @ (v @ t)" by simp
  from span_unique [OF this, of is_space] t4(2) ns v(2) have "t = []" by (cases v) auto
  with t(2) show ?thesis by auto
qed

lemma endif_comment_found:
  assumes v: "list_all guard_char v" "v \<noteq> []"
  shows "\<exists>m. Match (raw ''#endif`s*//`s*'' @ v @ raw ''(_)?`b'') (''#endif  // '' @ v) = Some m \<and> m_group m 1 = None"
proof -
  from endif_comment_matches [OF v] have "re_match (re_const (endif_pattern v)) (''#endif  // '' @ v) \<noteq> None"
    using re_match_iff by blast
  then obtain m where m: "re_match (re_const (endif_pattern v)) (''#endif  // '' @ v) = Some m" by auto
  then obtain p' s' where "mcap (re_const (endif_pattern v)) None (''#endif  // '' @ v) [] p' s' (m_caps m)" by (rule re_match_caps)
  from endif_comment_caps [OF v this] m show ?thesis by (auto simp: Match_def m_group_def endif_pattern_def)
qed

lemma guard_no_nolint:
  assumes v: "list_all guard_char v" "v \<noteq> []" "last v = CHR ''_''"
  shows "Search (raw ''`bNOLINT(NEXTLINE)?`b(`([^)]+`))?'') (''#endif  // '' @ v) = None"
proof (rule ccontr)
  assume "\<not> ?thesis"
  then have "re_search (RSeq (RWordB True) (rlits ''NOLINT'' nolint_tail)) (''#endif  // '' @ v) \<noteq> None"
    by (simp only: Search_def nolint_re not_False_eq_True)
  then obtain t u p p' s' where tu: "''#endif  // '' @ v = t @ u"
      and m: "matches (RSeq (RWordB True) (rlits ''NOLINT'' nolint_tail)) p u p' s'"
    using re_search_iff [of "RSeq (RWordB True) (rlits ''NOLINT'' nolint_tail)" "''#endif  // '' @ v"] by blast
  from m obtain u1 where u1: "u = ''NOLINT'' @ u1" "matches nolint_tail (Some CHR ''T'') u1 p' s'"
    by auto
  then obtain q u2 where q: "matches (RAlt (RGroup 1 (rseqs (map RLit ''NEXTLINE''))) REmpty) (Some CHR ''T'') u1 q u2"
      "at_wordb q u2"
    unfolding nolint_tail_def matches.simps(4,10) by blast
  then obtain c where u2: "u1 = u2 \<and> c = CHR ''T'' \<or> u1 = ''NEXTLINE'' @ u2 \<and> c = CHR ''E''" "at_wordb (Some c) u2"
    by auto
  have "is_word c" using u2(1) nolint_word_chars(4,5) by auto
  with u2(2) have h: "\<not> is_word_opt (head_opt u2)" by (simp add: at_wordb_def is_word_opt_def)
  have "length ''#endif  // '' \<le> length t"
  proof (rule ccontr)
    assume l: "\<not> length ''#endif  // '' \<le> length t"
    have "hd u = (t @ u) ! length t" using u1(1) by (simp add: nth_append)
    also have "\<dots> = (''#endif  // '' @ v) ! length t" by (simp only: tu)
    also have "\<dots> = ''#endif  // '' ! length t" using l by (subst nth_append) (simp only: not_le if_True)
    finally have "CHR ''N'' \<in> set ''#endif  // ''" using u1(1) l nth_mem [of "length t" "''#endif  // ''"] by simp
    then show False by simp
  qed
  with tu obtain t' where v': "v = t' @ u" by (auto simp: append_eq_append_conv2 Cons_eq_append_conv)
  show False
  proof (cases u2)
    case Nil
    with u1(1) u2(1) v' v(3) show False by auto
  next
    case (Cons x xs)
    with u1(1) u2(1) v' have "x \<in> set v" by auto
    with v(1) guard_char_word have "is_word x" by (auto simp: list_all_iff)
    with h Cons show False by (simp add: is_word_opt_def head_opt_def)
  qed
qed

section \<open>Lemmas: the scan for the guard lines\<close>

lemma str_split_none: "c \<notin> set w \<Longrightarrow> str_split c w = [w]"
  by (induction w) auto

lemma str_split_sep: "c \<notin> set a \<Longrightarrow> str_split c (a @ c # b) = a # str_split c b"
  by (induction a) (auto split: list.splits)

lemma str_words_two:
  assumes "a \<noteq> []" "b \<noteq> []" "list_all (\<lambda>c. \<not> is_space c) a" "list_all (\<lambda>c. \<not> is_space c) b"
  shows "str_words (a @ '' '' @ b) = [a, b]"
proof -
  have sp: "is_space CHR '' ''" by code_simp
  have id: "map (\<lambda>c. if is_space c then CHR '' '' else c) w = w" if "list_all (\<lambda>c. \<not> is_space c) w" for w
    using that by (auto simp: list_all_iff intro!: map_idI)
  have ns: "CHR '' '' \<notin> set w" if "list_all (\<lambda>c. \<not> is_space c) w" for w
    using that sp by (auto simp: list_all_iff)
  show ?thesis
    using assms ns [OF assms(3)] ns [OF assms(4)]
    by (simp add: str_words_def id [OF assms(3)] id [OF assms(4)] sp str_split_sep str_split_none)
qed

text \<open>A line that can neither open a guard nor close one.\<close>

definition no_guard_start :: "string \<Rightarrow> bool" where
  "no_guard_start line = (\<not> (length (str_words line) \<ge> 2 \<and> str_words line ! 0 \<in> {''#ifndef'', ''#define''}))"

lemma fold_guard_before:
  "list_all no_guard_start ls \<Longrightarrow> g_ifndef g = [] \<Longrightarrow> g_define g = [] \<Longrightarrow>
   (let g' = fold guard_step (List.enumerate n ls) g in g_ifndef g' = [] \<and> g_define g' = [])"
proof (induction ls arbitrary: n g)
  case Nil
  then show ?case by simp
next
  case (Cons l ls)
  have "g_ifndef (guard_step (n, l) g) = [] \<and> g_define (guard_step (n, l) g) = []"
    using Cons.prems by (auto simp: guard_step_def no_guard_start_def Let_def)
  with Cons show ?case by simp
qed

lemma fold_guard_after:
  "g_ifndef g \<noteq> [] \<Longrightarrow> g_define g \<noteq> [] \<Longrightarrow>
   (let g' = fold guard_step (List.enumerate n ls) g in
     g_ifndef g' = g_ifndef g \<and> g_ifndef_linenum g' = g_ifndef_linenum g \<and> g_define g' = g_define g \<and>
     (list_all (\<lambda>l. \<not> startswith l ''#endif'') ls \<longrightarrow> g_endif g' = g_endif g \<and> g_endif_linenum g' = g_endif_linenum g))"
proof (induction ls arbitrary: n g)
  case Nil
  then show ?case by simp
next
  case (Cons l ls)
  have "g_ifndef (guard_step (n, l) g) = g_ifndef g" "g_define (guard_step (n, l) g) = g_define g"
    "g_ifndef_linenum (guard_step (n, l) g) = g_ifndef_linenum g"
    "\<not> startswith l ''#endif'' \<Longrightarrow> g_endif (guard_step (n, l) g) = g_endif g \<and> g_endif_linenum (guard_step (n, l) g) = g_endif_linenum g"
    using Cons.prems by (auto simp: guard_step_def Let_def)
  with Cons.IH [of "guard_step (n, l) g" "Suc n"] Cons.prems show ?case by (auto simp: Let_def)
qed


lemma scan_guard_layout:
  assumes v: "list_all guard_char v" "v \<noteq> []"
    and "list_all no_guard_start pre" "list_all (\<lambda>l. \<not> startswith l ''#endif'') post"
  shows "let ls = pre @ [''#ifndef '' @ v, ''#define '' @ v] @ body @ [''#endif  // '' @ v] @ post;
      g = scan_guard ls in
    g_ifndef g = v \<and> g_define g = v \<and> g_endif g = ''#endif  // '' @ v \<and>
    g_endif_linenum g = length pre + 2 + length body"
proof -
  let ?f = "\<lambda>n ls. fold guard_step (List.enumerate n ls)"
  let ?n = "length pre"
  have ns: "list_all (\<lambda>c. \<not> is_space c) v" using v(1) guard_char_word by (auto simp: list_all_iff)
  have w: "str_words (''#ifndef '' @ v) = [''#ifndef'', v]" "str_words (''#define '' @ v) = [''#define'', v]"
    using str_words_two [OF _ v(2) _ ns, of "''#ifndef''"] str_words_two [OF _ v(2) _ ns, of "''#define''"]
    by (simp_all add: is_space_def ord_def)
  define g0 where "g0 = ?f 0 pre guard_scan_init"
  have g0: "g_ifndef g0 = []" "g_define g0 = []"
    using fold_guard_before [OF assms(3), of guard_scan_init 0] by (simp_all add: g0_def guard_scan_init_def Let_def)
  define g1 where "g1 = ?f ?n [''#ifndef '' @ v, ''#define '' @ v] g0"
  have g1: "g_ifndef g1 = v" "g_define g1 = v"
    using g0 v(2) w by (simp_all add: g1_def guard_step_def)
  define g2 where "g2 = ?f (?n + 2) body g1"
  have g2: "g_ifndef g2 = v" "g_define g2 = v"
    using fold_guard_after [of g1 "?n + 2" body] g1 v(2) by (simp_all add: g2_def Let_def)
  define g3 where "g3 = guard_step (?n + 2 + length body, ''#endif  // '' @ v) g2"
  have g3: "g_ifndef g3 = v" "g_define g3 = v" "g_endif g3 = ''#endif  // '' @ v" "g_endif_linenum g3 = ?n + 2 + length body"
    using g2 v(2) by (simp_all add: g3_def guard_step_def Let_def)
  have "scan_guard (pre @ [''#ifndef '' @ v, ''#define '' @ v] @ body @ [''#endif  // '' @ v] @ post) =
      ?f (?n + 3 + length body) post g3"
    by (simp add: scan_guard_def enumerate_append_eq g0_def g1_def g2_def g3_def numeral_3_eq_3)
  then show ?thesis
    using fold_guard_after [of g3 "?n + 3 + length body" post] g3 v(2) assms(4) by (simp add: Let_def)
qed

section \<open>Properties\<close>

text \<open>The suggested guard variable is made of capital letters, digits and underscores and
  ends in an underscore.\<close>

theorem header_guard_variable:
  assumes "GetHeaderGuardCPPVariable env st filename = Inr v"
  shows "list_all (\<lambda>c. is_upper c \<or> is_digit c \<or> c = CHR ''_'') v \<and> v \<noteq> [] \<and> last v = CHR ''_''"
  using guard_var_chars [OF assms] by (simp add: guard_char_def [abs_def])

theorem header_guard_variable_witness:
  "list_all (\<lambda>c. is_upper c \<or> is_digit c \<or> c = CHR ''_'') ''_W_A_B_H_'' \<and> ''_W_A_B_H_'' \<noteq> [] \<and> last ''_W_A_B_H_'' = CHR ''_''"
  by (rule header_guard_variable [where env = "\<lparr>cwd = ''/w'', path_exists = (\<lambda>p. False)\<rparr>" and
      st = "lint_init CppLintState_init" and filename = "''a-b.h''"]) code_simp

text \<open>C27. A header with the suggested guard is accepted without any report: the \<open>#ifndef\<close> and
  \<open>#define\<close> lines with the variable, behind lines without guards, and the \<open>#endif\<close> line
  with the variable in its comment, before lines without \<open>#endif\<close>; whatever lies between.\<close>

theorem header_guard_accepted:
  assumes "GetHeaderGuardCPPVariable env st filename = Inr v"
    and "list_all no_guard_start pre" "list_all (\<lambda>l. \<not> startswith l ''#endif'') post"
    and "lines_without_raw_strings clean =
      pre @ [''#ifndef '' @ v, ''#define '' @ v] @ body @ [''#endif  // '' @ v] @ post"
  shows "CheckForHeaderGuard env error filename clean st = Inr st"
proof -
  let ?ls = "lines_without_raw_strings clean" and ?g = "scan_guard (lines_without_raw_strings clean)"
  note v = guard_var_chars [OF assms(1)]
  have g: "g_ifndef ?g = v" "g_define ?g = v" "g_endif ?g = ''#endif  // '' @ v" "g_endif_linenum ?g = length pre + 2 + length body"
    using scan_guard_layout [OF v(1,2) assms(2,3), of body] assms(4) by (simp_all add: Let_def)
  have i: "py_index ?ls (int (length pre + 2 + length body)) = Inr (''#endif  // '' @ v)"
    unfolding assms(4) by (subst py_index_nat) (simp_all add: nth_append)
  have "nolint_at error filename ?ls (g_endif_linenum ?g) st = Inr st"
    using guard_no_nolint [OF v] by (simp add: nolint_at_def g(4) i [simplified] ParseNolintSuppressions_def)
  moreover have "check_endif error filename ?ls v ?g st = Inr st"
    using endif_comment_found [OF v(1,2)] by (auto simp: check_endif_def g(3) whenever_def)
  ultimately show ?thesis
    using assms(1) v(2) g(1,2) by (simp add: CheckForHeaderGuard_def Let_def whenever_def)
qed

theorem header_guard_accepted_witness:
  "CheckForHeaderGuard \<lparr>cwd = ''/w'', path_exists = (\<lambda>p. False)\<rparr> Error ''a.h''
     (CleansedLines [''#ifndef _W_A_H_'', ''#define _W_A_H_'', ''int x;'', ''#endif  // _W_A_H_''])
     (lint_init CppLintState_init) = Inr (lint_init CppLintState_init)"
proof (rule header_guard_accepted [where v = "''_W_A_H_''" and pre = "[]" and body = "[''int x;'']" and post = "[]"])
  show "lines_without_raw_strings (CleansedLines [''#ifndef _W_A_H_'', ''#define _W_A_H_'', ''int x;'', ''#endif  // _W_A_H_'']) =
      [] @ [''#ifndef '' @ ''_W_A_H_'', ''#define '' @ ''_W_A_H_''] @ [''int x;''] @ [''#endif  // '' @ ''_W_A_H_''] @ []"
    by (simp add: CleansedLines_def CleanseRawStrings_no_quote Let_def)
qed code_simp+

end
