(* ===== verification/Include_State.thy ===== *)
theory Include_State
  imports Lint_State
begin

text \<open>
  Class \<open>_IncludeState\<close> of \<open>cpplint.py\<close>: the headers included so far and the machine that
  checks the order of \<open>#include\<close> directives.  The constants of the header types and of the
  sections are datatypes; the sections carry the order of the source's numbers as a
  \<open>linorder\<close> instance.

  The abstract specification \<open>section_of\<close> says in which section a list of headers ends,
  without running the machine; \<open>include_order_flags\<close> is the refinement: the machine
  complains about a header exactly when the specification says a later group was reached.
\<close>

section \<open>Header types and sections\<close>

datatype header_type =
    C_SYS_HEADER | CPP_SYS_HEADER | LIKELY_MY_HEADER | POSSIBLE_MY_HEADER | OTHER_HEADER

datatype include_section =
    INITIAL_SECTION | MY_H_SECTION | C_SECTION | CPP_SECTION | OTHER_H_SECTION

fun section_number :: "include_section \<Rightarrow> nat" where
  "section_number INITIAL_SECTION = 0"
| "section_number MY_H_SECTION = 1"
| "section_number C_SECTION = 2"
| "section_number CPP_SECTION = 3"
| "section_number OTHER_H_SECTION = 4"

lemma section_number_inj: "section_number a = section_number b \<longleftrightarrow> a = b"
  by (cases a; cases b) auto

instantiation include_section :: linorder
begin

definition less_eq_include_section :: "include_section \<Rightarrow> include_section \<Rightarrow> bool" where
  "a \<le> b \<longleftrightarrow> section_number a \<le> section_number b"

definition less_include_section :: "include_section \<Rightarrow> include_section \<Rightarrow> bool" where
  "a < b \<longleftrightarrow> section_number a < section_number b"

instance
  by standard (auto simp: less_eq_include_section_def less_include_section_def section_number_inj)

end

fun TYPE_NAMES :: "header_type \<Rightarrow> string" where
  "TYPE_NAMES C_SYS_HEADER = ''C system header''"
| "TYPE_NAMES CPP_SYS_HEADER = ''C++ system header''"
| "TYPE_NAMES LIKELY_MY_HEADER = ''header this file implements''"
| "TYPE_NAMES POSSIBLE_MY_HEADER = ''header this file may implement''"
| "TYPE_NAMES OTHER_HEADER = ''other header''"

fun SECTION_NAMES :: "include_section \<Rightarrow> string" where
  "SECTION_NAMES INITIAL_SECTION = ''... nothing. (This can'' @ [CHR 0x27] @ ''t be an error.)''"
| "SECTION_NAMES MY_H_SECTION = ''a header this file implements''"
| "SECTION_NAMES C_SECTION = ''C system header''"
| "SECTION_NAMES CPP_SECTION = ''C++ system header''"
| "SECTION_NAMES OTHER_H_SECTION = ''other header''"

section \<open>The state and its operations\<close>

record include_state =
  include_list :: "(string \<times> int) list list"
  cur_section :: include_section
  last_header :: string

definition FindHeader :: "string \<Rightarrow> include_state \<Rightarrow> int" where
  "FindHeader header s =
     (case List.find (\<lambda>f. fst f = header) (concat (include_list s)) of
        None \<Rightarrow> -1 | Some f \<Rightarrow> snd f)"

definition ResetSection :: "string \<Rightarrow> include_state \<Rightarrow> include_state" where
  "ResetSection directive s =
     (let s = s\<lparr>cur_section := INITIAL_SECTION, last_header := []\<rparr> in
      if directive \<in> {''if'', ''ifdef'', ''ifndef''}
      then s\<lparr>include_list := include_list s @ [[]]\<rparr>
      else if directive \<in> {''else'', ''elif''}
      then s\<lparr>include_list := butlast (include_list s) @ [[]]\<rparr>
      else s)"

definition IncludeState_init :: include_state where
  "IncludeState_init = ResetSection []
     \<lparr>include_list = [[]], cur_section = INITIAL_SECTION, last_header = []\<rparr>"

definition SetLastHeader :: "string \<Rightarrow> include_state \<Rightarrow> include_state" where
  "SetLastHeader header_path s = s\<lparr>last_header := header_path\<rparr>"

definition CanonicalizeAlphabeticalOrder :: "string \<Rightarrow> string" where
  "CanonicalizeAlphabeticalOrder header_path =
     str_lower (str_replace (str_replace header_path ''-inl.h'' ''.h'') ''-'' ''_'')"

text \<open>The elided lines are those of the file; the previous line of line 0 is the last one.\<close>

definition IsInAlphabeticalOrder :: "string list \<Rightarrow> int \<Rightarrow> string \<Rightarrow> include_state \<Rightarrow> bool py" where
  "IsInAlphabeticalOrder elided linenum header_path s =
     (if last_header s > header_path then
        py_bind (py_index elided (linenum - 1)) (\<lambda>prev.
          Inr (Match (raw ''^`s*#`s*include`b'') prev = None))
      else Inr True)"

definition CheckNextIncludeOrder :: "header_type \<Rightarrow> include_state \<Rightarrow> string \<times> include_state" where
  "CheckNextIncludeOrder header_type s =
     (let error_message = ''Found '' @ TYPE_NAMES header_type @ '' after '' @ SECTION_NAMES (cur_section s);
          last_section = cur_section s;
          finish = (\<lambda>sec. ([], let s' = s\<lparr>cur_section := sec\<rparr> in
             if last_section \<noteq> sec then s'\<lparr>last_header := []\<rparr> else s'));
          complain = (error_message, s\<lparr>last_header := []\<rparr>)
      in case header_type of
           C_SYS_HEADER \<Rightarrow> if cur_section s \<le> C_SECTION then finish C_SECTION else complain
         | CPP_SYS_HEADER \<Rightarrow> if cur_section s \<le> CPP_SECTION then finish CPP_SECTION else complain
         | LIKELY_MY_HEADER \<Rightarrow>
             if cur_section s \<le> MY_H_SECTION then finish MY_H_SECTION else finish OTHER_H_SECTION
         | POSSIBLE_MY_HEADER \<Rightarrow>
             if cur_section s \<le> MY_H_SECTION then finish MY_H_SECTION else finish OTHER_H_SECTION
         | OTHER_HEADER \<Rightarrow> finish OTHER_H_SECTION)"

text \<open>The machine over the headers of a file, in order.\<close>

fun include_run :: "header_type list \<Rightarrow> include_state \<Rightarrow> include_state" where
  "include_run [] s = s"
| "include_run (t # ts) s = include_run ts (snd (CheckNextIncludeOrder t s))"

section \<open>Specification\<close>

definition is_my :: "header_type \<Rightarrow> bool" where
  "is_my t = (t = LIKELY_MY_HEADER \<or> t = POSSIBLE_MY_HEADER)"

text \<open>The group of a header that does not open the file: a header of the file itself counts as other.\<close>

fun group_of :: "header_type \<Rightarrow> include_section" where
  "group_of C_SYS_HEADER = C_SECTION"
| "group_of CPP_SYS_HEADER = CPP_SECTION"
| "group_of _ = OTHER_H_SECTION"

definition section_of :: "header_type list \<Rightarrow> include_section" where
  "section_of ts =
     (if ts = [] then INITIAL_SECTION
      else fold max (map group_of (dropWhile is_my ts)) MY_H_SECTION)"

definition out_of_order :: "header_type \<Rightarrow> header_type list \<Rightarrow> bool" where
  "out_of_order t ts = (t \<in> {C_SYS_HEADER, CPP_SYS_HEADER} \<and> group_of t < section_of ts)"

section \<open>Lemmas\<close>

lemmas section_order = less_eq_include_section_def less_include_section_def max_def

lemma check_section:
  "cur_section (snd (CheckNextIncludeOrder t s)) =
     (if is_my t \<and> cur_section s \<le> MY_H_SECTION then MY_H_SECTION else max (cur_section s) (group_of t))"
  by (cases t; cases "cur_section s")
    (simp_all add: CheckNextIncludeOrder_def Let_def is_my_def section_order)

lemma check_section_mono: "cur_section s \<le> cur_section (snd (CheckNextIncludeOrder t s))"
  by (cases t; cases "cur_section s")
    (simp_all add: CheckNextIncludeOrder_def Let_def section_order)

lemma check_message:
  "fst (CheckNextIncludeOrder t s) \<noteq> [] \<longleftrightarrow>
     t \<in> {C_SYS_HEADER, CPP_SYS_HEADER} \<and> group_of t < cur_section s"
  by (cases t; cases "cur_section s")
    (simp_all add: CheckNextIncludeOrder_def Let_def section_order)

lemma include_run_append: "include_run (ts @ us) s = include_run us (include_run ts s)"
  by (induction ts arbitrary: s) auto

lemma include_run_mono: "cur_section s \<le> cur_section (include_run ts s)"
proof (induction ts arbitrary: s)
  case Nil
  then show ?case by simp
next
  case (Cons t ts)
  have "cur_section s \<le> cur_section (snd (CheckNextIncludeOrder t s))" by (rule check_section_mono)
  also have "\<dots> \<le> cur_section (include_run (t # ts) s)" using Cons.IH by simp
  finally show ?case .
qed

lemma fold_max_section_ge: "x \<le> fold max ys (x :: include_section)"
proof (induction ys arbitrary: x)
  case Nil
  then show ?case by simp
next
  case (Cons y ys)
  have "x \<le> max y x" by simp
  also have "\<dots> \<le> fold max ys (max y x)" by (rule Cons.IH)
  finally show ?case by simp
qed

lemma group_of_not_my: "C_SECTION \<le> group_of t"
  by (cases t) (simp_all add: section_order)

lemma section_of_snoc:
  "section_of (ts @ [t]) =
     (if is_my t \<and> section_of ts \<le> MY_H_SECTION then MY_H_SECTION else max (section_of ts) (group_of t))"
proof (cases "\<forall>x \<in> set ts. is_my x")
  case True
  then have d: "dropWhile is_my ts = []" by simp
  have "section_of ts \<le> MY_H_SECTION" unfolding section_of_def d by (simp add: section_order)
  moreover have "dropWhile is_my (ts @ [t]) = (if is_my t then [] else [t])"
    using True by (simp add: dropWhile_append2)
  ultimately show ?thesis
    using group_of_not_my [of t] unfolding section_of_def d
    by (auto simp: section_order split: if_splits)
next
  case False
  then obtain x where x: "x \<in> set ts" "\<not> is_my x" by blast
  then have dw: "dropWhile is_my (ts @ [t]) = dropWhile is_my ts @ [t]"
    by (simp add: dropWhile_append1)
  from x obtain y ys where ys: "dropWhile is_my ts = y # ys"
    by (cases "dropWhile is_my ts") auto
  have "C_SECTION \<le> max (group_of y) MY_H_SECTION"
    using group_of_not_my [of y] by (simp add: le_max_iff_disj)
  also have "\<dots> \<le> fold max (map group_of ys) (max (group_of y) MY_H_SECTION)"
    by (rule fold_max_section_ge)
  finally have "\<not> section_of ts \<le> MY_H_SECTION"
    using x ys by (auto simp: section_of_def section_order split: if_splits)
  then show ?thesis
    using dw x by (auto simp: section_of_def max.commute)
qed

lemma include_run_section: "cur_section (include_run ts IncludeState_init) = section_of ts"
proof (induction ts rule: rev_induct)
  case Nil
  then show ?case by (simp add: IncludeState_init_def ResetSection_def section_of_def Let_def)
next
  case (snoc t ts)
  then show ?case by (simp add: include_run_append check_section section_of_snoc)
qed

lemma ord_inj: "ord c = ord d \<longleftrightarrow> c = d"
  by (simp add: ord_def)

lemma ord_lower: "ord (lower_char c) =
    (if is_upper c \<or> 192 \<le> ord c \<and> ord c \<le> 222 \<and> ord c \<noteq> 215 then ord c + 32 else ord c)"
  by (auto simp: lower_char_def Let_def ord_def is_upper_def)

lemma ord_minus: "ord CHR ''-'' = 45"
  by code_simp

lemma lower_char_facts [simp]:
  "lower_char c = CHR ''-'' \<longleftrightarrow> c = CHR ''-''" "lower_char (lower_char c) = lower_char c"
  unfolding ord_inj [symmetric] ord_lower ord_minus
  by (auto simp: is_upper_def Let_def ord_lower)

lemma replace_char_removes: "a \<noteq> b \<Longrightarrow> a \<notin> set (str_replace s [a] [b])"
proof -
  assume "a \<noteq> b"
  then have "a \<notin> set (replace_go [a] [b] 0 s)" by (induction s) auto
  then show ?thesis by (simp add: str_replace_def)
qed

section \<open>Properties\<close>

text \<open>C9. The include-order machine refines its specification: after the headers \<open>ts\<close> of a
  file, the next header \<open>t\<close> draws a complaint exactly when it is a C or C++ system header and
  a later group was already reached (C system, then C++ system, then other headers, where a
  header of the file itself counts as other unless only such headers came before it).\<close>

theorem include_order_flags:
  "fst (CheckNextIncludeOrder t (include_run ts IncludeState_init)) \<noteq> [] \<longleftrightarrow> out_of_order t ts"
  by (auto simp: check_message include_run_section out_of_order_def)

text \<open>The section only moves forward between two resets, whatever headers follow, and a
  reset returns to the initial section.\<close>

theorem include_section_monotone:
  "cur_section (include_run ts s) \<le> cur_section (include_run (ts @ us) s) \<and>
   cur_section (ResetSection directive (include_run ts s)) = INITIAL_SECTION"
  by (simp add: include_run_append include_run_mono ResetSection_def Let_def)

text \<open>\<open>CanonicalizeAlphabeticalOrder\<close> is a normal form: applying it twice changes nothing
  more, and the result has no dash.\<close>

theorem canonicalize_idempotent:
  "CanonicalizeAlphabeticalOrder (CanonicalizeAlphabeticalOrder h) = CanonicalizeAlphabeticalOrder h \<and>
   CHR ''-'' \<notin> set (CanonicalizeAlphabeticalOrder h)"
proof -
  let ?c = "CanonicalizeAlphabeticalOrder h"
  have n: "CHR ''-'' \<notin> set ?c"
    using replace_char_removes [of "CHR ''-''" "CHR ''_''"]
    by (auto simp: CanonicalizeAlphabeticalOrder_def str_lower_def dest: sym)
  then have "\<not> sublist ''-inl.h'' ?c" "\<not> sublist ''-'' ?c"
    by (auto dest!: set_mono_sublist)
  then have "CanonicalizeAlphabeticalOrder ?c = str_lower ?c"
    by (simp add: CanonicalizeAlphabeticalOrder_def [of ?c] str_replace_absent)
  also have "\<dots> = ?c" by (simp add: CanonicalizeAlphabeticalOrder_def str_lower_def comp_def)
  finally show ?thesis using n by simp
qed

text \<open>A header recorded in the current conditional branch is found again: at its own line
  if it was not seen before, else at the line where it was first seen.  A conditional
  \<open>#else\<close> or \<open>#elif\<close> forgets exactly the headers of the branch it closes.\<close>

theorem find_header_after_record:
  assumes "include_list s = ls @ [l]"
  shows "FindHeader h (s\<lparr>include_list := ls @ [l @ [(h, n)]]\<rparr>) =
      (if h \<in> fst ` set (concat (include_list s)) then FindHeader h s else n) \<and>
    FindHeader h (ResetSection ''else'' s) = FindHeader h (s\<lparr>include_list := ls\<rparr>)"
proof
  let ?P = "\<lambda>f::string \<times> int. fst f = h"
  have "List.find ?P (concat ls @ l) = None \<longleftrightarrow> h \<notin> fst ` set (concat (include_list s))"
    using assms by (force simp: find_None_iff)
  then show "FindHeader h (s\<lparr>include_list := ls @ [l @ [(h, n)]]\<rparr>) =
      (if h \<in> fst ` set (concat (include_list s)) then FindHeader h s else n)"
    using assms
    by (cases "List.find ?P (concat ls @ l)")
      (auto simp: FindHeader_def find_append split: option.splits)
  show "FindHeader h (ResetSection ''else'' s) = FindHeader h (s\<lparr>include_list := ls\<rparr>)"
    using assms by (simp add: FindHeader_def ResetSection_def Let_def)
qed

theorem find_header_after_record_witness:
  "FindHeader ''a.h'' (IncludeState_init\<lparr>include_list := [] @ [[] @ [(''a.h'', 4)]]\<rparr>) =
     (if ''a.h'' \<in> fst ` set (concat (include_list IncludeState_init))
      then FindHeader ''a.h'' IncludeState_init else 4) \<and>
   FindHeader ''a.h'' (ResetSection ''else'' IncludeState_init) =
     FindHeader ''a.h'' (IncludeState_init\<lparr>include_list := []\<rparr>)"
  by (rule find_header_after_record)
    (simp add: IncludeState_init_def ResetSection_def Let_def)

end
