(* ===== verification/Include_Checks.thy ===== *)
theory Include_Checks
  imports Include_State Header_Guard
begin

text \<open>
  The checks on \<open>#include\<close> lines of \<open>cpplint.py\<close>: the classification of a header
  (\<open>_ClassifyInclude\<close>), the checks of one line (\<open>CheckIncludeLine\<close>), whether a source
  file includes its own header (\<open>CheckHeaderFileIncluded\<close>) and whether two files belong to
  the same module (\<open>FilesBelongToSameModule\<close>).  Where the source iterates over a set of
  file extensions, the model goes through the list of them.
\<close>

section \<open>Constants\<close>

definition CPP_HEADERS :: "string list" where
  "CPP_HEADERS = [
     ''algobase.h'', ''algo.h'', ''alloc.h'', ''builtinbuf.h'', ''bvector.h'', ''complex.h'',
     ''defalloc.h'', ''deque.h'', ''editbuf.h'', ''fstream.h'', ''function.h'', ''hash_map'',
     ''hash_map.h'', ''hash_set'', ''hash_set.h'', ''hashtable.h'', ''heap.h'', ''indstream.h'',
     ''iomanip.h'', ''iostream.h'', ''istream.h'', ''iterator.h'', ''list.h'', ''map.h'', ''multimap.h'',
     ''multiset.h'', ''ostream.h'', ''pair.h'', ''parsestream.h'', ''pfstream.h'', ''procbuf.h'',
     ''pthread_alloc'', ''pthread_alloc.h'', ''rope'', ''rope.h'', ''ropeimpl.h'', ''set.h'', ''slist'',
     ''slist.h'', ''stack.h'', ''stdiostream.h'', ''stl_alloc.h'', ''stl_relops.h'', ''streambuf.h'',
     ''stream.h'', ''strfile.h'', ''strstream.h'', ''tempbuf.h'', ''tree.h'', ''type_traits.h'',
     ''vector.h'', ''algorithm'', ''array'', ''atomic'', ''bitset'', ''chrono'', ''codecvt'',
     ''complex'', ''condition_variable'', ''deque'', ''exception'', ''forward_list'', ''fstream'',
     ''functional'', ''future'', ''initializer_list'', ''iomanip'', ''ios'', ''iosfwd'', ''iostream'',
     ''istream'', ''iterator'', ''limits'', ''list'', ''locale'', ''map'', ''memory'', ''mutex'',
     ''new'', ''numeric'', ''ostream'', ''queue'', ''random'', ''ratio'', ''regex'',
     ''scoped_allocator'', ''set'', ''sstream'', ''stack'', ''stdexcept'', ''streambuf'', ''string'',
     ''strstream'', ''system_error'', ''thread'', ''tuple'', ''typeindex'', ''typeinfo'',
     ''type_traits'', ''unordered_map'', ''unordered_set'', ''utility'', ''valarray'', ''vector'',
     ''shared_mutex'', ''any'', ''charconv'', ''codecvt'', ''execution'', ''filesystem'',
     ''memory_resource'', ''optional'', ''string_view'', ''variant'', ''cassert'', ''ccomplex'',
     ''cctype'', ''cerrno'', ''cfenv'', ''cfloat'', ''cinttypes'', ''ciso646'', ''climits'', ''clocale'',
     ''cmath'', ''csetjmp'', ''csignal'', ''cstdalign'', ''cstdarg'', ''cstdbool'', ''cstddef'',
     ''cstdint'', ''cstdio'', ''cstdlib'', ''cstring'', ''ctgmath'', ''ctime'', ''cuchar'', ''cwchar'',
     ''cwctype'']"

definition THIRD_PARTY_HEADERS_PATTERN :: string where
  "THIRD_PARTY_HEADERS_PATTERN = raw ''^(?:[^/]*[A-Z][^/]*`.h|lua`.h|lauxlib`.h|lualib`.h)$''"

definition test_suffixes :: "string list" where
  "test_suffixes = [''_test'', ''_regtest'', ''_unittest'']"

definition TEST_FILE_SUFFIX :: string where
  "TEST_FILE_SUFFIX = ''('' @ str_join ''|'' test_suffixes @ raw '')$''"

definition RE_FIRST_COMPONENT :: string where
  "RE_FIRST_COMPONENT = raw ''^[^-_.]+''"

section \<open>Classification of a header\<close>

definition common_suffixes :: "lint \<Rightarrow> string list" where
  "common_suffixes st =
     [str_lstrip_chars t ''_'' @ ''.'' @ ext. t \<leftarrow> test_suffixes, ext \<leftarrow> GetNonHeaderExtensions st] @
     [s @ ''.'' @ ext. s \<leftarrow> [''inl'', ''imp'', ''internal''], ext \<leftarrow> GetHeaderExtensions st]"

definition has_common_suffix :: "string \<Rightarrow> string \<Rightarrow> bool" where
  "has_common_suffix filename sfx =
     (endswith filename sfx \<and> length filename > length sfx \<and>
      filename ! (length filename - length sfx - 1) \<in> {CHR ''-'', CHR ''_''})"

definition DropCommonSuffixes :: "lint \<Rightarrow> string \<Rightarrow> string" where
  "DropCommonSuffixes st filename =
     (case List.find (has_common_suffix filename) (common_suffixes st) of
        Some sfx \<Rightarrow> take (length filename - length sfx - 1) filename
      | None \<Rightarrow> fst (path_splitext filename))"

definition ClassifyInclude :: "os_env \<Rightarrow> lint \<Rightarrow> string \<Rightarrow> string \<Rightarrow> bool \<Rightarrow> header_type py" where
  "ClassifyInclude env st filename incl is_system =
     (let is_cpp_h = (incl \<in> set CPP_HEADERS);
          is_system = (is_system \<and> snd (path_splitext incl) \<notin> {''.hpp'', ''.hxx'', ''.h++''})
      in if is_system then Inr (if is_cpp_h then CPP_SYS_HEADER else C_SYS_HEADER)
         else py_bind (RepositoryName env st filename) (\<lambda>repository_name.
           let (target_dir, target_base) = path_split (DropCommonSuffixes st repository_name);
               (include_dir, include_base) = path_split (DropCommonSuffixes st incl);
               target_dir_pub = str_replace (path_normpath (target_dir @ ''/../public'')) [backslash] [slash]
           in if target_base = include_base \<and> (include_dir = target_dir \<or> include_dir = target_dir_pub)
              then Inr LIKELY_MY_HEADER
              else
                (case (re_match (re_const RE_FIRST_COMPONENT) target_base,
                       re_match (re_const RE_FIRST_COMPONENT) include_base) of
                   (Some t, Some i) \<Rightarrow> if m_text t = m_text i then Inr POSSIBLE_MY_HEADER else Inr OTHER_HEADER
                 | _ \<Rightarrow> Inr OTHER_HEADER)))"

section \<open>One \<open>#include\<close> line\<close>

text \<open>The first source extension of \<open>include\<close>, if the file lies in another directory.\<close>

fun source_of_other_package :: "os_env \<Rightarrow> lint \<Rightarrow> string \<Rightarrow> string \<Rightarrow> string list \<Rightarrow> string option py" where
  "source_of_other_package env st filename incl [] = Inr None"
| "source_of_other_package env st filename incl (ext # es) =
     (if endswith incl (''.'' @ ext) then
        py_bind (RepositoryName env st filename) (\<lambda>name.
          if path_dirname name \<noteq> path_dirname incl then Inr (Some ext)
          else source_of_other_package env st filename incl es)
      else source_of_other_package env st filename incl es)"

text \<open>The header of the file with a given extension, by its name in the repository.\<close>

definition header_of :: "os_env \<Rightarrow> lint \<Rightarrow> string \<Rightarrow> string \<Rightarrow> (string \<times> string) py" where
  "header_of env st filename ext =
     py_bind (Extension env st filename) (\<lambda>extension.
       let headerfile = slice_to filename (int (length filename) - int (length extension)) @ ''.'' @ ext
       in py_bind (RepositoryName env st headerfile) (\<lambda>headername. Inr (headerfile, headername)))"

fun third_src_header :: "os_env \<Rightarrow> lint \<Rightarrow> string \<Rightarrow> string \<Rightarrow> string list \<Rightarrow> bool py" where
  "third_src_header env st filename incl [] = Inr False"
| "third_src_header env st filename incl (ext # es) =
     py_bind (header_of env st filename ext) (\<lambda>(headerfile, headername).
       if str_in headername incl \<or> str_in incl headername then Inr True
       else third_src_header env st filename incl es)"

text \<open>Recording the header and the checks of its place, on the include state.\<close>

definition check_include_order :: "os_env \<Rightarrow> error_fn \<Rightarrow> string \<Rightarrow> cleansed_lines \<Rightarrow> nat \<Rightarrow> string \<Rightarrow> bool \<Rightarrow>
    include_state \<Rightarrow> lint \<Rightarrow> (include_state \<times> lint) py" where
  \<open>check_include_order env error filename clean linenum incl is_system ist st =
     (if include_list ist = [] then Inl IndexError
      else
        (let ist = ist\<lparr>include_list := butlast (include_list ist) @ [last (include_list ist) @ [(incl, int linenum)]]\<rparr> in
         py_bind (ClassifyInclude env st filename incl is_system) (\<lambda>header_type.
         case CheckNextIncludeOrder header_type ist of (error_message, ist) \<Rightarrow>
         py_bind
           (if error_message \<noteq> [] then
              py_bind (BaseName env st filename) (\<lambda>base.
                error filename (Some (int linenum)) ''build/include_order'' 4
                  (error_message @ ''. Should be: '' @ base @ ''.h, c system, c++ system, other.'') st)
            else Inr st) (\<lambda>st.
         let canonical_include = CanonicalizeAlphabeticalOrder incl in
         py_bind (IsInAlphabeticalOrder (elided clean) (int linenum) canonical_include ist) (\<lambda>in_order.
         py_bind
           (whenever (\<not> in_order)
              (error filename (Some (int linenum)) ''build/include_alpha'' 4
                (''Include "'' @ incl @ ''" not in alphabetical order'')) st) (\<lambda>st.
         Inr (SetLastHeader canonical_include ist, st)))))))\<close>

definition CheckIncludeLine :: "os_env \<Rightarrow> error_fn \<Rightarrow> string \<Rightarrow> cleansed_lines \<Rightarrow> nat \<Rightarrow>
    include_state \<Rightarrow> lint \<Rightarrow> (include_state \<times> lint) py" where
  \<open>CheckIncludeLine env error filename clean linenum ist st =
     py_bind (py_index (clean_lines clean) (int linenum)) (\<lambda>line.
     py_bind
       (whenever (case Match (raw ''#include`s*"([^/]+`.h)"'') line of
                    Some m \<Rightarrow> re_match (re_const THIRD_PARTY_HEADERS_PATTERN) (m_grp m 1) = None
                  | None \<Rightarrow> False)
          (error filename (Some (int linenum)) ''build/include_subdir'' 4
            ''Include the directory when naming .h files'') st) (\<lambda>st.
     case re_search (re_const RE_PATTERN_INCLUDE) line of
       None \<Rightarrow> Inr (ist, st)
     | Some m \<Rightarrow>
         (let incl = m_grp m 2; is_system = (m_grp m 1 = ''<''); duplicate_line = FindHeader incl ist in
          if duplicate_line \<ge> 0 then
            py_bind (error filename (Some (int linenum)) ''build/include'' 4
              (''"'' @ incl @ ''" already included at '' @ filename @ '':'' @ str_of_int duplicate_line) st)
              (\<lambda>st. Inr (ist, st))
          else
            py_bind (source_of_other_package env st filename incl (GetNonHeaderExtensions st)) (\<lambda>other.
            case other of
              Some ext \<Rightarrow>
                py_bind (error filename (Some (int linenum)) ''build/include'' 4
                  (''Do not include .'' @ ext @ '' files from other packages'') st) (\<lambda>st. Inr (ist, st))
            | None \<Rightarrow>
                py_bind (third_src_header env st filename incl (GetHeaderExtensions st)) (\<lambda>own.
                  if own \<or> re_match (re_const THIRD_PARTY_HEADERS_PATTERN) incl = None
                  then check_include_order env error filename clean linenum incl is_system ist st
                  else Inr (ist, st))))))\<close>

section \<open>The header of a source file\<close>

text \<open>The loop over the recorded headers: None when the header is among them, else the line to report.\<close>

fun scan_includes :: "string \<Rightarrow> (string \<times> int) list \<Rightarrow> int option \<Rightarrow> int option option" where
  "scan_includes headername [] first_include = Some first_include"
| "scan_includes headername (f # fs) first_include =
     (if str_in headername (fst f) \<or> str_in (fst f) headername then None
      else scan_includes headername fs
             (if first_include = None \<or> first_include = Some 0 then Some (snd f) else first_include))"

fun check_own_header :: "os_env \<Rightarrow> error_fn \<Rightarrow> string \<Rightarrow> include_state \<Rightarrow> string list \<Rightarrow> action" where
  "check_own_header env error filename ist [] st = Inr st"
| "check_own_header env error filename ist (ext # es) st =
     py_bind (Extension env st filename) (\<lambda>extension.
       let headerfile = slice_to filename (int (length filename) - int (length extension)) @ ''.'' @ ext in
       if \<not> path_exists env headerfile then check_own_header env error filename ist es st
       else
         py_bind (RepositoryName env st headerfile) (\<lambda>headername.
           case scan_includes headername (concat (include_list ist)) None of
             None \<Rightarrow> Inr st
           | Some first_include \<Rightarrow>
               py_bind (RepositoryName env st filename) (\<lambda>own_name.
               py_bind (error filename first_include ''build/include'' 5
                  (own_name @ '' should include its header file '' @ headername) st)
                 (check_own_header env error filename ist es))))"

definition CheckHeaderFileIncluded :: "os_env \<Rightarrow> error_fn \<Rightarrow> string \<Rightarrow> include_state \<Rightarrow> action" where
  "CheckHeaderFileIncluded env error filename ist st =
     py_bind (BaseName env st filename) (\<lambda>base.
       if Search TEST_FILE_SUFFIX base \<noteq> None then Inr st
       else check_own_header env error filename ist (GetHeaderExtensions st) st)"

section \<open>Modules\<close>

definition drop_module_dirs :: "string \<Rightarrow> string" where
  "drop_module_dirs f = str_replace (str_replace f ''/public/'' ''/'') ''/internal/'' ''/''"

definition FilesBelongToSameModule :: "os_env \<Rightarrow> lint \<Rightarrow> string \<Rightarrow> string \<Rightarrow> (bool \<times> string) py" where
  "FilesBelongToSameModule env st filename_cc filename_h =
     py_bind (Extension env st filename_cc) (\<lambda>ext_cc.
     if str_lstrip_chars ext_cc ''.'' \<notin> set (GetNonHeaderExtensions st) then Inr (False, [])
     else
     py_bind (Extension env st filename_h) (\<lambda>ext_h.
     if \<not> IsHeaderExtension st (str_lstrip_chars ext_h ''.'') then Inr (False, [])
     else
     py_bind (BaseName env st filename_cc) (\<lambda>base_cc.
       let filename_cc = slice_to filename_cc (- int (length ext_cc));
           filename_cc = (case Search TEST_FILE_SUFFIX base_cc of
                            Some m \<Rightarrow> slice_to filename_cc (- int (length (m_grp m 1)))
                          | None \<Rightarrow> filename_cc);
           filename_cc = drop_module_dirs filename_cc;
           filename_h = slice_to filename_h (- int (length ext_h));
           filename_h = (if endswith filename_h ''-inl'' then slice_to filename_h (- 4) else filename_h);
           filename_h = drop_module_dirs filename_h;
           same = endswith filename_cc filename_h
       in Inr (same, if same then slice_to filename_cc (- int (length filename_h)) else []))))"

section \<open>Lemmas\<close>

text \<open>The recorded headers are different from each other, their lines are not negative, and
  there is a current branch.\<close>

definition include_inv :: "include_state \<Rightarrow> bool" where
  "include_inv ist =
     (include_list ist \<noteq> [] \<and> distinct (map fst (concat (include_list ist))) \<and>
      list_all (\<lambda>f. 0 \<le> snd f) (concat (include_list ist)))"

lemma include_inv_init: "include_inv IncludeState_init"
  by (simp add: include_inv_def IncludeState_init_def ResetSection_def Let_def)

lemma include_inv_reset: "include_inv ist \<Longrightarrow> include_inv (ResetSection directive ist)"
  by (cases "include_list ist" rule: rev_cases)
    (auto simp: include_inv_def ResetSection_def Let_def)

lemma FindHeader_absent:
  assumes "include_inv ist" "FindHeader h ist < 0"
  shows "h \<notin> fst ` set (concat (include_list ist))"
proof (cases "List.find (\<lambda>f. fst f = h) (concat (include_list ist))")
  case None
  then show ?thesis by (auto simp: find_None_iff simp del: set_concat)
next
  case (Some f)
  then have "f \<in> set (concat (include_list ist))" by (auto simp: find_Some_iff simp del: set_concat)
  with assms Some show ?thesis by (auto simp: FindHeader_def include_inv_def list_all_iff simp del: set_concat)
qed

lemma CheckNextIncludeOrder_list: "include_list (snd (CheckNextIncludeOrder t ist)) = include_list ist"
  by (cases t) (simp_all add: CheckNextIncludeOrder_def Let_def)

lemma include_inv_list: "include_list ist' = include_list ist \<Longrightarrow> include_inv ist' = include_inv ist"
  by (simp add: include_inv_def)

text \<open>A header added to the current branch.\<close>

definition record_header :: "string \<Rightarrow> nat \<Rightarrow> include_state \<Rightarrow> (string \<times> int) list list" where
  "record_header h n ist = butlast (include_list ist) @ [last (include_list ist) @ [(h, int n)]]"

lemma include_inv_record:
  assumes "include_inv ist" "FindHeader h ist < 0" "include_list ist' = record_header h n ist"
  shows "include_inv ist'"
proof -
  obtain ls l where l: "include_list ist = ls @ [l]"
    using assms(1) by (cases "include_list ist" rule: rev_cases) (auto simp: include_inv_def)
  from assms FindHeader_absent [OF assms(1,2)] show ?thesis
    by (auto simp: include_inv_def record_header_def l)
qed

lemma FindHeader_record:
  assumes "include_inv ist" "FindHeader h ist < 0" "include_list ist' = record_header h n ist"
  shows "FindHeader h ist' = int n"
proof -
  have "List.find (\<lambda>f. fst f = h) (concat (butlast (include_list ist)) @ last (include_list ist)) = None"
    using FindHeader_absent [OF assms(1,2)] assms(1)
    by (cases "include_list ist" rule: rev_cases) (force simp: find_None_iff include_inv_def)+
  then have "List.find (\<lambda>f. fst f = h) ((concat (butlast (include_list ist)) @ last (include_list ist)) @ [(h, int n)])
      = Some (h, int n)" by (simp only: find_append) simp
  then show ?thesis using assms(3) by (simp add: FindHeader_def record_header_def)
qed

text \<open>
  A reporter that also knows how to name files: under its invariant every file has a name in
  the repository.
\<close>

locale naming_reporter = reporter error Inv for error Inv +
  fixes env :: os_env
  assumes named: "\<And>st filename. Inv st \<Longrightarrow> \<exists>name. RepositoryName env st filename = Inr name"
begin

lemma Split_named: "Inv st \<Longrightarrow> \<exists>r. Split env st filename = Inr r"
  using named [of st filename] by (auto simp: Split_def split: prod.split)

lemma BaseName_named: "Inv st \<Longrightarrow> \<exists>r. BaseName env st filename = Inr r"
  using Split_named [of st filename] by (auto simp: BaseName_def split: prod.split)

lemma Extension_named: "Inv st \<Longrightarrow> \<exists>r. Extension env st filename = Inr r"
  using Split_named [of st filename] by (auto simp: Extension_def split: prod.split)

lemma ClassifyInclude_named: "Inv st \<Longrightarrow> \<exists>t. ClassifyInclude env st filename incl sys = Inr t"
  using named [of st filename]
  by (auto simp: ClassifyInclude_def Let_def split: prod.split option.split)

lemma source_of_other_package_named:
  "Inv st \<Longrightarrow> \<exists>r. source_of_other_package env st filename incl es = Inr r"
  using named [of st filename] by (induction es) auto

lemma header_of_named: "Inv st \<Longrightarrow> \<exists>h. header_of env st filename ext = Inr h"
proof -
  assume st: "Inv st"
  from Extension_named [OF st] obtain e where "Extension env st filename = Inr e" by blast
  moreover obtain n where "RepositoryName env st
      (slice_to filename (int (length filename) - int (length e)) @ ''.'' @ ext) = Inr n"
    using named [OF st] by blast
  ultimately show ?thesis by (simp add: header_of_def Let_def)
qed

lemma third_src_header_named: "Inv st \<Longrightarrow> \<exists>b. third_src_header env st filename incl es = Inr b"
proof (induction es)
  case (Cons e es)
  from header_of_named [OF Cons.prems] obtain h where "header_of env st filename e = Inr h" by blast
  with Cons show ?case by (cases h) auto
qed auto

lemma check_include_order_safe:
  assumes "Inv st" "include_list ist \<noteq> []" "linenum < length (elided clean)"
  shows "\<exists>ist' st'. check_include_order env error filename clean linenum incl sys ist st = Inr (ist', st') \<and>
    include_list ist' = record_header incl linenum ist \<and> Inv st'"
proof -
  have cats: "''build/include_order'' \<in> set ERROR_CATEGORIES" "''build/include_alpha'' \<in> set ERROR_CATEGORIES"
    by (simp_all add: ERROR_CATEGORIES_def)
  let ?ist1 = "ist\<lparr>include_list := record_header incl linenum ist\<rparr>"
  from ClassifyInclude_named [OF assms(1)] obtain t where
    t: "ClassifyInclude env st filename incl sys = Inr t" by blast
  obtain msg ist2 where c: "CheckNextIncludeOrder t ?ist1 = (msg, ist2)" by fastforce
  then have l: "include_list ist2 = record_header incl linenum ist"
    using CheckNextIncludeOrder_list [of t ?ist1] by simp
  from BaseName_named [OF assms(1)] obtain base where base: "BaseName env st filename = Inr base" by blast
  from report_if [OF cats(1) _ _ assms(1), of 4 "msg \<noteq> []" filename "Some (int linenum)"
      "msg @ ''. Should be: '' @ base @ ''.h, c system, c++ system, other.''"] obtain st1 where
    1: "whenever (msg \<noteq> []) (error filename (Some (int linenum)) ''build/include_order'' 4
      (msg @ ''. Should be: '' @ base @ ''.h, c system, c++ system, other.'')) st = Inr st1" "Inv st1" by auto
  have "\<exists>b. IsInAlphabeticalOrder (elided clean) (int linenum) h ist2 = Inr b" for h
    using assms(3) by (auto simp: IsInAlphabeticalOrder_def py_index_def)
  then obtain b where b: "IsInAlphabeticalOrder (elided clean) (int linenum)
      (CanonicalizeAlphabeticalOrder incl) ist2 = Inr b" by blast
  from report_if [OF cats(2) _ _ 1(2), of 4 "\<not> b" filename "Some (int linenum)"] obtain st2 where
    \<open>whenever (\<not> b) (error filename (Some (int linenum)) ''build/include_alpha'' 4
       (''Include "'' @ incl @ ''" not in alphabetical order'')) st1 = Inr st2\<close> "Inv st2"
    by auto
  with t c 1(1) b l assms(2) base show ?thesis
    by (simp add: check_include_order_def Let_def record_header_def SetLastHeader_def whenever_def split: if_splits)
qed

text \<open>An include line ends in one of three ways: nothing to do, a report, or the recording of a new header.\<close>

lemma CheckIncludeLine_cases:
  assumes "Inv st" "linenum < length (clean_lines clean)"
  obtains st1 where "Inv st1" "CheckIncludeLine env error filename clean linenum ist st = Inr (ist, st1)"
  | st1 msg where "Inv st1" "CheckIncludeLine env error filename clean linenum ist st =
      py_bind (error filename (Some (int linenum)) ''build/include'' 4 msg st1) (\<lambda>st. Inr (ist, st))"
  | st1 m where "Inv st1" "re_search (re_const RE_PATTERN_INCLUDE) (clean_lines clean ! linenum) = Some m"
      "FindHeader (m_grp m 2) ist < 0" "CheckIncludeLine env error filename clean linenum ist st =
        check_include_order env error filename clean linenum (m_grp m 2) (m_grp m 1 = ''<'') ist st1"
proof -
  have cat: "''build/include_subdir'' \<in> set ERROR_CATEGORIES" by (simp add: ERROR_CATEGORIES_def)
  let ?line = "clean_lines clean ! linenum"
  define b where \<open>b = (case Match (raw ''#include`s*"([^/]+`.h)"'') ?line of
      Some m \<Rightarrow> re_match (re_const THIRD_PARTY_HEADERS_PATTERN) (m_grp m 1) = None | None \<Rightarrow> False)\<close>
  from report_if [OF cat _ _ assms(1), of 4 b filename "Some (int linenum)"] obtain st1 where
    1: "whenever b (error filename (Some (int linenum)) ''build/include_subdir'' 4
      ''Include the directory when naming .h files'') st = Inr st1" "Inv st1"
    by auto
  note unf = CheckIncludeLine_def b_def [symmetric] py_index_nat [OF assms(2)] py_bind.simps 1(1) Let_def
  show ?thesis
  proof (cases "re_search (re_const RE_PATTERN_INCLUDE) ?line")
    case None
    with 1(2) show ?thesis by (intro that(1) [of st1]) (simp_all add: unf)
  next
    case (Some m)
    from source_of_other_package_named [OF 1(2)] obtain other where
      o: "source_of_other_package env st1 filename (m_grp m 2) (GetNonHeaderExtensions st1) = Inr other" by blast
    from third_src_header_named [OF 1(2)] obtain own where
      own: "third_src_header env st1 filename (m_grp m 2) (GetHeaderExtensions st1) = Inr own" by blast
    consider "0 \<le> FindHeader (m_grp m 2) ist" | ext where "FindHeader (m_grp m 2) ist < 0" "other = Some ext"
      | "FindHeader (m_grp m 2) ist < 0" "other = None" by force
    then show ?thesis
    proof cases
      case 3
      with Some o own 1(2) show ?thesis
        by (cases "own \<or> re_match (re_const THIRD_PARTY_HEADERS_PATTERN) (m_grp m 2) = None")
          (auto simp: unf intro: that(1,3))
    qed (use Some o 1(2) in \<open>simp_all add: unf that(2)\<close>)
  qed
qed

lemma CheckIncludeLine_safe:
  assumes "Inv st" "include_inv ist" "linenum < length (elided clean)" "linenum < length (clean_lines clean)"
  shows "\<exists>ist' st'. CheckIncludeLine env error filename clean linenum ist st = Inr (ist', st') \<and> Inv st' \<and>
    (include_list ist' = include_list ist \<or>
     (\<exists>m. re_search (re_const RE_PATTERN_INCLUDE) (clean_lines clean ! linenum) = Some m \<and>
        FindHeader (m_grp m 2) ist < 0 \<and> include_list ist' = record_header (m_grp m 2) linenum ist))"
proof -
  have cat: "''build/include'' \<in> set ERROR_CATEGORIES" by (simp add: ERROR_CATEGORIES_def)
  from assms(1,4) show ?thesis
  proof (cases rule: CheckIncludeLine_cases [where filename = filename and ist = ist])
    case (2 st1 msg)
    from report [OF cat _ _ 2(1), of 4 filename "Some (int linenum)" msg] obtain st' where
      "error filename (Some (int linenum)) ''build/include'' 4 msg st1 = Inr st'" "Inv st'" by auto
    with 2(2) show ?thesis by simp
  next
    case (3 st1 m)
    from assms(2) have "include_list ist \<noteq> []" by (simp add: include_inv_def)
    from check_include_order_safe [OF 3(1) this assms(3)] 3(2-4) show ?thesis by metis
  qed simp
qed

end

text \<open>A report changes neither the repository setting nor, with it, the names of files.\<close>

lemma Error_repository: "Error filename linenum category confidence message st = Inr st' \<Longrightarrow> repository st' = repository st"
  by (auto simp: report_defs Let_def py_bind_Inr_iff split: if_splits)

definition files_named :: "os_env \<Rightarrow> lint \<Rightarrow> bool" where
  "files_named env st = (\<forall>filename. \<exists>name. RepositoryName env st filename = Inr name)"

lemma RepositoryName_repository:
  "repository st' = repository st \<Longrightarrow> RepositoryName env st' filename = RepositoryName env st filename"
  by (simp add: RepositoryName_def Let_def)

lemma files_named_repository: "repository st' = repository st \<Longrightarrow> files_named env st' = files_named env st"
  using RepositoryName_repository [of st' st env] by (simp add: files_named_def)

interpretation Named: naming_reporter Error "\<lambda>st. lint_inv st \<and> files_named env st" env for env
proof unfold_locales
  fix filename linenum category confidence message st
  assume "category \<in> set ERROR_CATEGORIES" "lint_inv st \<and> files_named env st"
  with Error_safe [of category st filename linenum confidence message]
  show "\<exists>st'. Error filename linenum category confidence message st = Inr st' \<and> lint_inv st' \<and> files_named env st'"
    using files_named_repository Error_repository by blast
next
  fix category line st
  assume "lint_inv st \<and> files_named env st"
  moreover have "repository (add_suppression category line st) = repository st" by (simp add: add_suppression_def)
  then have "files_named env (add_suppression category line st) = files_named env st" by (rule files_named_repository)
  ultimately show "lint_inv (add_suppression category line st) \<and> files_named env (add_suppression category line st)"
    using Err.suppression by simp
qed (simp add: files_named_def)

lemma subdir_needs: \<open>needs (re_const (raw ''#include`s*"([^/]+`.h)"'')) [CHR 0x22]\<close>
  by code_simp

lemma include_result:
  assumes "CheckIncludeLine env Error filename (CleansedLines lines) i ist st = Inr (ist', st')"
    and "i < length lines" "include_inv ist" "lint_inv st" "files_named env st"
  shows "include_inv ist' \<and> lint_inv st' \<and> (include_list ist' = include_list ist \<or>
     (\<exists>m. re_search (re_const RE_PATTERN_INCLUDE) (clean_lines (CleansedLines lines) ! i) = Some m \<and>
        FindHeader (m_grp m 2) ist < 0 \<and> include_list ist' = record_header (m_grp m 2) i ist))"
proof -
  from assms(4,5) have "lint_inv st \<and> files_named env st" ..
  with Named.CheckIncludeLine_safe [of st env ist i "CleansedLines lines" filename] assms(1-3)
  have r: "lint_inv st'" "include_list ist' = include_list ist \<or>
     (\<exists>m. re_search (re_const RE_PATTERN_INCLUDE) (clean_lines (CleansedLines lines) ! i) = Some m \<and>
        FindHeader (m_grp m 2) ist < 0 \<and> include_list ist' = record_header (m_grp m 2) i ist)"
    by simp_all
  then have "include_inv ist'" using assms(3) include_inv_record include_inv_list by blast
  with r show ?thesis by blast
qed

lemma include_map_plain: "list_all plain_line [''#include <map>'', ''#include <map>'']"
  by code_simp

section \<open>Properties\<close>

text \<open>Checking a line of the file for an \<open>#include\<close> never raises when every file has a name in
  the repository, and keeps the invariant of the include state (recorded headers are pairwise
  different) and the consistency of the error state; so does the reset at a conditional.\<close>

theorem include_line_safe:
  assumes "linenum < length lines" "include_inv ist" "lint_inv st"
    and "\<forall>f. \<exists>name. RepositoryName env st f = Inr name"
  shows "include_inv (ResetSection directive ist) \<and>
    (\<exists>ist' st'. CheckIncludeLine env Error filename (CleansedLines lines) linenum ist st = Inr (ist', st') \<and>
      include_inv ist' \<and> lint_inv st')"
proof -
  from assms(3,4) have "lint_inv st \<and> files_named env st" by (simp add: files_named_def)
  with Named.CheckIncludeLine_safe [of st env ist linenum "CleansedLines lines" filename] assms(1,2)
  obtain ist' st' where "CheckIncludeLine env Error filename (CleansedLines lines) linenum ist st = Inr (ist', st')" by auto
  with include_result [OF this] assms show ?thesis
    by (simp add: files_named_def include_inv_reset)
qed

theorem include_line_safe_witness:
  "include_inv (ResetSection ''endif'' IncludeState_init) \<and>
    (\<exists>ist' st'. CheckIncludeLine \<lparr>cwd = ''/w'', path_exists = (\<lambda>p. False)\<rparr> Error ''a.cc''
        (CleansedLines [''#include <map>'']) 0 IncludeState_init (lint_init CppLintState_init) = Inr (ist', st') \<and>
      include_inv ist' \<and> lint_inv st')"
proof (rule include_line_safe)
  show "lint_inv (lint_init CppLintState_init)" by code_simp
  show "\<forall>f. \<exists>name. RepositoryName \<lparr>cwd = ''/w'', path_exists = (\<lambda>p. False)\<rparr> (lint_init CppLintState_init) f = Inr name"
    by (simp add: RepositoryName_def)
qed (simp_all add: include_inv_init)

text \<open>A header is recorded once: if checking line \<open>i\<close> recorded the header \<open>h\<close> that the line
  includes in angle brackets, then a later line \<open>j\<close> that includes \<open>h\<close> draws exactly the
  report that names line \<open>i\<close>, whatever was reported in between, and records nothing.\<close>

theorem include_reported_twice:
  assumes "CheckIncludeLine env Error filename (CleansedLines lines) i ist st = Inr (ist1, st1)"
    and "include_list ist1 \<noteq> include_list ist" "include_inv ist" "lint_inv st"
    and "\<forall>f. \<exists>name. RepositoryName env st f = Inr name"
    and "i < length lines" "j < length lines"
    and "re_search (re_const RE_PATTERN_INCLUDE) (clean_lines (CleansedLines lines) ! i) = Some mi" "m_grp mi 2 = h"
    and "re_search (re_const RE_PATTERN_INCLUDE) (clean_lines (CleansedLines lines) ! j) = Some mj" "m_grp mj 2 = h"
    and "CHR 0x22 \<notin> set (clean_lines (CleansedLines lines) ! j)"
  shows \<open>CheckIncludeLine env Error filename (CleansedLines lines) j ist1 st2 =
    py_bind (Error filename (Some (int j)) ''build/include'' 4
      (''"'' @ h @ ''" already included at '' @ filename @ '':'' @ str_of_int (int i)) st2) (\<lambda>st. Inr (ist1, st))\<close>
proof -
  have "include_list ist1 = record_header h i ist" "FindHeader h ist < 0"
    using include_result [OF assms(1,6,3,4)] assms(2,5,8,9) by (auto simp: files_named_def)
  then have f: "FindHeader h ist1 = int i" using FindHeader_record [OF assms(3)] by blast

  have n: \<open>Match (raw ''#include`s*"([^/]+`.h)"'') (clean_lines (CleansedLines lines) ! j) = None\<close>
    unfolding Match_def using assms(12) by (intro re_match_needs [OF subdir_needs]) (simp only: sublist_single, simp)
  show ?thesis
    unfolding CheckIncludeLine_def using assms(7,10,11) f n by (simp add: whenever_def)
qed

theorem include_reported_twice_witness:
  \<open>\<exists>ist1. CheckIncludeLine \<lparr>cwd = ''/w'', path_exists = (\<lambda>p. False)\<rparr> Error ''a.cc''
      (CleansedLines [''#include <map>'', ''#include <map>'']) 1 ist1 (lint_init CppLintState_init) =
    py_bind (Error ''a.cc'' (Some (int 1)) ''build/include'' 4
      (''"'' @ ''map'' @ ''" already included at '' @ ''a.cc'' @ '':'' @ str_of_int (int 0)) (lint_init CppLintState_init))
      (\<lambda>st. Inr (ist1, st))\<close>
proof -
  let ?env = "\<lparr>cwd = ''/w'', path_exists = (\<lambda>p. False)\<rparr>" and ?ls = "[''#include <map>'', ''#include <map>'']"
    and ?st = "lint_init CppLintState_init"
  define clean where "clean = CleansedLines ?ls"
  have clean: "clean = \<lparr>elided = ?ls, clean_lines = ?ls, raw_lines = ?ls, num_lines = 2, lines_without_raw_strings = ?ls\<rparr>"
    using CleansedLines_plain [OF include_map_plain] CleansedLines_raw [of ?ls] unfolding clean_def
    by (intro cleansed_lines.equality) simp_all
  have m: "map_option (\<lambda>m. m_grp m 2) (re_search (re_const RE_PATTERN_INCLUDE) ''#include <map>'') = Some ''map''"
    by code_simp
  have "map_option (\<lambda>r. include_list (fst r)) (case CheckIncludeLine ?env Error ''a.cc''
      \<lparr>elided = ?ls, clean_lines = ?ls, raw_lines = ?ls, num_lines = 2, lines_without_raw_strings = ?ls\<rparr> 0 IncludeState_init ?st of
      Inl e \<Rightarrow> None | Inr r \<Rightarrow> Some r) = Some [[(''map'', 0)]]" by code_simp
  then obtain ist1 st1 where 1: "CheckIncludeLine ?env Error ''a.cc'' (CleansedLines ?ls) 0 IncludeState_init ?st = Inr (ist1, st1)"
    "include_list ist1 = [[(''map'', 0)]]" 
    unfolding clean [symmetric] clean_def by (auto split: sum.splits)
  from m obtain mo where mo: "re_search (re_const RE_PATTERN_INCLUDE) ''#include <map>'' = Some mo" "m_grp mo 2 = ''map''"
    by auto
  have l: "clean_lines (CleansedLines ?ls) ! 0 = ''#include <map>''" "clean_lines (CleansedLines ?ls) ! 1 = ''#include <map>''"
    using CleansedLines_plain [OF include_map_plain] by simp_all
  show ?thesis
  proof (rule exI, rule include_reported_twice [OF 1(1)])
    show "include_list ist1 \<noteq> include_list IncludeState_init"
      unfolding 1(2) by (simp add: IncludeState_init_def ResetSection_def Let_def)
    show "\<forall>f. \<exists>name. RepositoryName ?env ?st f = Inr name" by (simp add: RepositoryName_def)
    show "lint_inv ?st" by code_simp
    show "CHR 0x22 \<notin> set (clean_lines (CleansedLines ?ls) ! 1)" unfolding l by code_simp
  qed (unfold l, rule include_inv_init, simp, simp, (rule mo)+)
qed

text \<open>The prefix that \<open>FilesBelongToSameModule\<close> promises: for a source file and a header
  (neither a test nor an \<open>-inl\<close> header, no \<open>public\<close> or \<open>internal\<close> directory in their names)
  it says that they belong to the same module exactly when the header's stem ends the
  source's stem, and then the prefix put before the header's name is the name of the header
  beside the source file.\<close>

theorem same_module_prefix:
  assumes "Extension env st filename_cc = Inr ec" "Extension env st filename_h = Inr eh"
    and "str_lstrip_chars ec ''.'' \<in> set (GetNonHeaderExtensions st)" "IsHeaderExtension st (str_lstrip_chars eh ''.'')"
    and "filename_cc = c @ ec" "filename_h = h @ eh" "ec \<noteq> []" "eh \<noteq> []" "h \<noteq> []"
    and "BaseName env st filename_cc = Inr base" "Search TEST_FILE_SUFFIX base = None" "\<not> endswith h ''-inl''"
    and "\<not> sublist ''/public/'' c" "\<not> sublist ''/internal/'' c" "\<not> sublist ''/public/'' h" "\<not> sublist ''/internal/'' h"
  shows "\<exists>p. FilesBelongToSameModule env st filename_cc filename_h = Inr (endswith c h, p) \<and>
    (endswith c h \<longrightarrow> p @ filename_h = c @ eh) \<and> (\<not> endswith c h \<longrightarrow> p = [])"
proof -
  have d: "drop_module_dirs c = c" "drop_module_dirs h = h"
    using assms(13-16) by (simp_all add: drop_module_dirs_def str_replace_absent)
  have "FilesBelongToSameModule env st filename_cc filename_h =
      Inr (endswith c h, if endswith c h then slice_to c (- int (length h)) else [])"
    using assms(1-4,10-12) slice_to_before [OF assms(7), of c] slice_to_before [OF assms(8), of h]
    by (simp add: FilesBelongToSameModule_def Let_def assms(5,6) [symmetric] d)
  moreover have "slice_to c (- int (length h)) @ h = c" if "endswith c h"
    using that slice_to_before [OF assms(9)] by (auto simp: suffix_def)
  ultimately show ?thesis using assms(6) by auto
qed

theorem same_module_prefix_witness:
  "\<exists>p. FilesBelongToSameModule \<lparr>cwd = ''/w'', path_exists = (\<lambda>p. False)\<rparr> (lint_init CppLintState_init)
      ''/abs/base/sys.cc'' ''base/sys.h'' = Inr (endswith ''/abs/base/sys'' ''base/sys'', p) \<and>
    (endswith ''/abs/base/sys'' ''base/sys'' \<longrightarrow> p @ ''base/sys.h'' = ''/abs/base/sys'' @ ''.h'') \<and>
    (\<not> endswith ''/abs/base/sys'' ''base/sys'' \<longrightarrow> p = [])"
  by (rule same_module_prefix [where ec = "''.cc''" and base = "''sys''"]) code_simp+

end
