(* ===== verification/Brace_Checks.thy ===== *)
theory Brace_Checks
  imports Spacing_Checks Header_Guard Include_Checks
begin

text \<open>
  The checks of \<open>cpplint.py\<close> on braces and bodies (\<open>CheckBraces\<close>, \<open>CheckTrailingSemicolon\<close>,
  \<open>CheckEmptyBlockBody\<close>), on CHECK macros (\<open>CheckCheck\<close>), and \<open>CheckStyle\<close>, which runs all
  style checks on a line.
\<close>

section \<open>Braces\<close>

text \<open>
  The width of a line in columns: below code point 256 no character is wide, combining or
  changed by the normalisation, so every character has one column.
\<close>

definition GetLineWidth :: "string \<Rightarrow> int" where
  "GetLineWidth line = int (length line)"

definition check_brace_placement :: "error_fn \<Rightarrow> string \<Rightarrow> cleansed_lines \<Rightarrow> nat \<Rightarrow> string \<Rightarrow> action" where
  "check_brace_placement error filename clean linenum line st =
     run [whenever (Match (raw ''`s*{`s*$'') line \<noteq> None \<and>
            (let prevline = fst (GetPreviousNonBlankLine clean linenum) in
             Search (raw ''[,;:}{(]`s*$'') prevline = None \<and> Match (raw ''`s*#'') prevline = None \<and>
             \<not> (GetLineWidth prevline > line_length st - 2 \<and> str_in ''[]'' prevline)))
            (error filename (Some (int linenum)) ''whitespace/braces'' 4
              ''{ should almost always be at the end of the previous line''),
          whenever (Match (raw ''`s*else`b`s*(?:if`b|`{|$)'') line \<noteq> None \<and>
            Match (raw ''`s*}`s*$'') (fst (GetPreviousNonBlankLine clean linenum)) \<noteq> None)
            (error filename (Some (int linenum)) ''whitespace/newline'' 4
              ''An else should appear on the same line as the preceding }'')] st"

definition check_else_braces :: "error_fn \<Rightarrow> string \<Rightarrow> cleansed_lines \<Rightarrow> nat \<Rightarrow> string \<Rightarrow> action" where
  "check_else_braces error filename clean linenum line =
     (let report = error filename (Some (int linenum)) ''readability/braces'' 5
            ''If an else has a brace on one side, it should have it on both'' in
      if Search (raw ''else if`s*`('') line \<noteq> None then
        (let brace_on_left = (Search (raw ''}`s*else if`s*`('') line \<noteq> None);
             pos = str_find_at line ''('' (nat (str_find line ''else if''))
         in if pos > 0 then
              (\<lambda>st. py_bind (CloseExpression clean linenum (nat pos)) (\<lambda>(endline, _, endpos).
                 whenever (brace_on_left \<noteq> (str_find (slice_from endline endpos) ''{'' \<noteq> -1)) report st))
            else Inr)
      else whenever (Search (raw ''}`s*else[^{]*$'') line \<noteq> None \<or> Match (raw ''[^}]*else`s*{'') line \<noteq> None) report)"

text \<open>The line with the first semicolon from \<open>endlinenum\<close> on, on the first line from \<open>endpos\<close> on.\<close>

fun semicolon_line :: "nat \<Rightarrow> string list \<Rightarrow> int \<Rightarrow> nat option" where
  "semicolon_line i [] endpos = None"
| "semicolon_line i (l # ls) endpos =
     (if str_in '';'' (slice_from l endpos) then Some i else semicolon_line (i + 1) ls 0)"

definition BODY_LAMBDA :: string where
  "BODY_LAMBDA = raw ''^[^{};]*`[[^`[`]]*`][^{}]*`{[^{}]*`}`s*`)*[;,]`s*$''"

definition check_single_body :: "error_fn \<Rightarrow> string \<Rightarrow> cleansed_lines \<Rightarrow> nat \<Rightarrow> nat \<Rightarrow> bool \<Rightarrow>
    string \<times> nat \<times> int \<Rightarrow> action" where
  "check_single_body error filename clean linenum if_indent is_if = (\<lambda>(endline, endlinenum, endpos).
     let ls = elided clean; report = error filename (Some (int linenum)) ''readability/braces'' 4 in
     whenever (Match (raw ''`s*{'') (slice_from endline endpos) = None \<and>
               \<not> (Match (raw ''`s*$'') (slice_from endline endpos) \<noteq> None \<and> int endlinenum < int (length ls) - 1 \<and>
                  Match (raw ''`s*{'') (ls ! (endlinenum + 1)) \<noteq> None))
       (case semicolon_line endlinenum (drop endlinenum ls) endpos of
          None \<Rightarrow> Inr
        | Some n \<Rightarrow>
            (let endline = ls ! n; semicolon = str_find endline '';'' in
             if Match (raw '';[`s}]*(``?)$'') (slice_from endline semicolon) = None then
               whenever (Match BODY_LAMBDA endline = None) (report ''If/else bodies with multiple statements require braces'')
             else
               whenever (int n < int (length ls) - 1)
                 (let next_line = ls ! (n + 1); next_indent = GetIndentLevel next_line in
                  if is_if \<and> Match (raw ''`s*else`b'') next_line \<noteq> None \<and> next_indent \<noteq> if_indent then
                    report (''Else clause should be indented at the same level as if. '' @
                            ''Ambiguous nested if/else chains require braces.'')
                  else whenever (next_indent > if_indent)
                         (report ''If/else bodies with multiple statements require braces'')))))"

definition check_if_body :: "error_fn \<Rightarrow> string \<Rightarrow> cleansed_lines \<Rightarrow> nat \<Rightarrow> string \<Rightarrow> action" where
  "check_if_body error filename clean linenum line =
     (case Search (raw ''`b(if`s*`(|else`b)'') line of
        None \<Rightarrow> Inr
      | Some if_else_match \<Rightarrow>
          whenever (Match (raw ''`s*#'') line = None)
            (let if_indent = GetIndentLevel line in
             case Search (raw ''`bif`s*`('') line of
               Some if_match \<Rightarrow> (\<lambda>st.
                 py_bind (CloseExpression clean linenum (m_end if_match - 1)) (\<lambda>e.
                   check_single_body error filename clean linenum if_indent True e st))
             | None \<Rightarrow>
                 check_single_body error filename clean linenum if_indent False (line, linenum, int (m_end if_else_match))))"

definition CheckBraces :: "error_fn \<Rightarrow> string \<Rightarrow> cleansed_lines \<Rightarrow> nat \<Rightarrow> action" where
  "CheckBraces error filename clean linenum =
     with_line (elided clean) linenum (\<lambda>line.
       run [check_brace_placement error filename clean linenum line,
            check_else_braces error filename clean linenum line,
            whenever (Search (raw ''`belse [^`s{]'') line \<noteq> None \<and> Search (raw ''`belse if`b'') line = None)
              (error filename (Some (int linenum)) ''whitespace/newline'' 4
                ''Else clause should never be on same line as else (use 2 lines)''),
            whenever (Match (raw ''`s*do [^`s{]'') line \<noteq> None)
              (error filename (Some (int linenum)) ''whitespace/newline'' 4
                ''do/while clauses should not be on a single line''),
            check_if_body error filename clean linenum line])"

section \<open>Semicolons after a block\<close>

definition SAFE_MACROS :: "string list" where
  "SAFE_MACROS = [''TEST'', ''TEST_F'', ''MATCHER'', ''MATCHER_P'', ''TYPED_TEST'',
     ''EXCLUSIVE_LOCKS_REQUIRED'', ''SHARED_LOCKS_REQUIRED'', ''LOCKS_EXCLUDED'', ''INTERFACE_DEF'']"

text \<open>What stands before the opening parenthesis excludes the warning.\<close>

definition block_prefix_exempt :: "string \<Rightarrow> bool" where
  "block_prefix_exempt line_prefix =
     ((case Search (raw ''`b([A-Z_][A-Z0-9_]*)`s*$'') line_prefix of
         Some macro \<Rightarrow> m_grp macro 1 \<notin> set SAFE_MACROS | None \<Rightarrow> False) \<or>
      (case Match (raw ''^(.*`])`s*$'') line_prefix of
         Some func \<Rightarrow> Search (raw ''`boperator`s*`[`s*`]'') (m_grp func 1) = None | None \<Rightarrow> False) \<or>
      Search (raw ''`b(?:struct|union)`s+alignas`s*$'') line_prefix \<noteq> None \<or>
      Search (raw ''`bdecltype$'') line_prefix \<noteq> None \<or>
      Search (raw ''`s+=`s*$'') line_prefix \<noteq> None)"

definition BLOCK_AFTER_PAREN :: string where
  "BLOCK_AFTER_PAREN = raw ''^(.*`)`s*)`{''"

definition BLOCK_AFTER_ELSE :: string where
  "BLOCK_AFTER_ELSE = raw ''^(.*(?:else|`)`s*const)`s*)`{''"

definition BLOCK_ALONE :: string where
  "BLOCK_ALONE = raw ''^(`s*)`{''"

text \<open>The text before the opening brace of a block that needs no semicolon, if there is one.\<close>

definition block_head :: "cleansed_lines \<Rightarrow> nat \<Rightarrow> string \<Rightarrow> string option py" where
  "block_head clean linenum line =
     (case Match BLOCK_AFTER_PAREN line of
        Some m \<Rightarrow>
          py_bind (ReverseCloseExpression clean linenum (nat (str_rfind_char (m_grp m 1) (CHR '')'')))) (\<lambda>(text, n, pos).
            Inr (if pos > -1 \<and> block_prefix_exempt (take (nat pos) text) then None
                 else if n > 1 \<and> Search (raw ''`]`s*$'') (elided clean ! (n - 1)) \<noteq> None then None
                 else Some (m_grp m 1)))
      | None \<Rightarrow>
          Inr (case Match BLOCK_AFTER_ELSE line of
                 Some m \<Rightarrow> Some (m_grp m 1)
               | None \<Rightarrow>
                   (let prevline = fst (GetPreviousNonBlankLine clean linenum) in
                    if prevline \<noteq> [] \<and> Search (raw ''[;{}]`s*$'') prevline \<noteq> None
                    then map_option (\<lambda>m. m_grp m 1) (Match BLOCK_ALONE line) else None)))"

definition CheckTrailingSemicolon :: "error_fn \<Rightarrow> string \<Rightarrow> cleansed_lines \<Rightarrow> nat \<Rightarrow> action" where
  "CheckTrailingSemicolon error filename clean linenum =
     with_line (elided clean) linenum (\<lambda>line st.
       py_bind (block_head clean linenum line) (\<lambda>head.
         case head of
           None \<Rightarrow> Inr st
         | Some text \<Rightarrow>
             py_bind (CloseExpression clean linenum (length text)) (\<lambda>(endline, endlinenum, endpos).
               whenever (endpos > -1 \<and> Match (raw ''^`s*;'') (slice_from endline endpos) \<noteq> None)
                 (run [(\<lambda>st. py_bind (py_index (raw_lines clean) (int endlinenum - 1)) (\<lambda>l.
                         ParseNolintSuppressions error filename l (int endlinenum - 1) st)),
                       (\<lambda>st. py_bind (py_index (raw_lines clean) (int endlinenum)) (\<lambda>l.
                         ParseNolintSuppressions error filename l (int endlinenum) st)),
                       error filename (Some (int endlinenum)) ''readability/braces'' 4
                         (''You don'' @ [CHR 0x27] @ ''t need a ; after a }'')]) st)))"

section \<open>Empty bodies\<close>

definition EMPTY_CONDITIONAL_BODY_PATTERN :: string where
  "EMPTY_CONDITIONAL_BODY_PATTERN = raw ''^`s*$''"

text \<open>The loop that looks for the opening brace of the body: the line and the fragment that begins with it.\<close>

fun find_opening :: "nat \<Rightarrow> string list \<Rightarrow> string \<Rightarrow> (nat \<times> string) option" where
  "find_opening opening_linenum rest fragment =
     (if Search (raw ''^`s*`{'') fragment \<noteq> None then Some (opening_linenum, fragment)
      else if Search (raw ''^(?!`s*$)'') fragment \<noteq> None then None
      else (case rest of [] \<Rightarrow> None | l # ls \<Rightarrow> find_opening (opening_linenum + 1) ls l))"

declare find_opening.simps [simp del]

text \<open>The loop after the body: no \<open>else\<close> before other code or the end of the file.\<close>

fun no_else_clause :: "string list \<Rightarrow> string \<Rightarrow> bool" where
  "no_else_clause rest fragment =
     (if Search (raw ''^`s*$|^(?=`s*else)'') fragment \<noteq> None then
        Search (raw ''^(?=`s*else)'') fragment = None \<and>
        (case rest of [] \<Rightarrow> True | l # ls \<Rightarrow> no_else_clause ls l)
      else True)"

declare no_else_clause.simps [simp del]

text \<open>The text of the body, comments included, from behind the opening to before the closing brace.\<close>

definition body_text :: "cleansed_lines \<Rightarrow> nat \<Rightarrow> int \<Rightarrow> nat \<Rightarrow> int \<Rightarrow> string" where
  "body_text clean opening_linenum opening_pos closing_linenum closing_pos =
     (let opening_line = elided clean ! opening_linenum in
      if closing_linenum > opening_linenum then
        str_join [newline]
          (map (\<lambda>c. [c]) (slice_from opening_line (opening_pos + 1)) @
           drop (opening_linenum + 1) (take closing_linenum (raw_lines clean)) @
           [slice_to (elided clean ! closing_linenum) (closing_pos - 1)])
      else py_slice opening_line (opening_pos + 1) (closing_pos - 1))"

definition check_empty_if :: "error_fn \<Rightarrow> string \<Rightarrow> cleansed_lines \<Rightarrow> string \<Rightarrow> nat \<Rightarrow> int \<Rightarrow> action" where
  "check_empty_if error filename clean end_line end_linenum end_pos =
     (case find_opening end_linenum (drop (end_linenum + 1) (elided clean)) (slice_from end_line end_pos) of
        None \<Rightarrow> Inr
      | Some (opening_linenum, fragment) \<Rightarrow>
          (let opening_pos = str_find fragment ''{'' + (if opening_linenum = end_linenum then end_pos else 0) in
           (\<lambda>st. py_bind (CloseExpression clean opening_linenum (nat opening_pos)) (\<lambda>(closing_line, closing_linenum, closing_pos).
              whenever (\<not> closing_pos < 0 \<and>
                        raw_lines clean ! opening_linenum = CleanseComments (raw_lines clean ! opening_linenum) \<and>
                        re_search (re_const EMPTY_CONDITIONAL_BODY_PATTERN)
                          (body_text clean opening_linenum opening_pos closing_linenum closing_pos) \<noteq> None \<and>
                        no_else_clause (drop (closing_linenum + 1) (elided clean)) (slice_from closing_line closing_pos))
                (error filename (Some (int end_linenum)) ''whitespace/empty_if_body'' 4
                  ''If statement had no body and no else clause'') st))))"

definition CheckEmptyBlockBody :: "error_fn \<Rightarrow> string \<Rightarrow> cleansed_lines \<Rightarrow> nat \<Rightarrow> action" where
  "CheckEmptyBlockBody error filename clean linenum =
     with_line (elided clean) linenum (\<lambda>line.
       case Match (raw ''`s*(for|while|if)`s*`('') line of
         None \<Rightarrow> Inr
       | Some matched \<Rightarrow> (\<lambda>st.
           py_bind (CloseExpression clean linenum (nat (str_find line ''(''))) (\<lambda>(end_line, end_linenum, end_pos).
             run [whenever (end_pos \<ge> 0 \<and> Match '';'' (slice_from end_line end_pos) \<noteq> None)
                    (if m_grp matched 1 = ''if''
                     then error filename (Some (int end_linenum)) ''whitespace/empty_conditional_body'' 5
                            ''Empty conditional bodies should use {}''
                     else error filename (Some (int end_linenum)) ''whitespace/empty_loop_body'' 5
                            ''Empty loop bodies should use {} or continue''),
                  whenever (end_pos \<ge> 0 \<and> m_grp matched 1 = ''if'')
                    (check_empty_if error filename clean end_line end_linenum end_pos)] st)))"

section \<open>CHECK macros\<close>

definition CHECK_MACROS :: "string list" where
  "CHECK_MACROS = [''DCHECK'', ''CHECK'', ''EXPECT_TRUE'', ''ASSERT_TRUE'', ''EXPECT_FALSE'', ''ASSERT_FALSE'']"

definition RELATIONAL :: "(string \<times> string) list" where
  "RELATIONAL = [(''=='', ''EQ''), (''!='', ''NE''), (''>='', ''GE''), (''>'', ''GT''), (''<='', ''LE''), (''<'', ''LT'')]"

definition INVERSE_RELATIONAL :: "(string \<times> string) list" where
  "INVERSE_RELATIONAL = [(''=='', ''NE''), (''!='', ''EQ''), (''>='', ''LT''), (''>'', ''LE''), (''<='', ''GT''), (''<'', ''GE'')]"

definition CHECK_REPLACEMENT :: "string \<Rightarrow> (string \<times> string) list" where
  "CHECK_REPLACEMENT macro =
     (let prefixed = (\<lambda>p table. map (\<lambda>(op, r). (op, p @ r)) table) in
      if macro = ''DCHECK'' then prefixed ''DCHECK_'' RELATIONAL
      else if macro = ''CHECK'' then prefixed ''CHECK_'' RELATIONAL
      else if macro = ''EXPECT_TRUE'' then prefixed ''EXPECT_'' RELATIONAL
      else if macro = ''ASSERT_TRUE'' then prefixed ''ASSERT_'' RELATIONAL
      else if macro = ''EXPECT_FALSE'' then prefixed ''EXPECT_'' INVERSE_RELATIONAL
      else if macro = ''ASSERT_FALSE'' then prefixed ''ASSERT_'' INVERSE_RELATIONAL
      else [])"

fun find_check_macro :: "string \<Rightarrow> string list \<Rightarrow> (string \<times> nat) option" where
  "find_check_macro line [] = None"
| "find_check_macro line (macro # ms) =
     (if str_find line macro \<ge> 0 then
        (case Match (raw ''^(.*`b'' @ macro @ raw ''`s*)`('') line of
           None \<Rightarrow> find_check_macro line ms
         | Some matched \<Rightarrow> Some (macro, length (m_grp matched 1)))
      else find_check_macro line ms)"

definition FindCheckMacro :: "string \<Rightarrow> (string \<times> nat) option" where
  "FindCheckMacro line = find_check_macro line CHECK_MACROS"

definition CHECK_OPERATOR :: string where
  "CHECK_OPERATOR = raw ''^`s*(<<|<<=|>>|>>=|->`*|->|&&|`|`||'' @ raw ''==|!=|>=|>|<=|<|`()(.*)$''"

definition CHECK_OPERAND :: string where
  "CHECK_OPERAND = ''^([^-=!<>()&|]+)(.*)$''"

definition CHECK_CHARACTER :: string where
  "CHECK_CHARACTER = raw ''^(`s*`S)(.*)$''"

lemma check_tail_groups:
  "tail_group (re_const CHECK_OPERATOR) 2" "tail_group (re_const CHECK_OPERAND) 2" "tail_group (re_const CHECK_CHARACTER) 2"
  by code_simp+

lemmas check_rest = Match_tail_group [OF _ check_tail_groups(1)] Match_tail_group [OF _ check_tail_groups(2)]
  Match_tail_group [OF _ check_tail_groups(3)]

text \<open>
  The loop over the expression: None when it gives up, else the left operand, the relational
  operator if one was found, and the right operand.
\<close>

function split_check :: "string \<Rightarrow> string \<Rightarrow> (string \<times> string option \<times> string) option" where
  "split_check expression lhs =
     (if expression = [] then Some (lhs, None, [])
      else
        (case Match CHECK_OPERATOR expression of
           Some matched \<Rightarrow>
             (let token = m_grp matched 1; rest = m_grp matched 2 in
              if token = ''('' then
                (let e = fst (FindEndOfExpressionInLine rest 0 ''('') in
                 if e < 0 then None
                 else split_check (drop (nat e) rest) (lhs @ ''('' @ take (nat e) rest))
              else if token = ''&&'' \<or> token = ''||'' then None
              else if token \<in> {''<<'', ''<<='', ''>>'', ''>>='', ''->*'', ''->''} then split_check rest (lhs @ token)
              else Some (lhs, Some token, rest))
         | None \<Rightarrow>
             (case Match CHECK_OPERAND expression of
                Some matched \<Rightarrow> split_check (m_grp matched 2) (lhs @ m_grp matched 1)
              | None \<Rightarrow>
                  (case Match CHECK_CHARACTER expression of
                     Some matched \<Rightarrow> split_check (m_grp matched 2) (lhs @ m_grp matched 1)
                   | None \<Rightarrow> Some (lhs, None, [])))))"
  by pat_completeness auto
termination
  by (relation "measure (\<lambda>(expression, lhs). length expression)")
     (auto intro: le_less_trans [OF diff_le_self] dest: check_rest)

declare split_check.simps [simp del]

definition CONSTANT_OPERAND :: string where
  \<open>CONSTANT_OPERAND = raw ''^([-+]?(`d+|0[xX][0-9a-fA-F]+)[lLuU]{0,3}|".*"|'' @ [CHR 0x27] @ ''.*'' @ [CHR 0x27] @ '')$''\<close>

text \<open>The text between the parentheses of the macro, over all lines of the expression.\<close>

definition check_expression :: "string list \<Rightarrow> nat \<Rightarrow> nat \<Rightarrow> string \<times> nat \<times> int \<Rightarrow> string" where
  "check_expression lines linenum start_pos = (\<lambda>(last_line, end_line, end_pos).
     if linenum = end_line then py_slice (lines ! linenum) (int start_pos + 1) (end_pos - 1)
     else drop (start_pos + 1) (lines ! linenum) @ concat (drop (linenum + 1) (take end_line lines)) @
          slice_to last_line (end_pos - 1))"

definition CheckCheck :: "error_fn \<Rightarrow> string \<Rightarrow> cleansed_lines \<Rightarrow> nat \<Rightarrow> action" where
  "CheckCheck error filename clean linenum =
     with_line (elided clean) linenum (\<lambda>line.
       case FindCheckMacro line of
         None \<Rightarrow> Inr
       | Some (check_macro, start_pos) \<Rightarrow> (\<lambda>st.
           py_bind (CloseExpression clean linenum start_pos) (\<lambda>(last_line, end_line, end_pos).
             if end_pos < 0 \<or> Match (raw ''`s*;'') (slice_from last_line end_pos) = None then Inr st
             else
               (case split_check (check_expression (elided clean) linenum start_pos (last_line, end_line, end_pos)) [] of
                  Some (lhs, Some operator, rhs) \<Rightarrow>
                    if lhs = [] \<or> rhs = [] \<or> str_find rhs ''&&'' > -1 \<or> str_find rhs ''||'' > -1 then Inr st
                    else if Match CONSTANT_OPERAND (str_strip lhs) \<noteq> None \<or> Match CONSTANT_OPERAND (str_strip rhs) \<noteq> None then
                      (case map_of (CHECK_REPLACEMENT check_macro) operator of
                         None \<Rightarrow> Inl (KeyError operator)
                       | Some replacement \<Rightarrow>
                           error filename (Some (int linenum)) ''readability/check'' 2
                             (''Consider using '' @ replacement @ '' instead of '' @ check_macro @ ''(a '' @ operator @ '' b)'') st)
                    else Inr st
                | _ \<Rightarrow> Inr st))))"

section \<open>All style checks on a line\<close>

definition SCOPE_OR_LABEL :: string where
  "SCOPE_OR_LABEL = raw ''`s*`w+`s*:`s*``?$''"

text \<open>One or three spaces at the start of the line, unless it continues a line, is a label, or
  holds the end of a raw string.\<close>

definition weird_indent :: "cleansed_lines \<Rightarrow> nat \<Rightarrow> string \<Rightarrow> string \<Rightarrow> bool" where
  \<open>weird_indent clean linenum prev line =
     (let initial_spaces = length (takeWhile (\<lambda>c. c = CHR '' '') line) in
      Search (raw ''[",=><] *$'') prev = None \<and> (initial_spaces = 1 \<or> initial_spaces = 3) \<and>
      Match SCOPE_OR_LABEL (elided clean ! linenum) = None \<and>
      \<not> (raw_lines clean ! linenum \<noteq> line \<and> Match (raw ''^`s*""'') line \<noteq> None))\<close>

definition is_header_guard :: "os_env \<Rightarrow> string \<Rightarrow> string \<Rightarrow> string \<Rightarrow> lint \<Rightarrow> bool py" where
  "is_header_guard env filename file_extension line st =
     (if IsHeaderExtension st file_extension then
        py_bind (GetHeaderGuardCPPVariable env st filename) (\<lambda>cppvar.
          Inr (startswith line (''#ifndef '' @ cppvar) \<or> startswith line (''#define '' @ cppvar) \<or>
               startswith line (''#endif  // '' @ cppvar)))
      else Inr False)"

text \<open>Lines that may be long: includes, addresses, identification and documentation comments.\<close>

definition may_be_long :: "string \<Rightarrow> bool" where
  "may_be_long line =
     (startswith line ''#include'' \<or>
      Match (raw ''^`s*//.*http(s?)://`S*$'') line \<noteq> None \<or>
      Match (raw ''^`s*//`s*[^`s]*$'') line \<noteq> None \<or>
      Match (raw ''^// `$Id:.*#[0-9]+ `$$'') line \<noteq> None \<or>
      Match (raw ''^`s*/// [@``](copydoc|copydetails|copybrief) .*$'') line \<noteq> None)"

definition check_line_length :: "error_fn \<Rightarrow> os_env \<Rightarrow> string \<Rightarrow> string \<Rightarrow> string \<Rightarrow> nat \<Rightarrow> action" where
  "check_line_length error env filename file_extension line linenum st =
     py_bind (is_header_guard env filename file_extension line st) (\<lambda>guard.
       whenever (\<not> may_be_long line \<and> \<not> guard \<and> GetLineWidth line > line_length st)
         (error filename (Some (int linenum)) ''whitespace/line_length'' 2
           (''Lines should be <= '' @ str_of_int (line_length st) @ '' characters long'')) st)"

definition many_commands :: "cleansed_lines \<Rightarrow> nat \<Rightarrow> string \<Rightarrow> bool" where
  "many_commands clean linenum line =
     (let cleansed_line = elided clean ! linenum; prevline = fst (GetPreviousNonBlankLine clean linenum) in
      str_count cleansed_line '';'' > 1 \<and>
      Match (raw ''^[^{};]*`[[^`[`]]*`][^{}]*`{[^{}`n`r]*`}'') line = None \<and>
      str_find cleansed_line ''for'' = -1 \<and>
      (str_find prevline ''for'' = -1 \<or> str_find prevline '';'' \<noteq> -1) \<and>
      \<not> ((str_find cleansed_line ''case '' \<noteq> -1 \<or> str_find cleansed_line ''default:'' \<noteq> -1) \<and>
         str_find cleansed_line ''break;'' \<noteq> -1))"

definition check_section :: "error_fn \<Rightarrow> string \<Rightarrow> cleansed_lines \<Rightarrow> nat \<Rightarrow> nesting_state \<Rightarrow> action" where
  "check_section error filename clean linenum ns =
     (case InnermostClass ns of
        None \<Rightarrow> Inr
      | Some b \<Rightarrow>
          (case kind b of
             ClassInfo class_info \<Rightarrow> CheckSectionSpacing error filename clean b class_info linenum
           | _ \<Rightarrow> Inr))"

definition CheckStyle :: "error_fn \<Rightarrow> os_env \<Rightarrow> string \<Rightarrow> cleansed_lines \<Rightarrow> nat \<Rightarrow> string \<Rightarrow> nesting_state \<Rightarrow> action" where
  "CheckStyle error env filename clean linenum file_extension ns =
     with_line (lines_without_raw_strings clean) linenum (\<lambda>line.
     with_line (elided clean) linenum (\<lambda>_.
       let prev = (if linenum > 0 then lines_without_raw_strings clean ! (linenum - 1) else []) in
       run [whenever (str_find line [CHR 0x09] \<noteq> -1)
              (error filename (Some (int linenum)) ''whitespace/tab'' 1 ''Tab found; better to use spaces''),
            whenever (weird_indent clean linenum prev line)
              (error filename (Some (int linenum)) ''whitespace/indent'' 3
                (''Weird number of spaces at line-start.  '' @ ''Are you using a 2-space indent?'')),
            whenever (line \<noteq> [] \<and> is_space (last line))
              (error filename (Some (int linenum)) ''whitespace/end_of_line'' 4
                ''Line ends in whitespace.  Consider deleting these extra spaces.''),
            check_line_length error env filename file_extension line linenum,
            whenever (many_commands clean linenum line)
              (error filename (Some (int linenum)) ''whitespace/newline'' 0 ''More than one command on the same line''),
            CheckBraces error filename clean linenum,
            CheckTrailingSemicolon error filename clean linenum,
            CheckEmptyBlockBody error filename clean linenum,
            CheckSpacing error filename clean linenum ns,
            CheckOperatorSpacing error filename clean linenum,
            CheckParenthesisSpacing error filename clean linenum,
            CheckCommaSpacing error filename clean linenum,
            CheckBracesSpacing error filename clean linenum ns,
            CheckSpacingForFunctionCall error filename clean linenum,
            CheckCheck error filename clean linenum,
            CheckAltTokens error filename clean linenum,
            check_section error filename clean linenum ns]))"

section \<open>Safety\<close>

lemma brace_groups:
  "lead_group (re_const BLOCK_AFTER_PAREN) 1" "lead_group (re_const BLOCK_AFTER_ELSE) 1" "lead_group (re_const BLOCK_ALONE) 1"
  by code_simp+

lemma check_macro_groups: "list_all (\<lambda>macro. lead_group (re_const (raw ''^(.*`b'' @ macro @ raw ''`s*)`('')) 1) CHECK_MACROS"
  by code_simp

lemma check_operator_words:
  "group_sure (re_const CHECK_OPERATOR) 1"
  "group_in (re_const CHECK_OPERATOR) 1
     [''<<'', ''<<='', ''>>'', ''>>='', ''->*'', ''->'', ''&&'', ''||'', ''=='', ''!='', ''>='', ''>'', ''<='', ''<'', ''('']"
  by code_simp+

definition relational :: "string \<Rightarrow> bool" where
  "relational op = (op \<in> set (map fst RELATIONAL))"

lemma operator_token:
  assumes "Match CHECK_OPERATOR s = Some m" "m_grp m 1 \<notin> {''('', ''&&'', ''||'', ''<<'', ''<<='', ''>>'', ''>>='', ''->*'', ''->''}"
  shows "relational (m_grp m 1)"
  using Match_group_text [OF assms(1) check_operator_words] assms(2) by (simp add: relational_def RELATIONAL_def)

lemma split_check_operator:
  "split_check expression lhs = Some (l, Some op, r) \<Longrightarrow> relational op"
proof (induction expression lhs rule: split_check.induct)
  case (1 expression lhs)
  note prems = "1.prems" [unfolded split_check.simps [of expression]]
  from prems have ne: "expression \<noteq> []" by auto
  show ?case
  proof (cases "Match CHECK_OPERATOR expression")
    case None
    show ?thesis
    proof (cases "Match CHECK_OPERAND expression")
      case (Some m)
      from "1.IH"(2) [OF ne None Some] prems ne None Some show ?thesis by simp
    next
      case operand: None
      from "1.IH"(1) [OF ne None operand] prems ne None operand show ?thesis by (simp split: option.splits)
    qed
  next
    case m: (Some m)
    note ih = "1.IH"(3,4) [OF ne m refl refl]
    show ?thesis
      using ih prems ne operator_token [OF m] by (auto simp: m Let_def split: if_splits)
  qed
qed

lemma check_replacement_total:
  "list_all (\<lambda>macro. list_all (\<lambda>op. map_of (CHECK_REPLACEMENT macro) op \<noteq> None) (map fst RELATIONAL)) CHECK_MACROS"
  by code_simp

lemma find_check_macro_position:
  "find_check_macro line ms = Some (macro, pos) \<Longrightarrow>
   list_all (\<lambda>macro. lead_group (re_const (raw ''^(.*`b'' @ macro @ raw ''`s*)`('')) 1) ms \<Longrightarrow>
   macro \<in> set ms \<and> pos < length line"
  by (induction line ms rule: find_check_macro.induct) (auto split: if_splits option.splits dest: Match_lead_group(1))

lemma safe_split_check:
  "(\<And>lhs op rhs. c = Some (lhs, Some op, rhs) \<Longrightarrow> safe P (f lhs op rhs)) \<Longrightarrow>
   safe P (\<lambda>st. case c of Some (lhs, Some op, rhs) \<Rightarrow> f lhs op rhs st | _ \<Rightarrow> Inr st)"
  by (auto simp: safe_def split: option.split prod.split)

lemma find_opening_place:
  "find_opening n (drop (n + 1) ls) fragment = Some (k, f) \<Longrightarrow> n < length ls \<Longrightarrow>
   CHR ''{'' \<in> set f \<and> k < length ls \<and> (k = n \<and> f = fragment \<or> k \<noteq> n \<and> f = ls ! k)"
proof -
  have brace: "CHR ''{'' \<in> set f" if "Search (raw ''^`s*`{'') f \<noteq> None" for f
  proof -
    have "needs (re_const (raw ''^`s*`{'')) ''{''" by code_simp
    from re_search_needs [OF this, of f] that show ?thesis by (cases "CHR ''{'' \<in> set f") (auto simp: Search_def)
  qed
  have "find_opening n rest fragment = Some (k, f) \<Longrightarrow> rest = drop (n + 1) ls \<Longrightarrow> n < length ls \<Longrightarrow>
     CHR ''{'' \<in> set f \<and> k < length ls \<and> (k = n \<and> f = fragment \<or> n < k \<and> f = ls ! k)" for rest
  proof (induction n rest fragment rule: find_opening.induct)
    case (1 n rest fragment)
    show ?case
    proof (cases "Search (raw ''^`s*`{'') fragment")
      case (Some m)
      with "1.prems"(1) have "k = n" "f = fragment" by (simp_all add: find_opening.simps [of n rest])
      with Some "1.prems"(3) show ?thesis by (simp add: brace)
    next
      case None
      with "1.prems"(1) obtain l tl where r: "rest = l # tl" "Search (raw ''^(?!`s*$)'') fragment = None"
        "find_opening (n + 1) tl l = Some (k, f)"
        by (auto simp: find_opening.simps [of n rest] split: if_splits list.splits)
      from r(1) "1.prems"(2) have d: "n + 1 < length ls" "l = ls ! (n + 1)" "tl = drop (n + 1 + 1) ls"
        by (metis drop_eq_Nil list.discI not_le, metis hd_drop_conv_nth list.discI drop_eq_Nil not_le list.sel(1),
            metis drop_Suc tl_drop list.sel(3) Suc_eq_plus1)
      from "1.IH" [OF _ _ r(1) r(3) d(3,1)] None r(2) d(2) show ?thesis by auto
    qed
  qed
  then show "find_opening n (drop (n + 1) ls) fragment = Some (k, f) \<Longrightarrow> n < length ls \<Longrightarrow>
   CHR ''{'' \<in> set f \<and> k < length ls \<and> (k = n \<and> f = fragment \<or> k \<noteq> n \<and> f = ls ! k)" by fastforce
qed

context reporter
begin

lemma brace_report_safe:
  "category \<in> {''whitespace/braces'', ''whitespace/newline'', ''readability/braces'', ''whitespace/empty_conditional_body'',
     ''whitespace/empty_loop_body'', ''whitespace/empty_if_body'', ''readability/check'', ''whitespace/tab'',
     ''whitespace/indent'', ''whitespace/end_of_line'', ''whitespace/line_length''} \<Longrightarrow>
   0 \<le> confidence \<Longrightarrow> confidence \<le> 5 \<Longrightarrow> safe Inv (error filename linenum category confidence message)"
  by (rule report_safe) (auto simp: ERROR_CATEGORIES_def)

lemmas brace_safe = safe_flow with_line_safe safe_return safe_return' brace_report_safe

lemma check_brace_placement_safe: "safe Inv (check_brace_placement error filename clean linenum line)"
proof -
  have "safe Inv (run [whenever (b st) (error filename (Some (int linenum)) ''whitespace/braces'' 4 msg1), whenever b2
     (error filename (Some (int linenum)) ''whitespace/newline'' 4 msg2)])" for b :: "lint \<Rightarrow> bool" and b2 msg1 msg2 st
    by (intro brace_safe) simp_all
  then show ?thesis unfolding check_brace_placement_def safe_def by blast
qed

lemma check_else_braces_safe:
  assumes "lines_ok clean" "linenum < NumLines clean" "line = elided clean ! linenum"
  shows "safe Inv (check_else_braces error filename clean linenum line)"
proof -
  have c: "\<exists>r. CloseExpression clean linenum (nat (str_find_at line ''('' k)) = Inr r" if "0 < str_find_at line ''('' k" for k
    using str_find_at_less [OF that] assms by (intro CloseExpression_returns) simp_all
  show ?thesis
    unfolding check_else_braces_def Let_def
    by (intro brace_safe safe_triple c) simp_all
qed

lemma check_single_body_safe: "safe Inv (check_single_body error filename clean linenum if_indent is_if e)"
  unfolding check_single_body_def Let_def by (cases e) (simp only: prod.case, intro brace_safe, simp_all)

lemma check_if_body_safe:
  assumes "lines_ok clean" "linenum < NumLines clean" "line = elided clean ! linenum"
  shows "safe Inv (check_if_body error filename clean linenum line)"
proof -
  have n: "consumes (re_const (raw ''`bif`s*`(''))" by code_simp
  have c: "\<exists>r. CloseExpression clean linenum (m_end m - 1) = Inr r" if "Search (raw ''`bif`s*`('') line = Some m" for m
    using Search_end [OF that n] assms by (intro CloseExpression_returns) simp_all
  show ?thesis
    unfolding check_if_body_def Let_def
    by (intro brace_safe safe_value check_single_body_safe c) simp_all
qed

lemma CheckBraces_safe:
  assumes "lines_ok clean" "linenum < NumLines clean"
  shows "safe Inv (CheckBraces error filename clean linenum)"
  unfolding CheckBraces_def using assms
  by (intro brace_safe check_brace_placement_safe check_else_braces_safe check_if_body_safe) (simp_all add: lines_ok_def)

lemma block_head_returns:
  assumes "lines_ok clean" "linenum < NumLines clean" "line = elided clean ! linenum"
  shows "\<exists>h. block_head clean linenum line = Inr h \<and> (\<forall>t. h = Some t \<longrightarrow> length t < length line)"
proof (cases "Match BLOCK_AFTER_PAREN line")
  case (Some m)
  note g = Match_lead_group [OF Some brace_groups(1)]
  have "\<exists>r. ReverseCloseExpression clean linenum (nat (str_rfind_char (m_grp m 1) (CHR '')''))) = Inr r"
    if "m_grp m 1 \<noteq> []"
    using str_rfind_less [OF that, of "CHR '')''"] g(1) assms by (intro ReverseCloseExpression_returns) simp_all
  moreover have "\<exists>r. ReverseCloseExpression clean linenum (nat (str_rfind_char (m_grp m 1) (CHR '')''))) = Inr r"
    if "m_grp m 1 = []"
    using that g(1) assms by (intro ReverseCloseExpression_returns) (simp_all add: str_rfind_char_def)
  ultimately obtain r where "ReverseCloseExpression clean linenum (nat (str_rfind_char (m_grp m 1) (CHR '')''))) = Inr r" by blast
  with Some g(1) show ?thesis by (cases r) (simp add: block_head_def)
next
  case None
  with Match_lead_group(1) [OF _ brace_groups(2)] Match_lead_group(1) [OF _ brace_groups(3)] show ?thesis
    by (auto simp: block_head_def Let_def split: option.split)
qed

lemma CheckTrailingSemicolon_safe:
  assumes "lines_ok clean" "linenum < NumLines clean"
  shows "safe Inv (CheckTrailingSemicolon error filename clean linenum)"
proof -
  let ?line = "elided clean ! linenum"
  have l: "linenum < length (elided clean)" using assms by (simp add: lines_ok_def)
  obtain h where h: "block_head clean linenum ?line = Inr h" "\<And>t. h = Some t \<Longrightarrow> length t < length ?line"
    using block_head_returns [OF assms refl] by auto
  have c: "\<exists>r. CloseExpression clean linenum (length t) = Inr r" if "h = Some t" for t
    using h(2) [OF that] by (intro CloseExpression_returns [OF assms]) simp_all
  have i: "\<exists>x. py_index (raw_lines clean) (int n - 1) = Inr x" "\<exists>x. py_index (raw_lines clean) (int n) = Inr x"
    if "CloseExpression clean linenum (length t) = Inr (a, n, p)" "p > -1" for t a n p
  proof -
    from CloseExpression_place(1) [OF that assms] assms(1) have n: "n < length (raw_lines clean)" by (simp add: lines_ok_def)
    then show "\<exists>x. py_index (raw_lines clean) (int n - 1) = Inr x" by (cases n) (auto simp: py_index_def Suc_le_eq)
    from n show "\<exists>x. py_index (raw_lines clean) (int n) = Inr x" by simp
  qed
  show ?thesis
    unfolding CheckTrailingSemicolon_def
    apply (intro with_line_safe l)
    unfolding h(1) py_bind.simps
    by (intro safe_flow safe_return safe_return' safe_triple c safe_value nolint_safe brace_report_safe i; (elim conjE)?;
        assumption?) simp_all
qed

lemma check_empty_if_safe:
  assumes "lines_ok clean" "end_linenum < NumLines clean" "end_line = elided clean ! end_linenum"
    and "0 \<le> end_pos" "end_pos \<le> int (length end_line)"
  shows "safe Inv (check_empty_if error filename clean end_line end_linenum end_pos)"
proof -
  have "\<exists>r. CloseExpression clean k (nat (str_find f ''{'' + (if k = end_linenum then end_pos else 0))) = Inr r"
    if o: "find_opening end_linenum (drop (end_linenum + 1) (elided clean)) (slice_from end_line end_pos) = Some (k, f)" for k f
  proof -
    note place = find_opening_place [OF o]
    have n: "end_linenum < length (elided clean)" using assms by (simp add: lines_ok_def)
    have f: "sublist ''{'' f" "k < length (elided clean)"
      "k = end_linenum \<and> f = slice_from end_line end_pos \<or> k \<noteq> end_linenum \<and> f = elided clean ! k" using place [OF n] by simp_all
    obtain e where e: "end_pos = int e" using assms(4) nonneg_int_cases by blast
    have "nat (str_find f ''{'') < length f" "0 \<le> str_find f ''{''" using str_find_less [OF f(1)] f(1) by (simp_all add: str_find_nonneg)
    with f(3) have "nat (str_find f ''{'' + (if k = end_linenum then end_pos else 0)) < length (elided clean ! k)"
      using assms(3,5) by (auto simp: e)
    with f(2) assms(1) show ?thesis by (intro CloseExpression_returns) (simp_all add: lines_ok_def)
  qed
  then show ?thesis
    unfolding check_empty_if_def Let_def
    by (intro safe_flow safe_prod_action safe_return safe_return' safe_triple brace_report_safe) simp_all
qed

lemma CheckEmptyBlockBody_safe:
  assumes "lines_ok clean" "linenum < NumLines clean"
  shows "safe Inv (CheckEmptyBlockBody error filename clean linenum)"
proof -
  let ?line = "elided clean ! linenum"
  have l: "linenum < length (elided clean)" using assms by (simp add: lines_ok_def)
  have paren: "needs (re_const (raw ''`s*(for|while|if)`s*`('')) ''(''" by code_simp
  have c: "\<exists>r. CloseExpression clean linenum (nat (str_find ?line ''('')) = Inr r"
    if "Match (raw ''`s*(for|while|if)`s*`('') ?line = Some m" for m
  proof -
    have "sublist ''('' ?line" using re_match_needs [OF paren] that unfolding Match_def by fastforce
    with str_find_less [of "''(''" ?line] show ?thesis by (intro CloseExpression_returns [OF assms]) simp
  qed
  have e: "safe Inv (check_empty_if error filename clean a n p)"
    if "CloseExpression clean linenum k = Inr (a, n, p)" "0 \<le> p" for k a n p
    using that CloseExpression_place [OF that(1) _ assms] assms(1) by (intro check_empty_if_safe) simp_all
  show ?thesis
    unfolding CheckEmptyBlockBody_def
    by (intro safe_flow safe_return safe_return' safe_triple with_line_safe l c brace_report_safe e; (elim conjE)?; assumption?)
      simp_all
qed

lemma CheckCheck_safe:
  assumes "lines_ok clean" "linenum < NumLines clean"
  shows "safe Inv (CheckCheck error filename clean linenum)"
proof -
  let ?line = "elided clean ! linenum"
  have l: "linenum < length (elided clean)" using assms by (simp add: lines_ok_def)
  have c: "\<exists>r. CloseExpression clean linenum pos = Inr r" if "FindCheckMacro ?line = Some (macro, pos)" for macro pos
    using find_check_macro_position [OF that [unfolded FindCheckMacro_def] check_macro_groups]
    by (intro CloseExpression_returns [OF assms]) simp
  have r: "\<exists>x. map_of (CHECK_REPLACEMENT macro) op = Some x"
    if "FindCheckMacro ?line = Some (macro, pos)" "split_check e h = Some (lhs, Some op, rhs)" for macro pos e h lhs op rhs
    using find_check_macro_position [OF that(1) [unfolded FindCheckMacro_def] check_macro_groups]
      split_check_operator [OF that(2)] check_replacement_total by (auto simp: relational_def list_all_iff)
  show ?thesis
    unfolding CheckCheck_def
    by (intro with_line_safe l safe_option_action safe_return safe_prod_action safe_triple safe_if safe_split_check safe_option
        brace_report_safe safe_return'; hypsubst?; (drule (1) r | rule c)?) simp_all
qed

text \<open>A header needs its guard variable, which does not exist for every path.\<close>

lemma check_line_length_safe:
  assumes "\<And>st. Inv st \<Longrightarrow> \<exists>v. GetHeaderGuardCPPVariable env st filename = Inr v"
  shows "safe Inv (check_line_length error env filename file_extension line linenum)"
proof (rule safeI)
  fix st assume st: "Inv st"
  obtain g where g: "is_header_guard env filename file_extension line st = Inr g"
    using assms [OF st] unfolding is_header_guard_def by (cases "IsHeaderExtension st file_extension") auto
  have "safe Inv (whenever b (error filename (Some (int linenum)) ''whitespace/line_length'' 2 msg))" for b msg
    by (intro whenever_safe brace_report_safe) simp_all
  from safeD [OF this st] show "\<exists>st'. check_line_length error env filename file_extension line linenum st = Inr st' \<and> Inv st'"
    by (simp add: check_line_length_def g)
qed

lemma CheckStyle_safe:
  assumes ok: "lines_ok clean" "NumLines clean = length (lines_without_raw_strings clean)"
    "NumLines clean = length (clean_lines clean)" "linenum < NumLines clean" "blocks_in_file clean ns"
    and guard: "\<And>st. Inv st \<Longrightarrow> \<exists>v. GetHeaderGuardCPPVariable env st filename = Inr v"
  shows "safe Inv (CheckStyle error env filename clean linenum file_extension ns)"
proof -
  have l: "linenum < length (elided clean)" "linenum < length (lines_without_raw_strings clean)"
    "linenum < length (clean_lines clean)" "NumLines clean = length (elided clean)"
    using ok by (simp_all add: lines_ok_def)
  have s: "safe Inv (check_section error filename clean linenum ns)"
    unfolding check_section_def using CheckSectionSpacing_safe [OF l(3)] by (auto split: option.split block_kind.split)
  show ?thesis
    unfolding CheckStyle_def Let_def
    by (intro with_line_safe run_Cons_safe run_Nil_safe whenever_safe brace_report_safe check_line_length_safe guard
        CheckBraces_safe CheckTrailingSemicolon_safe CheckEmptyBlockBody_safe CheckSpacing_safe CheckOperatorSpacing_safe
        CheckParenthesisSpacing_safe CheckCommaSpacing_safe CheckBracesSpacing_safe CheckSpacingForFunctionCall_safe
        CheckCheck_safe CheckAltTokens_safe s l ok) simp_all
qed

end

section \<open>The parts of a CHECK expression\<close>

definition nonspace :: "string \<Rightarrow> string" where
  "nonspace s = filter (\<lambda>c. \<not> is_space c) s"

lemma nonspace_append [simp]: "nonspace (u @ v) = nonspace u @ nonspace v"
  by (simp add: nonspace_def)

text \<open>A pattern of two groups up to the end of the line, behind white space, takes the text
  apart: only white space is lost.\<close>

definition second_group :: "regex \<Rightarrow> bool" where
  "second_group r = (case r of RSeq (RGroup n b) (REol m) \<Rightarrow> n = 2 \<and> group_absent b 1 \<and> \<not> m | _ \<Rightarrow> False)"

primrec two_groups :: "regex \<Rightarrow> bool" where
  "two_groups (RSeq a b) =
     (case a of
        RGroup k _ \<Rightarrow> k = 1 \<and> second_group b
      | RBol _ \<Rightarrow> two_groups b
      | RCStar _ cs \<Rightarrow> cs = CSet False [CEsc CHR ''s''] \<and> two_groups b
      | _ \<Rightarrow> False)"
| "two_groups REmpty = False"
| "two_groups (RChr cs) = False"
| "two_groups (RCStar g cs) = False"
| "two_groups (RAlt a b) = False"
| "two_groups (RStar g r) = False"
| "two_groups (RGroup k r) = False"
| "two_groups (RBol m) = False"
| "two_groups (REol m) = False"
| "two_groups (RWordB m) = False"
| "two_groups (RLook pos r) = False"

lemma two_groups_mcap:
  "two_groups r \<Longrightarrow> mcap r p s [] p' s' g' \<Longrightarrow>
   \<exists>t1 t2. map_of g' 1 = Some t1 \<and> map_of g' 2 = Some t2 \<and> nonspace s = nonspace t1 @ nonspace t2"
proof (induction r arbitrary: p s)
  case (RSeq x y)
  from RSeq.prems(1) consider (group) a where "x = RGroup 1 a" "second_group y" | (bol) m where "x = RBol m" "two_groups y"
    | (star) g where "x = RCStar g (CSet False [CEsc CHR ''s''])" "two_groups y" by (cases x) auto
  then show ?case
  proof cases
    case (group a)
    from group(2) obtain b where y: "y = RSeq (RGroup 2 b) (REol False)" "group_absent b 1"
      by (auto simp: second_group_def split: regex.splits)
    from RSeq.prems(2) obtain p1 s1 g1 p2 g2 where a: "mcap (RGroup 1 a) p s [] p1 s1 g1"
      and b: "mcap (RGroup 2 b) p1 s1 g1 p2 s' g2" and e: "at_eol False s'" "g' = g2"
      unfolding y(1) group(1) by (elim mcap_seqE) auto
    from a obtain t1 h where t1: "s = t1 @ s1" "g1 = (1, t1) # h" by (rule mcap_groupE)
    from b obtain t2 h2 where t2: "s1 = t2 @ s'" "g2 = (2, t2) # h2" "mcap b p1 s1 g1 p2 s' h2" by (rule mcap_groupE)
    have "map_of h2 1 = Some t1" using group_absent_mcap [OF y(2) t2(3)] t1(2) by simp
    moreover have "is_space newline" by code_simp
    then have "nonspace s' = []" using e(1) by (auto simp: at_eol_def nonspace_def)
    ultimately show ?thesis using t1 t2 e by simp
  next
    case (bol m)
    with RSeq.prems(2) obtain q where "mcap y q s [] p' s' g'" by auto
    from RSeq.IH(2) [OF bol(2) this] show ?thesis .
  next
    case (star g)
    from RSeq.prems(2) obtain q t where c: "cstar_to (CSet False [CEsc CHR ''s'']) p s q t" and m: "mcap y q t [] p' s' g'"
      unfolding star by auto
    from c obtain u where u: "s = u @ t" "list_all (cmatch (CSet False [CEsc CHR ''s''])) u" unfolding cstar_to_iff by blast
    have "nonspace u = []" using u(2) by (auto simp: nonspace_def list_all_iff filter_empty_conv esc_class_def)
    with RSeq.IH(2) [OF star(2) m] u(1) show ?thesis by simp
  qed
qed auto

lemma Match_two_groups:
  assumes "Match pat s = Some m" "two_groups (re_const pat)"
  shows "nonspace s = nonspace (m_grp m 1) @ nonspace (m_grp m 2)"
proof -
  from assms(1) obtain p' s' where "mcap (re_const pat) None s [] p' s' (m_caps m)" unfolding Match_def by (rule re_match_caps)
  from two_groups_mcap [OF assms(2) this] show ?thesis by (auto simp: m_grp_def m_group_def)
qed

lemma check_two_groups:
  "two_groups (re_const CHECK_OPERATOR)" "two_groups (re_const CHECK_OPERAND)" "two_groups (re_const CHECK_CHARACTER)"
  by code_simp+

lemmas check_parts = Match_two_groups [OF _ check_two_groups(1)] Match_two_groups [OF _ check_two_groups(2)]
  Match_two_groups [OF _ check_two_groups(3)]

lemma split_check_parts:
  "split_check expression lhs = Some (l, Some op, r) \<Longrightarrow>
   nonspace l @ nonspace op @ nonspace r = nonspace lhs @ nonspace expression"
proof (induction expression lhs rule: split_check.induct)
  case (1 expression lhs)
  note prems = "1.prems" [unfolded split_check.simps [of expression]]
  from prems have ne: "expression \<noteq> []" by auto
  show ?case
  proof (cases "Match CHECK_OPERATOR expression")
    case None
    show ?thesis
    proof (cases "Match CHECK_OPERAND expression")
      case (Some m)
      from "1.IH"(2) [OF ne None Some] prems ne None Some check_parts(2) [OF Some] show ?thesis by simp
    next
      case operand: None
      with prems ne None obtain m where m: "Match CHECK_CHARACTER expression = Some m" by (auto split: option.splits)
      from "1.IH"(1) [OF ne None operand m] prems ne None operand m check_parts(3) [OF m] show ?thesis by simp
    qed
  next
    case m: (Some m)
    note ih = "1.IH"(3,4) [OF ne m refl refl] and parts = check_parts(1) [OF m]
    have j: "nonspace (CHR ''('' # take k x) @ nonspace (drop k x) = nonspace ''('' @ nonspace x" for k x
      by (simp add: nonspace_def flip: filter_append)
    from ih prems ne parts show ?thesis by (auto simp: m Let_def j split: if_splits)
  qed
qed

lemma hide_operators_done: "Match OPERATOR_METHOD (hide_operators line) = None"
proof (induction line rule: hide_operators.induct)
  case (1 line)
  then show ?case by (cases "Match OPERATOR_METHOD line") (simp_all add: hide_operators.simps [of line])
qed

lemma GetHeaderGuardCPPVariable_returns: "files_named env st \<Longrightarrow> \<exists>v. GetHeaderGuardCPPVariable env st filename = Inr v"
  unfolding files_named_def GetHeaderGuardCPPVariable_def Let_def by (metis py_bind.simps(2))

section \<open>Properties\<close>

text \<open>All style checks on a line: for every line of every file, whatever blocks are open that began
  on lines of the file, \<open>CheckStyle\<close> and the checks that it runs return and leave the error state
  consistent.  In particular the bracket searches start on brackets of the line, the search
  for the name of an operator method ends, and the operator of a CHECK macro is in the table of
  replacements.  The files need names in the repository.\<close>

theorem style_checks_safe:
  assumes "linenum < length lines" "lint_inv st" "blocks_in_file (CleansedLines lines) ns"
    and "\<And>f. \<exists>r. RepositoryName env st f = Inr r"
  shows "\<exists>st'. CheckStyle Error env filename (CleansedLines lines) linenum file_extension ns st = Inr st' \<and> lint_inv st'"
proof -
  have inv: "lint_inv st \<and> files_named env st" using assms(2,4) by (simp add: files_named_def)
  have "safe (\<lambda>st. lint_inv st \<and> files_named env st)
      (CheckStyle Error env filename (CleansedLines lines) linenum file_extension ns)"
    using assms(1,3) by (intro Named.CheckStyle_safe lines_ok_CleansedLines GetHeaderGuardCPPVariable_returns) simp_all
  from safeD [OF this inv] show ?thesis by blast
qed

theorem style_checks_safe_witness:
  "\<exists>st'. CheckStyle Error \<lparr>cwd = ''/w'', path_exists = (\<lambda>p. False)\<rparr> ''a.h'' (CleansedLines [''if (a) {};'']) 0 ''h''
      NestingState_init (lint_init CppLintState_init) = Inr st' \<and> lint_inv st'"
proof (rule style_checks_safe)
  show "lint_inv (lint_init CppLintState_init)" by code_simp
qed (simp_all add: blocks_in_file_def NestingState_init_def RepositoryName_def Let_def)

text \<open>The parts of a CHECK expression: when the loop of \<open>CheckCheck\<close> finds an operator, it is one of
  the six relational ones, and the left operand, the operator and the right operand are,
  in this order and up to white space, the whole expression.\<close>

theorem check_macro_split:
  assumes "split_check expression [] = Some (lhs, Some op, rhs)"
  shows "op \<in> {''=='', ''!='', ''>='', ''>'', ''<='', ''<''} \<and>
    filter (\<lambda>c. \<not> is_space c) (lhs @ op @ rhs) = filter (\<lambda>c. \<not> is_space c) expression"
  using split_check_operator [OF assms] split_check_parts [OF assms]
  by (auto simp: relational_def RELATIONAL_def nonspace_def)

theorem check_macro_split_witness:
  "(''=='' \<in> {''=='', ''!='', ''>='', ''>'', ''<='', ''<''} \<and>
    filter (\<lambda>c. \<not> is_space c) (''f(a < b)'' @ ''=='' @ '' 42'') = filter (\<lambda>c. \<not> is_space c) ''f(a < b) == 42'')"
proof -
  have "split_check ''f(a < b) == 42'' [] = Some (''f(a < b)'', Some ''=='', '' 42'')" by code_simp
  from check_macro_split [OF this] show ?thesis by simp
qed

text \<open>The loop that hides the names of operator methods before the spacing checks ends, on a line that
  has no such name any more and is not longer than before.\<close>

theorem operator_names_hidden:
  "Match OPERATOR_METHOD (hide_operators line) = None \<and> length (hide_operators line) \<le> length line"
  using hide_operators_done hide_operators_length by blast

end
