(* ===== verification/Language_Checks.thy ===== *)
theory Language_Checks
  imports Brace_Checks
begin

text \<open>
  The checks of \<open>cpplint.py\<close> on the language: C types, casts, format strings, global
  strings, references and \<open>#include\<close> lines (\<open>CheckLanguage\<close> and its companions), with
  \<open>_GetTextInside\<close>, which extracts a parenthesised text.
\<close>

section \<open>Text inside brackets\<close>

definition closing_of :: "char \<Rightarrow> char" where
  "closing_of c = (if c = CHR ''('' then CHR '')'' else if c = CHR ''{'' then CHR ''}'' else CHR '']'')"

text \<open>The loop over the text with the stack of expected closing brackets; the number of
  characters up to and with the bracket that empties the stack.\<close>

fun text_inside_loop :: "string \<Rightarrow> nat \<Rightarrow> string \<Rightarrow> nat option" where
  "text_inside_loop [] position rest = Some position"
| "text_inside_loop (p # ps) position [] = None"
| "text_inside_loop (p # ps) position (c # cs) =
     (if c = p then text_inside_loop ps (position + 1) cs
      else if c \<in> set '')}]'' then None
      else if c \<in> set ''({['' then text_inside_loop (closing_of c # p # ps) (position + 1) cs
      else text_inside_loop (p # ps) (position + 1) cs)"

definition GetTextInside :: "string \<Rightarrow> regex \<Rightarrow> string option py" where
  "GetTextInside text start_pattern =
     (case re_search start_pattern text of
        None \<Rightarrow> Inr None
      | Some m \<Rightarrow>
          (let start_position = m_end m in
           if \<not> start_position > 0 then Inl AssertionError
           else
             (let c = text ! (start_position - 1) in
              if c \<notin> set ''({['' then Inl AssertionError
              else Inr (map_option (\<lambda>position. py_slice text (int start_position) (int position - 1))
                     (text_inside_loop [closing_of c] start_position (drop start_position text))))))"

section \<open>Global strings and printf\<close>

text \<open>
  The patterns of the self-initialisation check, an identifier that ends in an underscore
  at a word boundary, \<open>opening\<close>, the same identifier by a back reference and \<open>closing\<close>:
  a search for such a place of the line.
\<close>

definition self_init :: "string \<Rightarrow> string \<Rightarrow> string \<Rightarrow> bool" where
  "self_init opening closing line =
     list_ex (\<lambda>i.
       at_wordb (if i = 0 then None else Some (line ! (i - 1))) (drop i line) \<and>
       list_ex (\<lambda>n.
         let ident = take n (drop i line) in
         last ident = CHR ''_'' \<and> list_all (cmatch (CSet False [CRange CHR ''A'' CHR ''Z'', CRange CHR ''a'' CHR ''z'',
           CRange CHR ''0'' CHR ''9'', CChr CHR ''_''])) ident \<and>
         startswith (drop (i + n) line) (opening @ ident @ closing)) [1..<Suc (length line - i)])
     [0..<length line]"

definition GLOBAL_STRING :: string where
  "GLOBAL_STRING = raw ''((?:|static +)(?:|const +))(?::*std::)?string( +const)? +'' @ raw ''([a-zA-Z0-9_:]+)`b(.*)''"

definition CheckGlobalStatic :: "error_fn \<Rightarrow> string \<Rightarrow> cleansed_lines \<Rightarrow> nat \<Rightarrow> action" where
  \<open>CheckGlobalStatic error filename clean linenum =
     with_line (elided clean) linenum (\<lambda>line.
       let line = (if linenum + 1 < NumLines clean \<and> Search ''[;({]'' line = None
                   then line @ str_strip (elided clean ! (linenum + 1)) else line) in
       run [(case Match GLOBAL_STRING line of
               None \<Rightarrow> Inr
             | Some m \<Rightarrow>
                 whenever (Search (raw ''`bstring`b(`s+const)?`s*[`*`&]`s*(const`s+)?`w'') line = None \<and>
                           Search (raw ''`boperator`W'') line = None \<and>
                           Match (raw ''`s*(<.*>)?(::[a-zA-Z0-9_]+)*`s*`(([^"]|$)'') (m_grp m 4) = None)
                   (error filename (Some (int linenum)) ''runtime/string'' 4
                     (if Search (raw ''`bconst`b'') line \<noteq> None
                      then ''For a static/global string constant, use a C style string '' @ ''instead: "'' @
                        m_grp m 1 @ ''char'' @ m_grp m 2 @ '' '' @ m_grp m 3 @ ''[]".''
                      else ''Static/global string variables are not permitted.''))),
            whenever (self_init ''('' '')'' line \<or> self_init ''(CHECK_NOTNULL('' ''))'' line)
              (error filename (Some (int linenum)) ''runtime/init'' 4
                ''You seem to be initializing a member variable with itself.'')])\<close>

definition CheckPrintf :: "error_fn \<Rightarrow> string \<Rightarrow> cleansed_lines \<Rightarrow> nat \<Rightarrow> action" where
  "CheckPrintf error filename clean linenum =
     with_line (elided clean) linenum (\<lambda>line.
       let report = error filename (Some (int linenum)) ''runtime/printf'' in
       run [(case Search (raw ''snprintf`s*`(([^,]*),`s*([0-9]*)`s*,'') line of
               None \<Rightarrow> Inr
             | Some m \<Rightarrow>
                 whenever (m_grp m 2 \<noteq> ''0'')
                   (report 3 (''If you can, use sizeof('' @ m_grp m 1 @ '') instead of '' @ m_grp m 2 @ '' as the 2nd arg '' @
                      ''to snprintf.''))),
            whenever (Search (raw ''`bsprintf`s*`('') line \<noteq> None) (report 5 ''Never use sprintf. Use snprintf instead.''),
            (case Search (raw ''`b(strcpy|strcat)`s*`('') line of
               None \<Rightarrow> Inr
             | Some m \<Rightarrow> report 4 (''Almost always, snprintf is better than '' @ m_grp m 1))])"

section \<open>References\<close>

definition FUNCTION_START :: string where
  "FUNCTION_START = raw ''^([^()]*`w+)`(''"

text \<open>The nearest of the last ten lines on which a function starts.\<close>

definition function_start :: "cleansed_lines \<Rightarrow> nat \<Rightarrow> nat option" where
  "function_start clean linenum =
     List.find (\<lambda>i. Match FUNCTION_START (elided clean ! i) \<noteq> None) (rev [linenum - 9..<Suc linenum])"

definition IsDerivedFunction :: "cleansed_lines \<Rightarrow> nat \<Rightarrow> bool py" where
  "IsDerivedFunction clean linenum =
     (case function_start clean linenum of
        None \<Rightarrow> Inr False
      | Some i \<Rightarrow>
          (case Match FUNCTION_START (elided clean ! i) of
             None \<Rightarrow> Inr False
           | Some m \<Rightarrow>
               py_bind (CloseExpression clean i (length (m_grp m 1))) (\<lambda>(line, _, closing_paren).
                 Inr (closing_paren \<ge> 0 \<and> Search (raw ''`boverride`b'') (slice_from line closing_paren) \<noteq> None))))"

definition IsOutOfLineMethodDefinition :: "cleansed_lines \<Rightarrow> nat \<Rightarrow> bool" where
  "IsOutOfLineMethodDefinition clean linenum =
     (case function_start clean linenum of
        None \<Rightarrow> False
      | Some i \<Rightarrow> Match (raw ''^[^()]*`w+::`w+`('') (elided clean ! i) \<noteq> None)"

fun initializer_scan :: "string list \<Rightarrow> bool" where
  "initializer_scan [] = False"
| "initializer_scan (line # ls) =
     (if Search (raw ''`s:`s*`w+[({]'') line \<noteq> None then True
      else if Search (raw ''`}`s*,`s*$'') line \<noteq> None then True
      else if Search (raw ''[{};]`s*$'') line \<noteq> None then False
      else initializer_scan ls)"

text \<open>The current line, without the start of a function body, and the lines above it down to
  number 2.\<close>

definition IsInitializerList :: "cleansed_lines \<Rightarrow> nat \<Rightarrow> bool" where
  "IsInitializerList clean linenum =
     (linenum > 1 \<and>
      (let line = elided clean ! linenum;
           first = (case Match (raw ''^(.*)`{`s*$'') line of Some m \<Rightarrow> m_grp m 1 | None \<Rightarrow> line)
       in initializer_scan (first # map (\<lambda>i. elided clean ! i) (rev [2..<linenum]))))"

definition RE_PATTERN_IDENT :: string where
  "RE_PATTERN_IDENT = raw ''[_a-zA-Z]`w*''"

definition RE_PATTERN_TYPE :: string where
  "RE_PATTERN_TYPE = raw ''(?:const`s+)?(?:typename`s+|class`s+|struct`s+|union`s+|enum`s+)?'' @ raw ''(?:`w|'' @
     raw ''`s*<(?:<(?:<[^<>]*>|[^<>])*>|[^<>])*>|'' @ ''::)+''"

definition RE_PATTERN_REF_PARAM :: string where
  "RE_PATTERN_REF_PARAM = ''('' @ RE_PATTERN_TYPE @ raw ''(?:`s*(?:`bconst`b|[*]))*`s*'' @ raw ''&`s*'' @ RE_PATTERN_IDENT @
     raw '')`s*(?:=[^,()]+)?[,)]''"

definition RE_PATTERN_CONST_REF_PARAM :: string where
  "RE_PATTERN_CONST_REF_PARAM = raw ''(?:.*`s*`bconst`s*&`s*'' @ RE_PATTERN_IDENT @ raw ''|const`s+'' @ RE_PATTERN_TYPE @
     raw ''`s*&`s*'' @ RE_PATTERN_IDENT @ '')''"

definition RE_PATTERN_REF_STREAM_PARAM :: string where
  "RE_PATTERN_REF_STREAM_PARAM = raw ''(?:.*stream`s*&`s*'' @ RE_PATTERN_IDENT @ '')''"

text \<open>The line, joined with what stands on lines above it when a type is split over lines.\<close>

definition joined_line :: "cleansed_lines \<Rightarrow> nat \<Rightarrow> string \<Rightarrow> string py" where
  "joined_line clean linenum line =
     (if linenum > 1 then
        (let prev = elided clean ! (linenum - 1);
             previous =
               (if Match (raw ''`s*::(?:[`w<>]|::)+`s*&`s*`S'') line \<noteq> None
                then Search (raw ''`b((?:const`s*)?(?:[`w<>]|::)+[`w<>])`s*$'') prev
                else if Match (raw ''`s*[a-zA-Z_]([`w<>]|::)+`s*&`s*`S'') line \<noteq> None
                then Search (raw ''`b((?:const`s*)?(?:[`w<>]|::)+::)`s*$'') prev
                else None)
         in case previous of
              Some m \<Rightarrow> Inr (m_grp m 1 @ str_lstrip line)
            | None \<Rightarrow>
                (let endpos = str_rfind_char line (CHR ''>'') in
                 if endpos > -1 then
                   py_bind (ReverseCloseExpression clean linenum (nat endpos)) (\<lambda>(_, startline, startpos).
                     Inr (if startpos > -1 \<and> startline < linenum
                          then concat (map (\<lambda>i. str_strip (elided clean ! i)) [startline..<Suc linenum]) else line))
                 else Inr line))
      else Inr line)"

text \<open>The lines above, nearest first: a line that starts with a colon before one that does not end
  in a closing parenthesis or comma.\<close>

fun init_list_above :: "string list \<Rightarrow> bool" where
  "init_list_above [] = False"
| "init_list_above (previous_line # ls) =
     (if Search (raw ''[),]`s*$'') previous_line = None then False
      else if Match (raw ''^`s*:`s+`S'') previous_line \<noteq> None then True
      else init_list_above ls)"

definition WHITELISTED_FUNCTIONS :: string where
  "WHITELISTED_FUNCTIONS = raw ''(?:[sS]wap(?:<`w:+>)?|'' @ raw ''operator`s*[<>][<>]|'' @ ''static_assert|COMPILE_ASSERT'' @ raw '')`s*`(''"

definition whitelisted :: "cleansed_lines \<Rightarrow> nat \<Rightarrow> string \<Rightarrow> bool" where
  "whitelisted clean linenum line =
     (Search WHITELISTED_FUNCTIONS line \<noteq> None \<or>
      Search (raw ''`S+`([^)]*$'') line = None \<and>
      list_ex (\<lambda>i. linenum > i \<and> Search WHITELISTED_FUNCTIONS (elided clean ! (linenum - i - 1)) \<noteq> None) [0..<2])"

definition in_function_body :: "nesting_state \<Rightarrow> bool" where
  "in_function_body ns =
     (case previous_stack_top ns of None \<Rightarrow> False | Some b \<Rightarrow> \<not> (is_class b \<or> is_namespace b))"

definition CheckForNonConstReference :: "error_fn \<Rightarrow> string \<Rightarrow> cleansed_lines \<Rightarrow> nat \<Rightarrow> nesting_state \<Rightarrow> action" where
  "CheckForNonConstReference error filename clean linenum ns =
     with_line (elided clean) linenum (\<lambda>line.
       if \<not> str_in ''&'' line then Inr
       else (\<lambda>st.
         py_bind (IsDerivedFunction clean linenum) (\<lambda>derived.
         if derived \<or> IsOutOfLineMethodDefinition clean linenum then Inr st
         else py_bind (joined_line clean linenum line) (\<lambda>line.
           whenever (\<not> in_function_body ns \<and>
                     \<not> init_list_above (map (\<lambda>i. elided clean ! i) (rev [Suc (linenum - 10)..<linenum])) \<and>
                     Search (raw ''```s*$'') line = None \<and> \<not> IsInitializerList clean linenum \<and>
                     \<not> whitelisted clean linenum line)
             (for_each (re_finditer (re_const RE_PATTERN_REF_PARAM) (ReplaceAll ''{[^}]*}'' '' '' line)) (\<lambda>m.
                let parameter = m_grp m 1 in
                whenever (Match RE_PATTERN_CONST_REF_PARAM parameter = None \<and> Match RE_PATTERN_REF_STREAM_PARAM parameter = None)
                  (error filename (Some (int linenum)) ''runtime/references'' 2
                    (''Is this a non-const reference? '' @ ''If so, make const or use a pointer: '' @
                     ReplaceAll '' *<'' ''<'' parameter)))) st))))"

section \<open>Casts\<close>

text \<open>Each of the three patterns is an opening parenthesis followed by group 1, so that
  \<open>match.start(1) - 1\<close> is the start of the match.\<close>

definition STATIC_CAST :: string where
  "STATIC_CAST = raw ''`((int|float|double|bool|char|u?int(16|32|64))`)''"

definition CONST_CAST :: string where
  \<open>CONST_CAST = raw ''`((char`s?`*+`s?)`)`s*"''\<close>

definition REINTERPRET_CAST :: string where
  "REINTERPRET_CAST = raw ''`((`w+`s?`*+`s?)`)''"

definition looks_like_cast :: "cleansed_lines \<Rightarrow> nat \<Rightarrow> string \<Rightarrow> match_obj \<Rightarrow> bool" where
  "looks_like_cast clean linenum line m =
     (let context = take (m_start m) line;
          wide_context = concat (map (\<lambda>i. elided clean ! i) [Suc (linenum - 5)..<linenum]) @ context;
          remainder = drop (m_end m) line
      in Match (raw ''.*`b(?:sizeof|alignof|alignas|[_A-Z][_A-Z0-9]*)`s*$'') context = None \<and>
         Match (raw ''.*`b[_A-Z][_A-Z0-9]*`s*`((?:`([^()]*`)|[^()])*$'') wide_context = None \<and>
         \<not> (endswith wide_context '' operator++'' \<or> endswith wide_context '' operator--'') \<and>
         Match (raw ''^`s*(?:;|const`b|throw`b|final`b|override`b|[=>{),]|->)'') remainder = None)"

definition CheckCStyleCast :: "error_fn \<Rightarrow> string \<Rightarrow> cleansed_lines \<Rightarrow> nat \<Rightarrow> string \<Rightarrow> string \<Rightarrow>
    lint \<Rightarrow> (bool \<times> lint) py" where
  "CheckCStyleCast error filename clean linenum cast_type pattern st =
     py_bind (py_index (elided clean) (int linenum)) (\<lambda>line.
       case Search pattern line of
         None \<Rightarrow> Inr (False, st)
       | Some m \<Rightarrow>
           if looks_like_cast clean linenum line m then
             py_bind (error filename (Some (int linenum)) ''readability/casting'' 4
                 (''Using C-style cast.  Use '' @ cast_type @ ''<'' @ m_grp m 1 @ ''>(...) instead'') st)
               (\<lambda>st. Inr (True, st))
           else Inr (False, st))"

definition ExpectingFunctionArgs :: "cleansed_lines \<Rightarrow> nat \<Rightarrow> bool py" where
  "ExpectingFunctionArgs clean linenum =
     py_bind (py_index (elided clean) (int linenum)) (\<lambda>line.
       Inr (Match (raw ''^`s*MOCK_(CONST_)?METHOD`d+(_T)?`('') line \<noteq> None \<or>
            linenum \<ge> 2 \<and>
            (Match (raw ''^`s*MOCK_(?:CONST_)?METHOD`d+(?:_T)?`((?:`S+,)?`s*$'') (elided clean ! (linenum - 1)) \<noteq> None \<or>
             Match (raw ''^`s*MOCK_(?:CONST_)?METHOD`d+(?:_T)?`(`s*$'') (elided clean ! (linenum - 2)) \<noteq> None \<or>
             Search (raw ''`bstd::m?function`s*`<`s*$'') (elided clean ! (linenum - 1)) \<noteq> None)))"

definition FUNCTION_CAST :: string where
  "FUNCTION_CAST = raw ''(`bnew`s+(?:const`s+)?|`S<`s*(?:const`s+)?)?`b'' @
     raw ''(int|float|double|bool|char|int32|uint32|int64|uint64)'' @ raw ''(`([^)].*)''"

definition deprecated_cast :: "string \<Rightarrow> match_obj \<Rightarrow> bool" where
  "deprecated_cast line m =
     (let matched_type = m_grp m 2; matched_funcptr = m_grp m 3 in
      m_group m 1 = None \<and>
      \<not> (matched_funcptr \<noteq> [] \<and>
         (Match (raw ''`((?:[^() ]+::`s*`*`s*)?[^() ]+`)`s*`('') matched_funcptr \<noteq> None \<or> startswith matched_funcptr ''(*)'')) \<and>
      Match (raw ''`s*using`s+`S+`s*=`s*'' @ matched_type) line = None \<and>
      Search (raw ''new`(`S+`)`s*'' @ matched_type) line = None)"

definition ADDRESS_OF_CAST :: string where
  "ADDRESS_OF_CAST = raw ''(?:[^`w]&`(([^)*][^)]*)`)[`w(])|'' @ raw ''(?:[^`w]&(static|dynamic|down|reinterpret)_cast`b)''"

definition CAST_OPERATOR :: string where
  "CAST_OPERATOR = raw ''^(.*&(?:static|dynamic|down|reinterpret)_cast`b)<''"

text \<open>The address is that of something dereferenced from the cast.\<close>

definition parenthesis_error :: "cleansed_lines \<Rightarrow> nat \<Rightarrow> string \<Rightarrow> bool py" where
  "parenthesis_error clean linenum line =
     (case Match CAST_OPERATOR line of
        None \<Rightarrow> Inr False
      | Some m \<Rightarrow>
          py_bind (CloseExpression clean linenum (length (m_grp m 1))) (\<lambda>(_, y1, x1).
            if x1 \<ge> 0 then
              py_bind (py_index (elided clean) (int y1)) (\<lambda>l1.
              py_bind (py_index l1 x1) (\<lambda>c.
                if c = CHR ''('' then
                  py_bind (CloseExpression clean y1 (nat x1)) (\<lambda>(_, y2, x2).
                    Inr (x2 \<ge> 0 \<and>
                      Match (raw ''`s*(?:->|`[)'')
                        (slice_from (elided clean ! y2) x2 @
                         (if int y2 < int (NumLines clean) - 1 then elided clean ! (y2 + 1) else [])) \<noteq> None))
                else Inr False))
            else Inr False))"

definition check_address_of_cast :: "error_fn \<Rightarrow> string \<Rightarrow> cleansed_lines \<Rightarrow> nat \<Rightarrow> string \<Rightarrow> action" where
  "check_address_of_cast error filename clean linenum line st =
     (if Search ADDRESS_OF_CAST line = None then Inr st
      else py_bind (parenthesis_error clean linenum line) (\<lambda>b.
        if b then
          error filename (Some (int linenum)) ''readability/casting'' 4
            (''Are you taking an address of something dereferenced '' @ ''from a cast?  Wrapping the dereferenced expression in '' @
             ''parentheses will make the binding more obvious'') st
        else
          error filename (Some (int linenum)) ''runtime/casting'' 4
            (''Are you taking an address of a cast?  '' @ ''This is dangerous: could be a temp var.  '' @
             ''Take the address before doing the cast, rather than after'') st))"

definition CheckCasts :: "error_fn \<Rightarrow> string \<Rightarrow> cleansed_lines \<Rightarrow> nat \<Rightarrow> action" where
  "CheckCasts error filename clean linenum =
     with_line (elided clean) linenum (\<lambda>line st.
       py_bind (ExpectingFunctionArgs clean linenum) (\<lambda>expecting_function.
         let found = (if expecting_function then None else Search FUNCTION_CAST line)
         in if (case found of Some m \<Rightarrow> Match (raw ''`([^()]+`)`s*`['') (m_grp m 3) \<noteq> None | None \<Rightarrow> False) then Inr st
            else
              run [(case found of
                      None \<Rightarrow> Inr
                    | Some m \<Rightarrow>
                        whenever (deprecated_cast line m)
                          (error filename (Some (int linenum)) ''readability/casting'' 4
                            (''Using deprecated casting style.  '' @ ''Use static_cast<'' @ m_grp m 2 @ ''>(...) instead''))),
                   whenever (\<not> expecting_function)
                     (\<lambda>st. py_bind (CheckCStyleCast error filename clean linenum ''static_cast'' STATIC_CAST st)
                        (\<lambda>(_, st). Inr st)),
                   (\<lambda>st. py_bind (CheckCStyleCast error filename clean linenum ''const_cast'' CONST_CAST st) (\<lambda>(reported, st).
                      if reported then Inr st
                      else py_bind (CheckCStyleCast error filename clean linenum ''reinterpret_cast'' REINTERPRET_CAST st)
                             (\<lambda>(_, st). Inr st))),
                   check_address_of_cast error filename clean linenum line] st))"

section \<open>All language checks on a line\<close>

text \<open>\<open>re.split\<close> for a pattern without groups: the texts between the matches.\<close>

fun split_go :: "regex \<Rightarrow> char option \<Rightarrow> nat \<Rightarrow> string \<Rightarrow> string \<Rightarrow> string list" where
  "split_go r p k acc [] = [rev acc]"
| "split_go r p (Suc k) acc (c # cs) = split_go r (Some c) k acc cs"
| "split_go r p 0 acc (c # cs) =
     (case match_at r p 0 (c # cs) of
        Some m \<Rightarrow> if m_text m \<noteq> [] then rev acc # split_go r (Some c) (length (m_text m) - 1) [] cs
                  else split_go r (Some c) 0 (c # acc) cs
      | None \<Rightarrow> split_go r (Some c) 0 (c # acc) cs)"

definition re_split :: "regex \<Rightarrow> string \<Rightarrow> string list" where
  "re_split r s = split_go r None 0 [] s"

text \<open>The loop over the tokens of an array size; the flag is \<open>skip_next\<close>.\<close>

fun const_tokens :: "bool \<Rightarrow> string list \<Rightarrow> bool" where
  "const_tokens skip_next [] = True"
| "const_tokens skip_next (tok # tokens) =
     (if skip_next then const_tokens False tokens
      else if Search (raw ''sizeof`(.+`)'') tok \<noteq> None \<or> Search (raw ''arraysize`(`w+`)'') tok \<noteq> None then const_tokens False tokens
      else
        (let tok = str_rstrip_chars (str_lstrip_chars tok ''('') '')'' in
         if tok = [] \<or> Match (raw ''`d+'') tok \<noteq> None \<or> Match ''0[xX][0-9a-fA-F]+'' tok \<noteq> None \<or>
            Match (raw ''k[A-Z0-9]`w*'') tok \<noteq> None \<or> Match (raw ''(.+::)?k[A-Z0-9]`w*'') tok \<noteq> None \<or>
            Match ''(.+::)?[A-Z][A-Z0-9_]*'' tok \<noteq> None then const_tokens False tokens
         else if startswith tok ''sizeof'' then const_tokens True tokens
         else False))"

definition ARRAY_SIZE_DELIMITER :: string where
  "ARRAY_SIZE_DELIMITER = raw ''`s|`+|`-|`*|`/|<<|>>]''"

definition check_array_size :: "error_fn \<Rightarrow> string \<Rightarrow> nat \<Rightarrow> string \<Rightarrow> action" where
  "check_array_size error filename linenum line =
     (case Match (raw ''`s*(.+::)?(`w+) [a-z]`w*`[(.+)];'') line of
        None \<Rightarrow> Inr
      | Some m \<Rightarrow>
          whenever (m_grp m 2 \<noteq> ''return'' \<and> m_grp m 2 \<noteq> ''delete'' \<and> str_find (m_grp m 3) '']'' = -1 \<and>
                    \<not> const_tokens False (re_split (re_const ARRAY_SIZE_DELIMITER) (m_grp m 3)))
            (error filename (Some (int linenum)) ''runtime/arrays'' 1
              (''Do not use variable-length arrays.  Use an appropriately named '' @
               ''('' @ [CHR 0x27] @ ''k'' @ [CHR 0x27] @ '' followed by CamelCase) compile-time constant for the size.'')))"

definition flagged :: "rflags \<Rightarrow> string \<Rightarrow> regex" where
  "flagged fl p = (case re_compile_flags fl p of Some r \<Rightarrow> r | None \<Rightarrow> RLook False REmpty)"

text \<open>The pattern \<open>(?i)\b(string)?printf\s*\(\<close>, compiled with \<open>re.M\<close>, and the pattern of the function name.\<close>

definition PRINTF_CALL :: regex where
  "PRINTF_CALL = flagged \<lparr>dotall = False, multiline = True, ignorecase = True\<rparr> (raw ''`b(string)?printf`s*`('')"

definition PRINTF_NAME :: regex where
  "PRINTF_NAME = flagged \<lparr>dotall = False, multiline = False, ignorecase = True\<rparr> (raw ''`b((?:string)?printf)`s*`('')"

definition check_format_string :: "error_fn \<Rightarrow> string \<Rightarrow> nat \<Rightarrow> string \<Rightarrow> action" where
  \<open>check_format_string error filename linenum line st =
     py_bind (GetTextInside line PRINTF_CALL) (\<lambda>printf_args.
       case (case printf_args of Some (c # cs) \<Rightarrow> Match (raw ''([`w.`->()]+)$'') (c # cs) | _ \<Rightarrow> None) of
         None \<Rightarrow> Inr st
       | Some m \<Rightarrow>
           if m_grp m 1 = ''__VA_ARGS__'' then Inr st
           else
             (case re_search PRINTF_NAME line of
                None \<Rightarrow> Inl AttributeError
              | Some f \<Rightarrow>
                  error filename (Some (int linenum)) ''runtime/printf'' 4
                    (''Potential format string bug. Do '' @ m_grp f 1 @ ''("%s", '' @ m_grp m 1 @ '') instead.'') st))\<close>

definition check_types :: "error_fn \<Rightarrow> string \<Rightarrow> nat \<Rightarrow> string \<Rightarrow> action" where
  \<open>check_types error filename linenum line =
     (if Search (raw ''`bshort port`b'') line \<noteq> None then
        whenever (Search (raw ''`bunsigned short port`b'') line = None)
          (error filename (Some (int linenum)) ''runtime/int'' 4 ''Use "unsigned short" for ports, not "short"'')
      else
        (case Search (raw ''`b(short|long(?! +double)|long long)`b'') line of
           None \<Rightarrow> Inr
         | Some m \<Rightarrow>
             error filename (Some (int linenum)) ''runtime/int'' 4
               (''Use int16/int64/etc, rather than the C type '' @ m_grp m 1)))\<close>

definition check_memset :: "error_fn \<Rightarrow> string \<Rightarrow> nat \<Rightarrow> string \<Rightarrow> action" where
  \<open>check_memset error filename linenum line =
     (case Search (raw ''memset`s*`(([^,]*),`s*([^,]*),`s*0`s*`)'') line of
        None \<Rightarrow> Inr
      | Some m \<Rightarrow>
          whenever (Match (''^'' @ [CHR 0x27, CHR 0x27] @ ''|-?[0-9]+|0x[0-9A-Fa-f]$'') (m_grp m 2) = None)
            (error filename (Some (int linenum)) ''runtime/memset'' 4
              (''Did you mean "memset('' @ m_grp m 1 @ '', 0, '' @ m_grp m 2 @ '')"?'')))\<close>

definition check_using_namespace :: "error_fn \<Rightarrow> string \<Rightarrow> nat \<Rightarrow> string \<Rightarrow> action" where
  "check_using_namespace error filename linenum line =
     whenever (Search (raw ''`busing namespace`b'') line \<noteq> None)
       (error filename (Some (int linenum))
         (if Search (raw ''`bliterals`b'') line \<noteq> None then ''build/namespaces_literals'' else ''build/namespaces'') 5
         (''Do not use namespace using-directives.  '' @ ''Use using-declarations instead.''))"

definition check_unnamed_namespace :: "error_fn \<Rightarrow> string \<Rightarrow> nat \<Rightarrow> string \<Rightarrow> string \<Rightarrow> action" where
  "check_unnamed_namespace error filename linenum file_extension line st =
     whenever (IsHeaderExtension st file_extension \<and> Search (raw ''`bnamespace`s*{'') line \<noteq> None \<and> last line \<noteq> backslash)
       (error filename (Some (int linenum)) ''build/namespaces'' 4
         (''Do not use unnamed namespaces in header files.  See '' @
          ''https://google-styleguide.googlecode.com/svn/trunk/cppguide.xml#Namespaces'' @ '' for more information.'')) st"

text \<open>The checks of a line that is not an include line.\<close>

definition check_code_line :: "error_fn \<Rightarrow> string \<Rightarrow> cleansed_lines \<Rightarrow> nat \<Rightarrow> string \<Rightarrow> string \<Rightarrow> action" where
  \<open>check_code_line error filename clean linenum file_extension line =
     run [CheckCasts error filename clean linenum,
          CheckGlobalStatic error filename clean linenum,
          CheckPrintf error filename clean linenum,
          check_types error filename linenum line,
          whenever (Search (raw ''`boperator`s*&`s*`(`s*`)'') line \<noteq> None)
            (error filename (Some (int linenum)) ''runtime/operator'' 4 ''Unary operator& is dangerous.  Do not use it.''),
          whenever (Search (raw ''`}`s*if`s*`('') line \<noteq> None)
            (error filename (Some (int linenum)) ''readability/braces'' 4
              ''Did you mean "else if"? If not, start a new line for "if".''),
          check_format_string error filename linenum line,
          check_memset error filename linenum line,
          check_using_namespace error filename linenum line,
          check_array_size error filename linenum line,
          check_unnamed_namespace error filename linenum file_extension line]\<close>

definition CheckLanguage :: "os_env \<Rightarrow> error_fn \<Rightarrow> string \<Rightarrow> cleansed_lines \<Rightarrow> nat \<Rightarrow> string \<Rightarrow> include_state \<Rightarrow>
    nesting_state \<Rightarrow> lint \<Rightarrow> (include_state \<times> lint) py" where
  "CheckLanguage env error filename clean linenum file_extension ist ns st =
     py_bind (py_index (elided clean) (int linenum)) (\<lambda>line.
       if line = [] then Inr (ist, st)
       else if re_search (re_const RE_PATTERN_INCLUDE) line \<noteq> None then
         CheckIncludeLine env error filename clean linenum ist st
       else
         (let ist = (case Match (raw ''^`s*#`s*(if|ifdef|ifndef|elif|else|endif)`b'') line of
                       Some m \<Rightarrow> ResetSection (m_grp m 1) ist
                     | None \<Rightarrow> ist)
          in py_bind (check_code_line error filename clean linenum file_extension line st) (\<lambda>st. Inr (ist, st))))"

section \<open>Lemmas\<close>

lemma printf_paren: "final_char PRINTF_CALL (CHR ''('')"
  by code_simp

lemma printf_call_name: "matches PRINTF_CALL p s p' s' \<Longrightarrow> matches PRINTF_NAME p s p' s'"
proof -
  define S where "S = rseqs (map (lit_node \<lparr>dotall = False, multiline = True, ignorecase = True\<rparr>) ''string'')"
  define P where "P = map (lit_node \<lparr>dotall = False, multiline = True, ignorecase = True\<rparr>) ''printf''"
  have c: "PRINTF_CALL = RSeq (RWordB True) (RSeq (RAlt (RGroup 1 S) REmpty) (rseqs (P @ [spaces, RLit (CHR ''('')])))"
    unfolding S_def P_def by code_simp
  have n: "PRINTF_NAME = RSeq (RWordB True) (RSeq (RGroup 1 (RSeq (RAlt S REmpty) (rseqs P))) (RSeq spaces (RLit (CHR ''(''))))"
    unfolding S_def P_def by code_simp
  have a: "matches (rseqs (xs @ [u, v])) q t q' t' \<longleftrightarrow> (\<exists>q1 t1. matches (rseqs xs) q t q1 t1 \<and> matches (RSeq u v) q1 t1 q' t')"
    if "xs \<noteq> []" for xs u v q t q' t'
    using that by (induction xs arbitrary: q t rule: rseqs.induct) (auto simp del: matches.simps(2,3), blast+)
  have "P \<noteq> []" by (simp add: P_def)
  from a [OF this] show "matches PRINTF_CALL p s p' s' \<Longrightarrow> matches PRINTF_NAME p s p' s'"
    unfolding c n by (auto simp del: rseqs.simps)
qed

lemma printf_name_found: "re_search PRINTF_CALL line \<noteq> None \<Longrightarrow> re_search PRINTF_NAME line \<noteq> None"
  using printf_call_name unfolding re_search_iff by blast

lemma GetTextInside_printf: "\<exists>r. GetTextInside line PRINTF_CALL = Inr r \<and> (r \<noteq> None \<longrightarrow> re_search PRINTF_NAME line \<noteq> None)"
proof (cases "re_search PRINTF_CALL line")
  case None
  then show ?thesis by (simp add: GetTextInside_def)
next
  case (Some m)
  from re_search_final [OF Some printf_paren] printf_name_found [of line] Some show ?thesis by (simp add: GetTextInside_def Let_def)
qed

section \<open>Safety\<close>

lemma function_start_less: "function_start clean linenum = Some i \<Longrightarrow> i \<le> linenum"
  unfolding function_start_def by (metis atLeastLessThan_iff find_Some_iff less_Suc_eq_le nth_mem set_rev set_upt)

lemma language_groups: "lead_group (re_const FUNCTION_START) 1" "lead_group (re_const CAST_OPERATOR) 1"
  by code_simp+

lemma IsDerivedFunction_returns:
  assumes "lines_ok clean" "linenum < NumLines clean"
  shows "\<exists>b. IsDerivedFunction clean linenum = Inr b"
proof -
  have "\<exists>r. CloseExpression clean i (length (m_grp m 1)) = Inr r"
    if "function_start clean linenum = Some i" "Match FUNCTION_START (elided clean ! i) = Some m" for i m
    using function_start_less [OF that(1)] assms Match_lead_group(1) [OF that(2) language_groups(1)]
    by (intro CloseExpression_returns) simp_all
  then show ?thesis
    unfolding IsDerivedFunction_def by (fastforce split: option.split)
qed

lemma joined_line_returns:
  assumes "lines_ok clean" "linenum < NumLines clean" "line = elided clean ! linenum"
  shows "\<exists>l. joined_line clean linenum line = Inr l"
proof -
  have "\<exists>r. ReverseCloseExpression clean linenum (nat (str_rfind_char line (CHR ''>''))) = Inr r"
    if "str_rfind_char line (CHR ''>'') > -1"
  proof -
    from that have "line \<noteq> []" by (auto simp: str_rfind_char_def)
    from str_rfind_less [OF this] assms show ?thesis by (intro ReverseCloseExpression_returns) simp_all
  qed
  then show ?thesis unfolding joined_line_def Let_def by (fastforce split: option.split)
qed

text \<open>The closing bracket of the cast operator, whose address is taken, is the last character of its
  line: the condition under which \<open>CheckCasts\<close> reads beyond the line.\<close>

definition cast_ends_line :: "cleansed_lines \<Rightarrow> nat \<Rightarrow> bool" where
  "cast_ends_line clean linenum =
     (case Match CAST_OPERATOR (elided clean ! linenum) of
        None \<Rightarrow> False
      | Some m \<Rightarrow>
          (case CloseExpression clean linenum (length (m_grp m 1)) of
             Inr (_, y1, x1) \<Rightarrow> x1 = int (length (elided clean ! y1))
           | Inl _ \<Rightarrow> False))"

text \<open>The early return of \<open>CheckCasts\<close>: a built-in type followed by a parenthesis and by a bracket is taken for an array, and
  nothing more is looked at.\<close>

definition array_behind_type :: "cleansed_lines \<Rightarrow> nat \<Rightarrow> bool" where
  "array_behind_type clean linenum =
     (ExpectingFunctionArgs clean linenum = Inr False \<and>
      (case Search FUNCTION_CAST (elided clean ! linenum) of
         Some m \<Rightarrow> Match (raw ''`([^()]+`)`s*`['') (m_grp m 3) \<noteq> None
       | None \<Rightarrow> False))"

lemma parenthesis_error_result:
  assumes "lines_ok clean" "linenum < NumLines clean"
  shows "if cast_ends_line clean linenum then parenthesis_error clean linenum (elided clean ! linenum) = Inl IndexError
    else \<exists>b. parenthesis_error clean linenum (elided clean ! linenum) = Inr b"
proof (cases "Match CAST_OPERATOR (elided clean ! linenum)")
  case None
  then show ?thesis by (auto simp: cast_ends_line_def parenthesis_error_def)
next
  case (Some m)
  from CloseExpression_returns [OF assms Match_lead_group(1) [OF Some language_groups(2)]]
  obtain l y x where c: "CloseExpression clean linenum (length (m_grp m 1)) = Inr (l, y, x)" by auto
  show ?thesis
  proof (cases "x \<ge> 0")
    case False
    with Some c show ?thesis by (auto simp: cast_ends_line_def parenthesis_error_def)
  next
    case True
    then have x1: "x > -1" by simp
    note place = CloseExpression_place [OF c x1 assms]
    obtain k where k: "x = int k" using True nonneg_int_cases by blast
    have y: "py_index (elided clean) (int y) = Inr (elided clean ! y)" using place assms(1) by (simp add: lines_ok_def)
    show ?thesis
    proof (cases "k = length (elided clean ! y)")
      case True
      with Some c k y show ?thesis by (simp add: cast_ends_line_def parenthesis_error_def py_index_def)
    next
      case False
      with place k have k': "k < length (elided clean ! y)" by simp
      from CloseExpression_returns [OF assms(1) place(1) k'] obtain r where "CloseExpression clean y k = Inr r" by blast
      with Some c k k' y False show ?thesis
        by (cases r) (auto simp: cast_ends_line_def parenthesis_error_def)
    qed
  qed
qed

context reporter
begin

lemma language_report_safe:
  "category \<in> {''runtime/string'', ''runtime/init'', ''runtime/printf'', ''runtime/references'', ''readability/casting'',
     ''runtime/casting'', ''runtime/arrays'', ''runtime/int'', ''runtime/memset'', ''build/namespaces_literals'',
     ''build/namespaces'', ''runtime/operator'', ''readability/braces''} \<Longrightarrow>
   0 \<le> confidence \<Longrightarrow> confidence \<le> 5 \<Longrightarrow> safe Inv (error filename linenum category confidence message)"
  by (rule report_safe) (auto simp: ERROR_CATEGORIES_def)

lemmas language_safe = safe_flow with_line_safe safe_return safe_return' language_report_safe

lemma CheckGlobalStatic_safe:
  "linenum < length (elided clean) \<Longrightarrow> safe Inv (CheckGlobalStatic error filename clean linenum)"
  unfolding CheckGlobalStatic_def Let_def by (intro language_safe) simp_all

lemma CheckPrintf_safe:
  "linenum < length (elided clean) \<Longrightarrow> safe Inv (CheckPrintf error filename clean linenum)"
  unfolding CheckPrintf_def Let_def by (intro language_safe) simp_all

lemma CheckForNonConstReference_safe:
  assumes "lines_ok clean" "linenum < NumLines clean"
  shows "safe Inv (CheckForNonConstReference error filename clean linenum ns)"
proof -
  have l: "linenum < length (elided clean)" using assms by (simp add: lines_ok_def)
  show ?thesis
    unfolding CheckForNonConstReference_def Let_def
    by (intro language_safe safe_value for_each_safe IsDerivedFunction_returns [OF assms] joined_line_returns [OF assms refl] l)
      simp_all
qed

lemma CheckCStyleCast_safe:
  assumes "linenum < length (elided clean)" "\<And>b. safe Inv (f b)"
  shows "safe Inv (\<lambda>st. py_bind (CheckCStyleCast error filename clean linenum cast_type pattern st) (\<lambda>(b, st). f b st))"
proof (rule safeI)
  fix st assume st: "Inv st"
  let ?line = "elided clean ! linenum"
  show "\<exists>st'. py_bind (CheckCStyleCast error filename clean linenum cast_type pattern st) (\<lambda>(b, st). f b st) = Inr st' \<and> Inv st'"
  proof (cases "\<exists>m. Search pattern ?line = Some m \<and> looks_like_cast clean linenum ?line m")
    case False
    with assms(1) safeD [OF assms(2) st] show ?thesis by (auto simp: CheckCStyleCast_def split: option.split)
  next
    case True
    then obtain m where m: "Search pattern ?line = Some m" "looks_like_cast clean linenum ?line m" by blast
    have "safe Inv (error filename (Some (int linenum)) ''readability/casting'' 4 msg)" for msg
      by (rule language_report_safe) simp_all
    from safeD [OF this st] obtain st1 where "error filename (Some (int linenum)) ''readability/casting'' 4
        (''Using C-style cast.  Use '' @ cast_type @ ''<'' @ m_grp m 1 @ ''>(...) instead'') st = Inr st1" "Inv st1" by blast
    with m assms(1) safeD [OF assms(2), of st1] show ?thesis by (simp add: CheckCStyleCast_def)
  qed
qed

lemma one_cast_safe:
  "linenum < length (elided clean) \<Longrightarrow>
   safe Inv (\<lambda>st. py_bind (CheckCStyleCast error filename clean linenum c pat st) (\<lambda>(_, st). Inr st))"
  using CheckCStyleCast_safe [of linenum clean "\<lambda>_. Inr"] by auto

lemma either_cast_safe:
  assumes "linenum < length (elided clean)"
  shows "safe Inv (\<lambda>st. py_bind (CheckCStyleCast error filename clean linenum c pat st) (\<lambda>(reported, st).
    if reported then Inr st else py_bind (CheckCStyleCast error filename clean linenum c' pat' st) (\<lambda>(_, st). Inr st)))"
  by (rule CheckCStyleCast_safe [OF assms, where f = "\<lambda>b st. if b then Inr st
        else py_bind (CheckCStyleCast error filename clean linenum c' pat' st) (\<lambda>(_, st). Inr st)"])
    (intro safe_if safe_return' one_cast_safe assms)

lemma check_address_of_cast_safe:
  assumes "lines_ok clean" "linenum < NumLines clean" "\<not> cast_ends_line clean linenum"
  shows "safe Inv (check_address_of_cast error filename clean linenum (elided clean ! linenum))"
  using parenthesis_error_result [OF assms(1,2)] assms(3)
  unfolding check_address_of_cast_def by (intro language_safe safe_value) simp_all

lemma check_address_of_cast_unless:
  assumes "lines_ok clean" "linenum < NumLines clean"
  shows "safe_unless (cast_ends_line clean linenum) Inv (check_address_of_cast error filename clean linenum (elided clean ! linenum))"
proof (rule safe_unless_split)
  assume c: "cast_ends_line clean linenum"
  then have "parenthesis_error clean linenum (elided clean ! linenum) = Inl IndexError"
    using parenthesis_error_result [OF assms] by simp
  with c show "safe_unless (cast_ends_line clean linenum) Inv (check_address_of_cast error filename clean linenum (elided clean ! linenum))"
    by (simp add: safe_unless_def check_address_of_cast_def)
qed (rule check_address_of_cast_safe [OF assms])

lemma CheckCasts_unless:
  assumes "lines_ok clean" "linenum < NumLines clean"
  shows "safe_unless (cast_ends_line clean linenum) Inv (CheckCasts error filename clean linenum)"
proof -
  let ?c = "cast_ends_line clean linenum" and ?line = "elided clean ! linenum"
  have l: "linenum < length (elided clean)" using assms by (simp add: lines_ok_def)
  then obtain b where x: "ExpectingFunctionArgs clean linenum = Inr b" by (auto simp: ExpectingFunctionArgs_def)
  have a: "safe Inv (case found of None \<Rightarrow> Inr | Some m \<Rightarrow> whenever (deprecated_cast ?line m)
      (error filename (Some (int linenum)) ''readability/casting'' 4
         (''Using deprecated casting style.  '' @ ''Use static_cast<'' @ m_grp m 2 @ ''>(...) instead'')))" for found
    by (intro language_safe) simp_all
  show ?thesis
    unfolding safe_unless_def CheckCasts_def with_line_def py_index_nat [OF l] py_bind.simps x Let_def
  proof (intro allI impI, goal_cases)
    case (1 st)
    note r = run_Cons_unless [OF safe_unless_safe [OF a] run_Cons_unless [OF safe_unless_safe [OF whenever_safe [OF one_cast_safe [OF l]]]
      run_Cons_unless [OF safe_unless_safe [OF either_cast_safe [OF l]] run_Cons_unless [OF check_address_of_cast_unless [OF assms]
        safe_unless_safe [OF run_Nil_safe]]]]]
    from 1 r show ?case unfolding safe_unless_def by (auto split del: option.splits simp del: run.simps)
  qed
qed

end

context reporter
begin

lemma check_format_string_safe: "safe Inv (check_format_string error filename linenum line)"
proof -
  obtain r where r: "GetTextInside line PRINTF_CALL = Inr r" "r \<noteq> None \<Longrightarrow> re_search PRINTF_NAME line \<noteq> None"
    using GetTextInside_printf [of line] by auto
  have f: "re_search PRINTF_NAME line \<noteq> None"
    if "(case r of Some (c # cs) \<Rightarrow> Match pat (c # cs) | _ \<Rightarrow> None) = Some m" for pat m
    using that r(2) by (auto split: option.splits)
  show ?thesis
    unfolding check_format_string_def r(1) py_bind.simps
    by (intro language_safe; (drule f)?) simp_all
qed

lemma check_types_safe: "safe Inv (check_types error filename linenum line)"
  unfolding check_types_def by (intro language_safe) simp_all

lemma check_memset_safe: "safe Inv (check_memset error filename linenum line)"
  unfolding check_memset_def by (intro language_safe) simp_all

lemma check_using_namespace_safe: "safe Inv (check_using_namespace error filename linenum line)"
  unfolding check_using_namespace_def by (intro language_safe) simp_all

lemma check_array_size_safe: "safe Inv (check_array_size error filename linenum line)"
  unfolding check_array_size_def by (intro language_safe) simp_all

lemma check_unnamed_namespace_safe: "safe Inv (check_unnamed_namespace error filename linenum file_extension line)"
proof -
  have "safe Inv (whenever b (error filename (Some (int linenum)) ''build/namespaces'' 4 msg))" for b msg
    by (intro language_safe) simp_all
  then show ?thesis unfolding check_unnamed_namespace_def safe_def by blast
qed

end

context reporter
begin

text \<open>The checks before the last one return, so what the last one raises is what \<open>CheckCasts\<close> raises, unless it returns before.\<close>

lemma CheckCasts_exact:
  assumes "lines_ok clean" "linenum < NumLines clean" "Inv st"
  shows "if Search ADDRESS_OF_CAST (elided clean ! linenum) \<noteq> None \<and> cast_ends_line clean linenum \<and> \<not> array_behind_type clean linenum
    then CheckCasts error filename clean linenum st = Inl IndexError
    else \<exists>st'. CheckCasts error filename clean linenum st = Inr st' \<and> Inv st'"
proof -
  let ?cast = "\<lambda>c pat st. CheckCStyleCast error filename clean linenum c pat st" and ?line = "elided clean ! linenum"
  have l: "linenum < length (elided clean)" using assms by (simp add: lines_ok_def)
  obtain b where b: "ExpectingFunctionArgs clean linenum = Inr b" using l by (simp add: ExpectingFunctionArgs_def)
  define found where "found = (if b then None else Search FUNCTION_CAST ?line)"
  have early: "array_behind_type clean linenum \<longleftrightarrow> (case found of Some m \<Rightarrow> Match (raw ''`([^()]+`)`s*`['') (m_grp m 3) \<noteq> None | None \<Rightarrow> False)"
    by (simp add: array_behind_type_def b found_def)
  define first where "first = [case found of None \<Rightarrow> Inr | Some m \<Rightarrow> whenever (deprecated_cast ?line m)
        (error filename (Some (int linenum)) ''readability/casting'' 4
          (''Using deprecated casting style.  '' @ ''Use static_cast<'' @ m_grp m 2 @ ''>(...) instead'')),
      whenever (\<not> b) (\<lambda>st. py_bind (?cast ''static_cast'' STATIC_CAST st) (\<lambda>(_, st). Inr st)),
      \<lambda>st. py_bind (?cast ''const_cast'' CONST_CAST st) (\<lambda>(r, st). if r then Inr st
         else py_bind (?cast ''reinterpret_cast'' REINTERPRET_CAST st) (\<lambda>(_, st). Inr st))]"
  have "safe Inv (run first)"
    unfolding first_def
    by (intro run_Cons_safe run_Nil_safe whenever_safe one_cast_safe either_cast_safe l) (intro language_safe; simp)
  from safeD [OF this assms(3)] obtain st1 where st1: "run first st = Inr st1" "Inv st1" by blast
  have "CheckCasts error filename clean linenum st =
      (if array_behind_type clean linenum then Inr st else run (first @ [check_address_of_cast error filename clean linenum ?line]) st)"
    unfolding CheckCasts_def with_line_def py_index_nat [OF l] py_bind.simps b Let_def found_def [symmetric] early first_def append.simps ..
  moreover have single: "run [a] st = a st" for a st by (cases "a st") simp_all
  ultimately have call: "CheckCasts error filename clean linenum st =
      (if array_behind_type clean linenum then Inr st else check_address_of_cast error filename clean linenum ?line st1)"
    by (simp only: run_append st1(1) py_bind.simps single)
  show ?thesis
  proof (cases "Search ADDRESS_OF_CAST ?line \<noteq> None \<and> cast_ends_line clean linenum")
    case True
    with parenthesis_error_result [OF assms(1,2)] have "check_address_of_cast error filename clean linenum ?line st1 = Inl IndexError"
      by (simp add: check_address_of_cast_def)
    with True assms(3) show ?thesis by (simp add: call)
  next
    case False
    then have "\<exists>st'. check_address_of_cast error filename clean linenum ?line st1 = Inr st' \<and> Inv st'"
      using safeD [OF check_address_of_cast_safe [OF assms(1,2)] st1(2)] st1(2)
      by (cases "Search ADDRESS_OF_CAST ?line = None") (simp_all add: check_address_of_cast_def)
    with False assms(3) show ?thesis by (auto simp: call)
  qed
qed

end

context naming_reporter
begin

lemma check_code_line_unless:
  assumes "lines_ok clean" "linenum < NumLines clean"
  shows "safe_unless (cast_ends_line clean linenum) Inv (check_code_line error filename clean linenum file_extension (elided clean ! linenum))"
proof -
  have l: "linenum < length (elided clean)" using assms by (simp add: lines_ok_def)
  note language_run = CheckGlobalStatic_safe [OF l] CheckPrintf_safe [OF l] check_types_safe
    check_format_string_safe check_memset_safe check_using_namespace_safe check_array_size_safe check_unnamed_namespace_safe
  show ?thesis
    unfolding check_code_line_def
    by (rule run_Cons_unless [OF CheckCasts_unless [OF assms]], rule safe_unless_safe,
      intro run_Cons_safe run_Nil_safe language_run whenever_safe language_report_safe) simp_all
qed

lemma include_line_recorded:
  assumes "Inv st" "include_inv ist" "linenum < length (elided clean)" "linenum < length (clean_lines clean)"
  shows "\<exists>ist' st'. CheckIncludeLine env error filename clean linenum ist st = Inr (ist', st') \<and> Inv st' \<and> include_inv ist'"
  using CheckIncludeLine_safe [OF assms] include_inv_record include_inv_list assms(2) by blast

lemma CheckLanguage_unless:
  assumes "lines_ok clean" "linenum < NumLines clean" "linenum < length (clean_lines clean)" "Inv st" "include_inv ist"
  shows "(\<exists>ist' st'. CheckLanguage env error filename clean linenum file_extension ist ns st = Inr (ist', st') \<and>
      Inv st' \<and> include_inv ist') \<or>
    CheckLanguage env error filename clean linenum file_extension ist ns st = Inl IndexError \<and> cast_ends_line clean linenum"
proof -
  let ?line = "elided clean ! linenum"
  have l: "linenum < length (elided clean)" using assms(1,2) by (simp add: lines_ok_def)
  consider "?line = []" | "?line \<noteq> []" "re_search (re_const RE_PATTERN_INCLUDE) ?line \<noteq> None"
    | "?line \<noteq> []" "re_search (re_const RE_PATTERN_INCLUDE) ?line = None" by blast
  then show ?thesis
  proof cases
    case 1
    with l assms(4,5) show ?thesis by (simp add: CheckLanguage_def)
  next
    case 2
    with l include_line_recorded [OF assms(4,5) l assms(3), of filename] show ?thesis by (simp add: CheckLanguage_def)
  next
    case 3
    let ?ist = "case Match (raw ''^`s*#`s*(if|ifdef|ifndef|elif|else|endif)`b'') ?line of
        Some m \<Rightarrow> ResetSection (m_grp m 1) ist | None \<Rightarrow> ist"
    have call: "CheckLanguage env error filename clean linenum file_extension ist ns st =
        py_bind (check_code_line error filename clean linenum file_extension ?line st) (\<lambda>st. Inr (?ist, st))"
      using 3 l by (simp add: CheckLanguage_def Let_def)
    have "include_inv ?ist" using include_inv_reset [OF assms(5)] assms(5) by (simp split: option.split)
    note inv = this
    from check_code_line_unless [OF assms(1,2), of filename file_extension] assms(4) show ?thesis
    proof (cases rule: safe_unlessD)
      case (1 st')
      with call inv show ?thesis by simp
    next
      case 2
      with call show ?thesis by simp
    qed
  qed
qed

end

text \<open>The bracket stack of the text search is the mirror image of the stack of open brackets.\<close>

lemma closing_of_closes: "opener c \<Longrightarrow> closes c b \<longleftrightarrow> b = closing_of c"
  by (auto simp: opener_def closes_def closing_of_def)

lemma text_inside_scan:
  "s \<noteq> [] \<Longrightarrow> list_all opener s \<Longrightarrow>
   text_inside_loop (map closing_of s) n t = (case scan t s of Closed k \<Rightarrow> Some (n + k) | _ \<Rightarrow> None)"
proof (induction t arbitrary: s n)
  case Nil
  then show ?case by (cases s) auto
next
  case (Cons c t)
  then obtain a s' where s: "s = a # s'" "opener a" "list_all opener s'" by (cases s) auto
  have sh: "(case shift 1 r of Closed k \<Rightarrow> Some (n + k) | _ \<Rightarrow> None) = (case r of Closed k \<Rightarrow> Some (n + 1 + k) | _ \<Rightarrow> None)" for r
    by (cases r) auto
  have e: "c \<in> set '')}]'' \<longleftrightarrow> closer c" "c \<in> set ''({['' \<longleftrightarrow> opener c" by (auto simp: closer_def opener_def)
  consider (op) "opener c" | (cl) "closer c" | (other) "\<not> opener c" "\<not> closer c" by blast
  then show ?case
  proof cases
    case op
    have "c \<noteq> closing_of a" using op by (auto simp: opener_def closing_of_def)
    with op Cons.IH [of "c # s" "n + 1"] s e show ?thesis by (simp add: sh del: One_nat_def)
  next
    case cl
    note k = closing_of_closes [OF s(2), of c]
    show ?thesis
    proof (cases "c = closing_of a")
      case False
      with cl k e(1) show ?thesis by (simp add: s(1))
    next
      case True
      with cl k Cons.IH [of s' "n + 1"] s(3) show ?thesis
        by (cases s') (auto simp: s(1) sh [unfolded One_nat_def] split: scan_result.split)
    qed
  next
    case other
    have "closer (closing_of a)" by (simp add: closing_of_def closer_def)
    with other have "c \<noteq> closing_of a" by auto
    with other s e Cons.IH [of s "n + 1"] show ?thesis by (simp add: sh del: One_nat_def)
  qed
qed

lemma GetTextInside_result:
  assumes "re_search r text = Some m" "final_char r c" "opener c"
  shows "GetTextInside text r = Inr (case scan (drop (m_end m) text) [c] of Closed k \<Rightarrow> Some (take (k - 1) (drop (m_end m) text)) | _ \<Rightarrow> None)"
proof -
  note f = re_search_final [OF assms(1,2)]
  have c: "c \<in> set ''({[''" using assms(3) by (auto simp: opener_def)
  have sl: "py_slice text (int (m_end m)) (int (m_end m + k) - 1) = take (k - 1) (drop (m_end m) text)" if "0 < k" for k
    using that f(2) by (cases k) (simp_all add: py_slice_def slice_bound_def min_def nat_int_add drop_take)
  have pos: "0 < k" if "scan t [c] = Closed k" for t k using scan_Closed [OF that] by (cases k) auto
  show ?thesis
    using assms(1) f c text_inside_scan [of "[c]" "m_end m" "drop (m_end m) text"] assms(3) sl pos
    by (simp add: GetTextInside_def Let_def split: scan_result.split)
qed

section \<open>Properties\<close>

text \<open>All language checks on a line: \<open>CheckLanguage\<close> and \<open>CheckForNonConstReference\<close> return on every line of
  every file on which no cast operator whose address is taken ends its line, and keep the
  error state consistent and the recorded headers pairwise different.  The assertions of \<open>_GetTextInside\<close> hold, and the
  name of the printf function is found whenever its call is.\<close>

theorem language_checks_safe:
  assumes "linenum < length lines" "\<not> cast_ends_line (CleansedLines lines) linenum" "lint_inv st" "include_inv ist"
    and "\<And>f. \<exists>r. RepositoryName env st f = Inr r"
  shows "(\<exists>ist' st'. CheckLanguage env Error filename (CleansedLines lines) linenum file_extension ist ns st = Inr (ist', st') \<and>
      lint_inv st' \<and> include_inv ist') \<and>
    (\<exists>st'. CheckForNonConstReference Error filename (CleansedLines lines) linenum ns st = Inr st' \<and> lint_inv st')"
proof -
  have inv: "lint_inv st \<and> files_named env st" using assms(3,5) by (simp add: files_named_def)
  have n: "linenum < NumLines (CleansedLines lines)" "linenum < length (clean_lines (CleansedLines lines))"
    using assms(1) by simp_all
  from Named.CheckLanguage_unless [OF lines_ok_CleansedLines n inv assms(4)] assms(2)
    safeD [OF Err.CheckForNonConstReference_safe [OF lines_ok_CleansedLines n(1)] assms(3)]
  show ?thesis by blast
qed

theorem language_checks_safe_witness:
  "(\<exists>ist' st'. CheckLanguage \<lparr>cwd = ''/w'', path_exists = (\<lambda>p. False)\<rparr> Error ''a.cc'' (CleansedLines [''printf(x);'']) 0 ''cc''
      IncludeState_init NestingState_init (lint_init CppLintState_init) = Inr (ist', st') \<and> lint_inv st' \<and> include_inv ist') \<and>
   (\<exists>st'. CheckForNonConstReference Error ''a.cc'' (CleansedLines [''printf(x);'']) 0 NestingState_init
      (lint_init CppLintState_init) = Inr st' \<and> lint_inv st')"
proof (rule language_checks_safe)
  have p: "list_all plain_line [''printf(x);'']" by code_simp
  have "Match CAST_OPERATOR ''printf(x);'' = None" by code_simp
  with CleansedLines_plain [OF p] show "\<not> cast_ends_line (CleansedLines [''printf(x);'']) 0" by (simp add: cast_ends_line_def)
  show "lint_inv (lint_init CppLintState_init)" by code_simp
  show "include_inv IncludeState_init" by (rule include_inv_init)
qed (simp_all add: RepositoryName_def Let_def)

text \<open>C34. \<open>CheckCasts\<close> raises IndexError exactly where the address of a cast is taken, the closing bracket of the cast
  operator is the last character of its line, and no built-in type with a parenthesis and an array bracket behind it ends the check
  before: it looks at the character behind the closing bracket, and the linter stops with a traceback.  Everywhere else it returns.\<close>

theorem cast_at_end_of_line_raises:
  assumes "linenum < length lines" "lint_inv st"
  shows "if Search ADDRESS_OF_CAST (elided (CleansedLines lines) ! linenum) \<noteq> None \<and> cast_ends_line (CleansedLines lines) linenum \<and>
      \<not> array_behind_type (CleansedLines lines) linenum
    then CheckCasts Error filename (CleansedLines lines) linenum st = Inl IndexError
    else \<exists>st'. CheckCasts Error filename (CleansedLines lines) linenum st = Inr st' \<and> lint_inv st'"
  by (rule Err.CheckCasts_exact) (use assms in \<open>simp_all add: lines_ok_CleansedLines\<close>)

theorem cast_at_end_of_line_raises_witness:
  "CheckCasts Error ''a.cc'' (CleansedLines [''  p = &static_cast<A*>'', ''(q);'']) 0 (lint_init CppLintState_init) = Inl IndexError \<and>
   (\<exists>st'. CheckCasts Error ''a.cc'' (CleansedLines [''  f(int(x)[0], &static_cast<A*>'', ''(q));'']) 0 (lint_init CppLintState_init) = Inr st')"
proof -
  let ?a = "[''  p = &static_cast<A*>'', ''(q);'']" and ?b = "[''  f(int(x)[0], &static_cast<A*>'', ''(q));'']"
  have "list_all plain_line ?a" "list_all plain_line ?b" by code_simp+
  note ea = CleansedLines_plain [OF this(1)] and eb = CleansedLines_plain [OF this(2)]
  have i: "lint_inv (lint_init CppLintState_init)" by code_simp
  have "case Match CAST_OPERATOR ''  p = &static_cast<A*>'' of Some m \<Rightarrow> m_grp m 1 = ''  p = &static_cast'' | None \<Rightarrow> False"
    by code_simp
  then obtain m where m: "Match CAST_OPERATOR ''  p = &static_cast<A*>'' = Some m" "m_grp m 1 = ''  p = &static_cast''"
    by (auto split: option.splits)
  have f: "FindEndOfExpressionInLine ''  p = &static_cast<A*>'' 18 [] = (22, None)" "Match ''<[<=]'' ''<A*>'' = None" by code_simp+
  have "CloseExpression (CleansedLines ?a) 0 18 = Inr (''  p = &static_cast<A*>'', 0, 22)"
    using ea f by (simp add: CloseExpression_def py_index_def)
  moreover have "length (m_grp m 1) = 18" unfolding m(2) by simp
  ultimately have "cast_ends_line (CleansedLines ?a) 0" using m(1) ea by (simp add: cast_ends_line_def)
  moreover have "Search ADDRESS_OF_CAST ''  p = &static_cast<A*>'' \<noteq> None" "Search FUNCTION_CAST ''  p = &static_cast<A*>'' = None"
    by code_simp+
  ultimately have a: "CheckCasts Error ''a.cc'' (CleansedLines ?a) 0 (lint_init CppLintState_init) = Inl IndexError"
    using cast_at_end_of_line_raises [of 0 ?a "lint_init CppLintState_init" "''a.cc''"] i ea by (simp add: array_behind_type_def)
  have "case Search FUNCTION_CAST ''  f(int(x)[0], &static_cast<A*>'' of
      Some m \<Rightarrow> Match (raw ''`([^()]+`)`s*`['') (m_grp m 3) \<noteq> None | None \<Rightarrow> False"
    "Match (raw ''^`s*MOCK_(CONST_)?METHOD`d+(_T)?`('') ''  f(int(x)[0], &static_cast<A*>'' = None" by code_simp+
  then have "array_behind_type (CleansedLines ?b) 0"
    using eb by (simp add: array_behind_type_def ExpectingFunctionArgs_def py_index_def)
  then have "\<exists>st'. CheckCasts Error ''a.cc'' (CleansedLines ?b) 0 (lint_init CppLintState_init) = Inr st'"
    using cast_at_end_of_line_raises [of 0 ?b "lint_init CppLintState_init" "''a.cc''"] i by auto
  with a show ?thesis by blast
qed

text \<open>C22. \<open>_GetTextInside\<close> with a pattern that ends in an opening bracket: it returns the text between that bracket
  and the first bracket that closes it over a balanced text, and None exactly when there is no such text.\<close>

theorem text_inside_balanced:
  assumes "re_search r text = Some m" "final_char r c" "c \<in> {CHR ''('', CHR ''['', CHR ''{''}"
  shows "\<exists>inside. GetTextInside text r = Inr inside \<and>
    (\<forall>w. inside = Some w \<longleftrightarrow> (\<exists>b. prefix (w @ [b]) (drop (m_end m) text) \<and> balanced w \<and> closes c b))"
proof -
  let ?t = "drop (m_end m) text"
  have c: "opener c" using assms(3) by (auto simp: opener_def)
  have sc: "scan ?t [c] = Closed k \<longleftrightarrow> (\<exists>w b. k = length w + 1 \<and> prefix (w @ [b]) ?t \<and> balanced w \<and> closes c b)" for k
    using scan_iff [OF c, of ?t "k + 1"] c by (cases "scan ?t [c]") auto
  have "(case scan ?t [c] of Closed k \<Rightarrow> Some (take (k - 1) ?t) | _ \<Rightarrow> None) = Some w \<longleftrightarrow>
      (\<exists>b. prefix (w @ [b]) ?t \<and> balanced w \<and> closes c b)" for w
  proof
    assume "(case scan ?t [c] of Closed k \<Rightarrow> Some (take (k - 1) ?t) | _ \<Rightarrow> None) = Some w"
    then obtain k where "scan ?t [c] = Closed k" "w = take (k - 1) ?t" by (auto split: scan_result.splits)
    with sc [of k] show "\<exists>b. prefix (w @ [b]) ?t \<and> balanced w \<and> closes c b" by (auto simp: prefix_def)
  next
    assume "\<exists>b. prefix (w @ [b]) ?t \<and> balanced w \<and> closes c b"
    then obtain b where b: "prefix (w @ [b]) ?t" "balanced w" "closes c b" by blast
    with sc [of "length w + 1"] have "scan ?t [c] = Closed (length w + 1)" by blast
    with b(1) show "(case scan ?t [c] of Closed k \<Rightarrow> Some (take (k - 1) ?t) | _ \<Rightarrow> None) = Some w" by (auto simp: prefix_def)
  qed
  with GetTextInside_result [OF assms(1,2) c] show ?thesis by blast
qed

theorem text_inside_balanced_witness:
  "\<exists>inside. GetTextInside ''x = printf(a(b), c);'' PRINTF_CALL = Inr inside \<and>
    (\<forall>w. inside = Some w \<longleftrightarrow> (\<exists>b. prefix (w @ [b]) (drop 11 ''x = printf(a(b), c);'') \<and> balanced w \<and> closes CHR ''('' b))"
proof -
  have "case re_search PRINTF_CALL ''x = printf(a(b), c);'' of Some m \<Rightarrow> m_end m = 11 | None \<Rightarrow> False" by code_simp
  then obtain m where m: "re_search PRINTF_CALL ''x = printf(a(b), c);'' = Some m" "m_end m = 11" by (auto split: option.splits)
  have "final_char PRINTF_CALL CHR ''(''" by code_simp
  from text_inside_balanced [OF m(1) this] show ?thesis unfolding m(2) by simp
qed

end
