(* ===== verification/Class_Checks.thy ===== *)
theory Class_Checks
  imports Language_Checks
begin

text \<open>
  \<open>CheckForNonStandardConstructs\<close> of \<open>cpplint.py\<close>: constructs that are not standard C++, and
  constructors that can be called with one argument.  The collapsing of constructor
  arguments that were split at commas inside brackets reads beyond the list when
  brackets do not close, so it returns an exception then.
\<close>

section \<open>Non-standard constructs\<close>

definition UNDEFINED_ESCAPE :: string where
  \<open>UNDEFINED_ESCAPE = raw ''("|`'' @ [CHR 0x27] @ raw '').*``(%|`[|`(|{)''\<close>

definition STORAGE_CLASS :: string where
  "STORAGE_CLASS = raw ''`b(const|volatile|void|char|short|int|long'' @ ''|float|double|signed|unsigned'' @
     ''|schar|u?int8|u?int16|u?int32|u?int64)'' @ raw ''`s+(register|static|extern|typedef)`b''"

definition check_constructs :: "error_fn \<Rightarrow> string \<Rightarrow> nat \<Rightarrow> string \<Rightarrow> string \<Rightarrow> action" where
  \<open>check_constructs error filename linenum clean_line line =
     run [whenever (Search (raw ''printf`s*`(.*".*%[-+ ]?`d*q'') clean_line \<noteq> None)
            (error filename (Some (int linenum)) ''runtime/printf_format'' 3
              ''%q in format strings is deprecated.  Use %ll instead.''),
          whenever (Search (raw ''printf`s*`(.*".*%`d+`$'') clean_line \<noteq> None)
            (error filename (Some (int linenum)) ''runtime/printf_format'' 2
              ''%N$ formats are unconventional.  Try rewriting to avoid them.''),
          whenever (Search UNDEFINED_ESCAPE (str_replace clean_line [backslash, backslash] []) \<noteq> None)
            (error filename (Some (int linenum)) ''build/printf_format'' 3
              ''%, [, (, and { are undefined character escapes.  Unescape them.''),
          whenever (Search STORAGE_CLASS line \<noteq> None)
            (error filename (Some (int linenum)) ''build/storage_class'' 5
              (''Storage-class specifier (static, extern, typedef, etc) should be '' @ ''at the beginning of the declaration.'')),
          whenever (Match (raw ''`s*#`s*endif`s*[^/`s]+'') line \<noteq> None)
            (error filename (Some (int linenum)) ''build/endif_comment'' 5
              ''Uncommented text after #endif is non-standard.  Use a comment.''),
          whenever (Match (raw ''`s*class`s+(`w+`s*::`s*)+`w+`s*;'') line \<noteq> None)
            (error filename (Some (int linenum)) ''build/forward_decl'' 5
              ''Inner-style forward declarations are invalid.  Remove this line.''),
          whenever (Search (raw ''(`w+|[+-]?`d+(`.`d*)?)`s*(<|>)`?=?`s*(`w+|[+-]?`d+)(`.`d*)?'') line \<noteq> None)
            (error filename (Some (int linenum)) ''build/deprecated'' 3
              ''>? and <? (max and min) operators are non-standard and deprecated.''),
          whenever (Search (raw ''^`s*const`s*string`s*&`s*`w+`s*;'') line \<noteq> None)
            (error filename (Some (int linenum)) ''runtime/member_string_references'' 2
              (''const string& members are dangerous. It is much better to use '' @
               ''alternatives, such as pointers or simple constants.''))]\<close>

section \<open>Constructors\<close>

text \<open>\<open>s.split('::')[-1]\<close>: what stands behind the last separator, found from left to right.\<close>

function after_colons :: "string \<Rightarrow> string" where
  "after_colons s = (case find_nat ''::'' s of None \<Rightarrow> s | Some n \<Rightarrow> after_colons (drop (n + 2) s))"
  by pat_completeness auto
termination
  by (relation "measure length") (auto dest: find_nat_Some)

declare after_colons.simps [simp del]

definition more_opening :: "string \<Rightarrow> bool" where
  "more_opening arg =
     (str_count arg ''<'' > str_count arg ''>'' \<or> str_count arg ''('' > str_count arg '')'')"

text \<open>The inner loop: an argument with more opening than closing brackets takes over the next ones;
  \<open>constructor_args[i + 1]\<close> raises at the end of the list.\<close>

fun merge_arg :: "string \<Rightarrow> string list \<Rightarrow> (string \<times> string list) py" where
  "merge_arg arg [] = (if more_opening arg then Inl IndexError else Inr (arg, []))"
| "merge_arg arg (a # as) = (if more_opening arg then merge_arg (arg @ '','' @ a) as else Inr (arg, a # as))"

lemma merge_arg_length: "merge_arg arg args = Inr (b, rest) \<Longrightarrow> length rest \<le> length args"
  by (induction arg args rule: merge_arg.induct) (auto split: if_splits)

function collapse_args :: "string list \<Rightarrow> string list py" where
  "collapse_args [] = Inr []"
| "collapse_args (a # as) =
     (case merge_arg a as of
        Inl e \<Rightarrow> Inl e
      | Inr (b, rest) \<Rightarrow> py_bind (collapse_args rest) (\<lambda>bs. Inr (b # bs)))"
  by pat_completeness auto
termination
  by (relation "measure length") (auto dest: sym merge_arg_length intro: le_imp_less_Suc)

declare collapse_args.simps(2) [simp del]

definition CONSTRUCTOR :: "string \<Rightarrow> string" where
  "CONSTRUCTOR base_classname =
     raw ''`s+(?:(?:inline|constexpr)`s+)*(explicit`s+)?'' @ raw ''(?:(?:inline|constexpr)`s+)*'' @ re_escape base_classname @
     raw ''`s*'' @ raw ''`(((?:[^()]|`([^()]*`))*)`)''"

definition constructor_args :: "match_obj \<Rightarrow> string list py" where
  "constructor_args m = collapse_args (if m_grp m 2 = [] then [] else str_split (CHR '','') (m_grp m 2))"

definition variadic_args :: "string list \<Rightarrow> string list" where
  "variadic_args args = filter (\<lambda>arg. str_in ''&&...'' arg) args"

definition defaulted_args :: "string list \<Rightarrow> string list" where
  "defaulted_args args = filter (\<lambda>arg. str_in ''='' arg) args"

definition noarg_constructor :: "string list \<Rightarrow> bool" where
  "noarg_constructor args = (args = [] \<or> length args = 1 \<and> str_strip (hd args) = ''void'')"

definition onearg_constructor :: "string list \<Rightarrow> bool" where
  "onearg_constructor args =
     (length args = 1 \<and> \<not> noarg_constructor args \<or>
      length args \<ge> 1 \<and> \<not> noarg_constructor args \<and> int (length (defaulted_args args)) \<ge> int (length args) - 1 \<or>
      length args \<le> 2 \<and> length (variadic_args args) \<ge> 1)"

definition initializer_list_constructor :: "string list \<Rightarrow> bool" where
  "initializer_list_constructor args =
     (onearg_constructor args \<and> Search (raw ''`bstd`s*::`s*initializer_list`b'') (hd args) \<noteq> None)"

definition copy_constructor :: "string \<Rightarrow> string list \<Rightarrow> bool" where
  "copy_constructor base_classname args =
     (onearg_constructor args \<and>
      Match (raw ''(const`s+)?'' @ re_escape base_classname @ raw ''(`s*<[^>]*>)?(`s+const)?`s*(?:<`w+>`s*)?&'')
        (str_strip (hd args)) \<noteq> None)"

definition check_explicit :: "error_fn \<Rightarrow> string \<Rightarrow> nat \<Rightarrow> string \<Rightarrow> string \<Rightarrow> action" where
  "check_explicit error filename linenum base_classname line =
     (case Match (CONSTRUCTOR base_classname) line of
        None \<Rightarrow> Inr
      | Some m \<Rightarrow> (\<lambda>st.
          py_bind (constructor_args m) (\<lambda>args.
            let is_marked_explicit = (m_grp m 1 \<noteq> []); report = error filename (Some (int linenum)) ''runtime/explicit'' 5 in
            if \<not> is_marked_explicit \<and> onearg_constructor args \<and> \<not> initializer_list_constructor args \<and>
               \<not> copy_constructor base_classname args then
              (if defaulted_args args \<noteq> [] \<or> variadic_args args \<noteq> []
               then report (''Constructors callable with one argument '' @ ''should be marked explicit.'') st
               else report ''Single-parameter constructors should be marked explicit.'' st)
            else if is_marked_explicit \<and> \<not> onearg_constructor args then
              whenever (noarg_constructor args) (report ''Zero-parameter constructors should not be marked explicit.'') st
            else Inr st)))"

definition CheckForNonStandardConstructs :: "error_fn \<Rightarrow> string \<Rightarrow> cleansed_lines \<Rightarrow> nat \<Rightarrow> nesting_state \<Rightarrow> action" where
  "CheckForNonStandardConstructs error filename clean linenum ns =
     with_line (clean_lines clean) linenum (\<lambda>clean_line.
     with_line (elided clean) linenum (\<lambda>line.
       run [check_constructs error filename linenum clean_line line,
            (case InnermostClass ns of
               None \<Rightarrow> Inr
             | Some b \<Rightarrow>
                 (case kind b of
                    ClassInfo classinfo \<Rightarrow>
                      whenever (seen_open_brace b) (check_explicit error filename linenum (after_colons (name classinfo)) line)
                  | _ \<Rightarrow> Inr))]))"

section \<open>Collapsing arguments\<close>

lemma merge_arg_result:
  "(\<forall>b rest. merge_arg arg args = Inr (b, rest) \<longrightarrow>
      \<not> more_opening b \<and> str_join '','' (b # rest) = str_join '','' (arg # args)) \<and>
   (\<forall>e. merge_arg arg args = Inl e \<longrightarrow> e = IndexError \<and> more_opening (str_join '','' (arg # args)))"
proof (induction arg args rule: merge_arg.induct)
  case (2 arg a as)
  have j: "str_join '','' ((arg @ '','' @ a) # as) = str_join '','' (arg # a # as)" by (cases as) simp_all
  from 2 show ?case unfolding j by (cases "more_opening arg") simp_all
qed auto

lemma merge_arg_suffix: "merge_arg arg args = Inr (b, rest) \<Longrightarrow> suffix rest args"
  by (induction arg args rule: merge_arg.induct) (auto split: if_splits intro: suffix_ConsI)

lemma str_join_Cons: "str_join sep (w # ws) = w @ (if ws = [] then [] else sep @ str_join sep ws)"
  by (cases ws) simp_all

lemma collapse_args_keeps:
  "collapse_args args = Inr bs \<Longrightarrow> str_join '','' bs = str_join '','' args \<and> list_all (\<lambda>b. \<not> more_opening b) bs"
proof (induction args arbitrary: bs rule: collapse_args.induct)
  case (2 a as)
  then obtain b rest cs where m: "merge_arg a as = Inr (b, rest)" "collapse_args rest = Inr cs" "bs = b # cs"
    by (auto simp: collapse_args.simps py_bind_Inr_iff split: sum.splits)
  from "2.IH" [OF m(1) refl m(2)] have ih: "str_join '','' cs = str_join '','' rest" "list_all (\<lambda>b. \<not> more_opening b) cs" by auto
  have "cs = [] \<longleftrightarrow> rest = []" using m(2) by (cases rest) (auto simp: collapse_args.simps py_bind_Inr_iff split: sum.splits)
  with ih m merge_arg_result [of a as] show ?case by (auto simp: str_join_Cons split: if_splits)
qed simp

lemma collapse_args_raises:
  "collapse_args args = Inl e \<Longrightarrow> e = IndexError \<and> (\<exists>n < length args. more_opening (str_join '','' (drop n args)))"
proof (induction args rule: collapse_args.induct)
  case (2 a as)
  show ?case
  proof (cases "merge_arg a as")
    case (Inl x)
    with "2.prems" merge_arg_result [of a as] show ?thesis by (auto simp: collapse_args.simps intro!: exI [of _ 0])
  next
    case (Inr q)
    then obtain b rest where m: "merge_arg a as = Inr (b, rest)" by (cases q) simp
    with "2.prems" have "collapse_args rest = Inl e" by (cases "collapse_args rest") (auto simp: collapse_args.simps)
    from "2.IH" [OF m refl this] obtain n where n: "e = IndexError" "n < length rest" "more_opening (str_join '','' (drop n rest))" by blast
    from merge_arg_suffix [OF m] obtain ys where "as = ys @ rest" by (auto simp: suffix_def)
    with n show ?thesis by (intro conjI exI [of _ "Suc (length ys + n)"]) simp_all
  qed
qed simp

text \<open>The converse, for the last argument: one with more opening brackets has nothing to take over.\<close>

lemma collapse_args_last:
  "more_opening arg \<Longrightarrow> list_all (\<lambda>a. \<not> more_opening a) args \<Longrightarrow> collapse_args (args @ [arg]) = Inl IndexError"
proof (induction args)
  case (Cons a args)
  then show ?case by (cases args) (simp_all add: collapse_args.simps)
qed (simp add: collapse_args.simps)

section \<open>Safety\<close>

text \<open>The arguments of the constructor on this line do not collapse.\<close>

definition constructor_stuck :: "cleansed_lines \<Rightarrow> nat \<Rightarrow> nesting_state \<Rightarrow> bool" where
  "constructor_stuck clean linenum ns =
     (case InnermostClass ns of
        None \<Rightarrow> False
      | Some b \<Rightarrow>
          (case kind b of
             ClassInfo classinfo \<Rightarrow>
               seen_open_brace b \<and>
               (case Match (CONSTRUCTOR (after_colons (name classinfo))) (elided clean ! linenum) of
                  None \<Rightarrow> False
                | Some m \<Rightarrow> constructor_args m = Inl IndexError)
           | _ \<Rightarrow> False))"

lemma constructor_args_result: "constructor_args m = Inl e \<Longrightarrow> e = IndexError"
  unfolding constructor_args_def using collapse_args_raises by blast

context reporter
begin

lemma construct_report_safe:
  "category \<in> {''runtime/printf_format'', ''build/printf_format'', ''build/storage_class'', ''build/endif_comment'',
     ''build/forward_decl'', ''build/deprecated'', ''runtime/member_string_references'', ''runtime/explicit''} \<Longrightarrow>
   0 \<le> confidence \<Longrightarrow> confidence \<le> 5 \<Longrightarrow> safe Inv (error filename linenum category confidence message)"
  by (rule report_safe) (auto simp: ERROR_CATEGORIES_def)

lemma check_constructs_safe: "safe Inv (check_constructs error filename linenum clean_line line)"
  unfolding check_constructs_def by (intro safe_flow construct_report_safe) simp_all

lemma check_explicit_safe:
  assumes "\<And>m. Match (CONSTRUCTOR base_classname) line = Some m \<Longrightarrow> constructor_args m \<noteq> Inl IndexError"
  shows "safe Inv (check_explicit error filename linenum base_classname line)"
proof -
  have "\<exists>args. constructor_args m = Inr args" if "Match (CONSTRUCTOR base_classname) line = Some m" for m
    using assms [OF that] constructor_args_result [of m] by (cases "constructor_args m") auto
  then show ?thesis
    unfolding check_explicit_def Let_def
    by (intro safe_flow safe_value safe_return safe_return' construct_report_safe) simp_all
qed

lemma CheckForNonStandardConstructs_safe:
  assumes "linenum < length (clean_lines clean)" "linenum < length (elided clean)" "\<not> constructor_stuck clean linenum ns"
  shows "safe Inv (CheckForNonStandardConstructs error filename clean linenum ns)"
proof -
  have x: "safe Inv (check_explicit error filename linenum (after_colons (name classinfo)) (elided clean ! linenum))"
    if "InnermostClass ns = Some b" "kind b = ClassInfo classinfo" "seen_open_brace b" for b classinfo
    using that assms(3) by (intro check_explicit_safe) (auto simp: constructor_stuck_def)
  have "safe Inv (case kind b of ClassInfo classinfo \<Rightarrow>
      whenever (seen_open_brace b) (check_explicit error filename linenum (after_colons (name classinfo)) (elided clean ! linenum)) | _ \<Rightarrow> Inr)"
    if "InnermostClass ns = Some b" for b
    using x [OF that] by (auto simp: safe_return intro!: whenever_safe split: block_kind.split)
  then show ?thesis
    unfolding CheckForNonStandardConstructs_def
    by (intro with_line_safe assms safe_flow safe_return check_constructs_safe) simp_all
qed

lemma CheckForNonStandardConstructs_raises:
  assumes "linenum < length (clean_lines clean)" "linenum < length (elided clean)" "constructor_stuck clean linenum ns" "Inv st"
  shows "CheckForNonStandardConstructs error filename clean linenum ns st = Inl IndexError"
proof -
  from assms(3) obtain b classinfo m where c: "InnermostClass ns = Some b" "kind b = ClassInfo classinfo" "seen_open_brace b"
    "Match (CONSTRUCTOR (after_colons (name classinfo))) (elided clean ! linenum) = Some m" "constructor_args m = Inl IndexError"
    by (auto simp: constructor_stuck_def split: option.splits block_kind.splits)
  from safeD [OF check_constructs_safe assms(4)] obtain st' where
    "check_constructs error filename linenum (clean_lines clean ! linenum) (elided clean ! linenum) st = Inr st'" by blast
  with c assms(1,2) show ?thesis
    by (simp add: CheckForNonStandardConstructs_def with_line_def check_explicit_def whenever_def)
qed

lemma CheckForNonStandardConstructs_unless:
  assumes "linenum < length (clean_lines clean)" "linenum < length (elided clean)"
  shows "safe_unless (constructor_stuck clean linenum ns) Inv (CheckForNonStandardConstructs error filename clean linenum ns)"
  by (rule safe_unless_split)
    (use CheckForNonStandardConstructs_safe [OF assms] CheckForNonStandardConstructs_raises [OF assms] in \<open>auto simp: safe_unless_def\<close>)


end

section \<open>Properties\<close>

text \<open>C23. Collapsing constructor arguments: when it returns, no text is lost (the new arguments, joined by
  commas, are the old ones) and no argument has more opening than closing brackets; it raises
  only IndexError, and only when the arguments from some point on have more opening
  than closing brackets; it does raise when the last argument has and no other one.\<close>

theorem constructor_args_collapsed:
  "(case collapse_args args of
      Inr bs \<Rightarrow> str_join '','' bs = str_join '','' args \<and> list_all (\<lambda>b. \<not> more_opening b) bs
    | Inl e \<Rightarrow> e = IndexError \<and> (\<exists>n < length args. more_opening (str_join '','' (drop n args)))) \<and>
   (args \<noteq> [] \<and> more_opening (last args) \<and> list_all (\<lambda>b. \<not> more_opening b) (butlast args) \<longrightarrow>
    collapse_args args = Inl IndexError)"
proof -
  have "collapse_args args = Inl IndexError" if "args \<noteq> []" "more_opening (last args)" "list_all (\<lambda>b. \<not> more_opening b) (butlast args)"
    using collapse_args_last [OF that(2,3)] that(1) by simp
  then show ?thesis using collapse_args_keeps [of args] collapse_args_raises [of args] by (auto split: sum.split)
qed

theorem constructor_args_collapsed_witness:
  "collapse_args [''int a'', '' int b = 1 << 3''] = Inl IndexError"
proof -
  have "more_opening '' int b = 1 << 3''" "\<not> more_opening ''int a''" by code_simp+
  with constructor_args_collapsed [of "[''int a'', '' int b = 1 << 3'']"] show ?thesis by simp
qed

text \<open>\<open>CheckForNonStandardConstructs\<close> on a line of a file returns and leaves the error state consistent,
  unless the line declares a constructor of the innermost class whose arguments do not collapse, as
  with a default value that shifts or compares: then it raises IndexError, and the linter stops.\<close>

theorem constructor_check_outcome:
  assumes "linenum < length lines" "lint_inv st"
  shows "if constructor_stuck (CleansedLines lines) linenum ns
    then CheckForNonStandardConstructs Error filename (CleansedLines lines) linenum ns st = Inl IndexError
    else \<exists>st'. CheckForNonStandardConstructs Error filename (CleansedLines lines) linenum ns st = Inr st' \<and> lint_inv st'"
  using Err.CheckForNonStandardConstructs_raises [OF _ _ _ assms(2), of linenum "CleansedLines lines" ns filename]
    safeD [OF Err.CheckForNonStandardConstructs_safe assms(2), of linenum "CleansedLines lines" ns filename] assms(1)
  by auto

theorem constructor_check_outcome_witness:
  "CheckForNonStandardConstructs Error ''a.h'' (CleansedLines [''  explicit Foo(int x = 1 << 3);'']) 0
     (NestingState_init\<lparr>stack := [(BlockInfo_init 0 True)\<lparr>kind := ClassInfo \<lparr>name = ''ns::Foo'', is_derived = False,
        access = ''private'', is_struct = False, class_indent = 0, last_line = 0\<rparr>\<rparr>]\<rparr>) (lint_init CppLintState_init) = Inl IndexError"
proof -
  let ?l = "''  explicit Foo(int x = 1 << 3);''"
  let ?ns = "NestingState_init\<lparr>stack := [(BlockInfo_init 0 True)\<lparr>kind := ClassInfo \<lparr>name = ''ns::Foo'', is_derived = False,
        access = ''private'', is_struct = False, class_indent = 0, last_line = 0\<rparr>\<rparr>]\<rparr>"
  have p: "list_all plain_line [?l]" by code_simp
  have "case Match (CONSTRUCTOR (after_colons ''ns::Foo'')) ?l of Some m \<Rightarrow> constructor_args m = Inl IndexError | None \<Rightarrow> False"
    by code_simp
  then have "constructor_stuck (CleansedLines [?l]) 0 ?ns"
    using CleansedLines_plain [OF p] by (auto simp: constructor_stuck_def InnermostClass_def is_class_def BlockInfo_init_def split: option.splits)
  moreover have "lint_inv (lint_init CppLintState_init)" by code_simp
  ultimately show ?thesis using constructor_check_outcome [of 0 "[?l]" "lint_init CppLintState_init" ?ns "''a.h''"] by simp
qed

end
