(* ===== verification/Include_Use.thy ===== *)
theory Include_Use
  imports Class_Checks
begin

text \<open>
  Include what you use (\<open>CheckForIncludeWhatYouUse\<close> of \<open>cpplint.py\<close>): the headers that the
  names used in a file require, the headers that the file and its own header include, and the
  report of what is missing.  A dictionary is an association list in the order of insertion.
\<close>

section \<open>Headers and the names they declare\<close>

definition HEADERS_CONTAINING_TEMPLATES :: "(string \<times> string list) list" where
  "HEADERS_CONTAINING_TEMPLATES = [
     (''<deque>'', [''deque'']),
     (''<functional>'', [''unary_function'', ''binary_function'', ''plus'', ''minus'', ''multiplies'', ''divides'', ''modulus'',
        ''negate'', ''equal_to'', ''not_equal_to'', ''greater'', ''less'', ''greater_equal'', ''less_equal'',
        ''logical_and'', ''logical_or'', ''logical_not'', ''unary_negate'', ''not1'', ''binary_negate'', ''not2'',
        ''bind1st'', ''bind2nd'', ''pointer_to_unary_function'', ''pointer_to_binary_function'', ''ptr_fun'',
        ''mem_fun_t'', ''mem_fun'', ''mem_fun1_t'', ''mem_fun1_ref_t'', ''mem_fun_ref_t'', ''const_mem_fun_t'',
        ''const_mem_fun1_t'', ''const_mem_fun_ref_t'', ''const_mem_fun1_ref_t'', ''mem_fun_ref'']),
     (''<limits>'', [''numeric_limits'']),
     (''<list>'', [''list'']),
     (''<map>'', [''multimap'']),
     (''<memory>'', [''allocator'', ''make_shared'', ''make_unique'', ''shared_ptr'', ''unique_ptr'', ''weak_ptr'']),
     (''<queue>'', [''queue'', ''priority_queue'']),
     (''<set>'', [''multiset'']),
     (''<stack>'', [''stack'']),
     (''<string>'', [''char_traits'', ''basic_string'']),
     (''<tuple>'', [''tuple'']),
     (''<unordered_map>'', [''unordered_map'', ''unordered_multimap'']),
     (''<unordered_set>'', [''unordered_set'', ''unordered_multiset'']),
     (''<utility>'', [''pair'']),
     (''<vector>'', [''vector'']),
     (''<hash_map>'', [''hash_map'', ''hash_multimap'']),
     (''<hash_set>'', [''hash_set'', ''hash_multiset'']),
     (''<slist>'', [''slist''])]"

definition HEADERS_MAYBE_TEMPLATES :: "(string \<times> string list) list" where
  "HEADERS_MAYBE_TEMPLATES = [
     (''<algorithm>'', [''copy'', ''max'', ''min'', ''min_element'', ''sort'', ''transform'']),
     (''<utility>'', [''forward'', ''make_pair'', ''move'', ''swap''])]"

definition RE_PATTERN_STRING :: string where
  "RE_PATTERN_STRING = raw ''`bstring`b''"

text \<open>Pattern, name and header.\<close>

definition re_pattern_headers_maybe_templates :: "(string \<times> string \<times> string) list" where
  "re_pattern_headers_maybe_templates =
     concat (map (\<lambda>(header, templates).
       map (\<lambda>template. (raw ''[^>.]`b'' @ template @ raw ''(<.*?>)?`([^`)]'', template, header)) templates) HEADERS_MAYBE_TEMPLATES) @
     [(raw ''[^>.]`bset`s*`<'', ''set<>'', ''<set>''),
      (raw ''(std`b::`bmap`s*`<)|(^(std`b::`b)map`b`(`s*`<)'', ''map<>'', ''<map>'')]"

definition re_pattern_templates :: "(string \<times> string \<times> string) list" where
  "re_pattern_templates =
     concat (map (\<lambda>(header, templates).
       map (\<lambda>template. (raw ''(`<|`b)'' @ template @ raw ''`s*`<'', template @ ''<>'', header)) templates)
       HEADERS_CONTAINING_TEMPLATES)"

section \<open>What a file requires\<close>

text \<open>The name is one of the standard library: not qualified, or by \<open>std\<close>.\<close>

definition standard_use :: "string \<Rightarrow> string \<Rightarrow> bool" where
  "standard_use pattern line =
     (case re_search (re_const pattern) line of
        None \<Rightarrow> False
      | Some matched \<Rightarrow>
          (let pre = take (m_start matched) line in endswith pre ''std::'' \<or> \<not> endswith pre ''::''))"

text \<open>The assignments to \<open>required\<close> that a line causes, in their order.\<close>

definition line_requires :: "nat \<Rightarrow> string \<Rightarrow> (string \<times> nat \<times> string) list" where
  "line_requires linenum line =
     (if line = [] \<or> hd line = CHR ''#'' then []
      else
        (if standard_use RE_PATTERN_STRING line then [(''<string>'', linenum, ''string'')] else []) @
        map (\<lambda>(pattern, template, header). (header, linenum, template))
          (filter (\<lambda>(pattern, template, header). re_search (re_const pattern) line \<noteq> None) re_pattern_headers_maybe_templates) @
        (if \<not> str_in ''<'' line then []
         else map (\<lambda>(pattern, template, header). (header, linenum, template))
                (filter (\<lambda>(pattern, template, header). standard_use pattern line) re_pattern_templates)))"

definition required_headers :: "string list \<Rightarrow> (string \<times> nat \<times> string) list" where
  "required_headers ls =
     fold (\<lambda>(header, use) required. AList.update header use required)
       (concat (map (\<lambda>(linenum, line). line_requires linenum line) (List.enumerate 0 ls))) []"

section \<open>What a file includes\<close>

text \<open>The lines of a text file, None when it cannot be opened.\<close>

type_synonym reader = "string \<Rightarrow> string list option"

type_synonym include_dict = "(string \<times> int) list"

definition record_includes :: "string list \<Rightarrow> include_dict \<Rightarrow> include_dict" where
  "record_includes ls include_dict =
     fold (\<lambda>(linenum, line) d.
       case re_search (re_const RE_PATTERN_INCLUDE) (CleanseComments line) of
         None \<Rightarrow> d
       | Some m \<Rightarrow> if map_of d (m_grp m 2) = None then AList.update (m_grp m 2) (int linenum) d else d)
     (List.enumerate 1 ls) include_dict"

definition UpdateIncludeState :: "reader \<Rightarrow> string \<Rightarrow> include_dict \<Rightarrow> bool \<times> include_dict" where
  "UpdateIncludeState io filename include_dict =
     (case io filename of
        None \<Rightarrow> (False, include_dict)
      | Some ls \<Rightarrow> (True, record_includes ls include_dict))"

text \<open>The loop over the headers of the file itself: the includes of those that belong to the same module are
  added.\<close>

fun add_module_includes :: "os_env \<Rightarrow> reader \<Rightarrow> lint \<Rightarrow> string \<Rightarrow> string list \<Rightarrow> bool \<times> include_dict \<Rightarrow>
    (bool \<times> include_dict) py" where
  "add_module_includes env io st abs_filename [] r = Inr r"
| "add_module_includes env io st abs_filename (header # headers) (header_found, include_dict) =
     py_bind (FilesBelongToSameModule env st abs_filename header) (\<lambda>(same_module, common_path).
       if same_module then
         (let (loaded, include_dict) = UpdateIncludeState io (common_path @ header) include_dict
          in add_module_includes env io st abs_filename headers (header_found \<or> loaded, include_dict))
       else add_module_includes env io st abs_filename headers (header_found, include_dict))"

section \<open>What is missing\<close>

text \<open>The required headers that are not included, in the order of line and name.\<close>

definition missing_headers :: "(string \<times> nat \<times> string) list \<Rightarrow> include_dict \<Rightarrow> (string \<times> nat \<times> string) list" where
  \<open>missing_headers required include_dict =
     filter (\<lambda>(header, use). map_of include_dict (str_strip_chars header ''<>"'') = None)
       (sort_key (\<lambda>(header, linenum, template). linenum) (sort_key (\<lambda>(header, linenum, template). template) required))\<close>

definition CheckForIncludeWhatYouUse :: "os_env \<Rightarrow> reader \<Rightarrow> error_fn \<Rightarrow> string \<Rightarrow> cleansed_lines \<Rightarrow> include_state \<Rightarrow> action" where
  "CheckForIncludeWhatYouUse env io error filename clean ist st =
     (let required = required_headers (elided clean);
          include_dict = fold (\<lambda>(header, linenum) d. AList.update header linenum d) (concat (include_list ist)) [];
          abs_filename = re_sub (re_const (raw ''_flymake`.cc$'')) ''.cc'' (FullName env filename)
      in py_bind (add_module_includes env io st abs_filename (map fst include_dict) (False, include_dict))
           (\<lambda>(header_found, include_dict).
             if \<not> header_found \<and> list_ex (\<lambda>extension. endswith filename (''.'' @ extension)) (GetNonHeaderExtensions st)
             then Inr st
             else for_each (missing_headers required include_dict) (\<lambda>(header, linenum, template).
                    error filename (Some (int linenum)) ''build/include_what_you_use'' 4
                      (''Add #include '' @ header @ '' for '' @ template)) st))"

section \<open>Lemmas\<close>

lemma map_of_fold_update:
  "map_of (fold (\<lambda>(k, v) d. AList.update k v d) xs d) = map_of d ++ map_of (rev xs)"
  by (induction xs arbitrary: d) (auto simp: update_conv' split: prod.split)

lemma distinct_fold_update:
  "distinct (map fst d) \<Longrightarrow> distinct (map fst (fold (\<lambda>(k, v) d. AList.update k v d) xs d))"
  by (induction xs arbitrary: d) (auto simp: distinct_update)

lemma line_requires_num: "(h, n, t) \<in> set (line_requires i l) \<Longrightarrow> n = i"
  by (auto simp: line_requires_def split: if_splits)

lemma templates_need_angle: "list_all (\<lambda>(pattern, template, header). needs (re_const pattern) ''<'') re_pattern_templates"
  by code_simp

lemma standard_use_angle:
  "\<not> str_in ''<'' line \<Longrightarrow> (pattern, template, header) \<in> set re_pattern_templates \<Longrightarrow> \<not> standard_use pattern line"
  using templates_need_angle re_search_needs [of "re_const pattern" "''<''" line]
  by (auto simp: list_all_iff standard_use_def str_in_sublist)

text \<open>All assignments of a file, line by line.\<close>

definition file_requires :: "nat \<Rightarrow> string list \<Rightarrow> (string \<times> nat \<times> string) list" where
  "file_requires k ls = concat (map (\<lambda>(linenum, line). line_requires linenum line) (List.enumerate k ls))"

lemma file_requires_Cons: "file_requires k (l # ls) = line_requires k l @ file_requires (Suc k) ls"
  by (simp add: file_requires_def)

lemma file_requires_mem:
  "(h, n, t) \<in> set (file_requires k ls) \<longleftrightarrow> k \<le> n \<and> n < k + length ls \<and> (h, n, t) \<in> set (line_requires n (ls ! (n - k)))"
proof (induction ls arbitrary: k)
  case Nil
  then show ?case by (simp add: file_requires_def)
next
  case (Cons l ls)
  show ?case
    unfolding file_requires_Cons set_append Un_iff Cons.IH
    by (cases "n = k") (auto dest: line_requires_num simp: nth_Cons' Suc_diff_Suc)
qed

lemma file_requires_sorted: "sorted (map (\<lambda>(h, n, t). n) (file_requires k ls))"
proof (induction ls arbitrary: k)
  case Nil
  then show ?case by (simp add: file_requires_def)
next
  case (Cons l ls)
  have "sorted (map (\<lambda>(h, n, t). n) (line_requires k l))"
  proof -
    have "map (\<lambda>(h, n, t). n) (line_requires k l) = replicate (length (line_requires k l)) k"
      by (rule replicate_eqI) (auto dest: line_requires_num)
    then show ?thesis by (simp add: sorted_replicate)
  qed
  with Cons show ?case
    by (auto simp: file_requires_Cons sorted_append file_requires_mem dest: line_requires_num)
qed

lemma map_of_rev_last: "map_of (rev xs) k = Some v \<Longrightarrow> \<exists>ys zs. xs = ys @ (k, v) # zs \<and> k \<notin> fst ` set zs"
proof (induction xs rule: rev_induct)
  case (snoc x xs)
  show ?case
  proof (cases "fst x = k")
    case True
    with snoc.prems show ?thesis by (intro exI [of _ xs] exI [of _ "[]"]) (cases x, simp)
  next
    case False
    with snoc.prems have "map_of (rev xs) k = Some v" by (cases x) simp
    from snoc.IH [OF this] obtain ys zs where "xs = ys @ (k, v) # zs" "k \<notin> fst ` set zs" by blast
    with False show ?thesis by (intro exI [of _ ys] exI [of _ "zs @ [x]"]) simp
  qed
qed simp

lemma required_headers_map: "map_of (required_headers ls) = map_of (rev (file_requires 0 ls))"
  by (simp add: required_headers_def file_requires_def map_of_fold_update)

lemma required_last:
  assumes "map_of (required_headers ls) h = Some (n, t)"
  shows "n < length ls" "(h, n, t) \<in> set (line_requires n (ls ! n))"
    "\<And>m t'. n < m \<Longrightarrow> m < length ls \<Longrightarrow> (h, m, t') \<notin> set (line_requires m (ls ! m))"
proof -
  from assms map_of_rev_last obtain ys zs where x: "file_requires 0 ls = ys @ (h, n, t) # zs" "h \<notin> fst ` set zs"
    unfolding required_headers_map by fastforce
  then have "(h, n, t) \<in> set (file_requires 0 ls)" by simp
  then show "n < length ls" "(h, n, t) \<in> set (line_requires n (ls ! n))" by (simp_all add: file_requires_mem)
  fix m t' assume m: "n < m" "m < length ls"
  show "(h, m, t') \<notin> set (line_requires m (ls ! m))"
  proof
    assume "(h, m, t') \<in> set (line_requires m (ls ! m))"
    with m have "(h, m, t') \<in> set (file_requires 0 ls)" by (simp add: file_requires_mem)
    with x have "(h, m, t') \<in> set ys" using m(1) by force
    with file_requires_sorted [of 0 ls] m(1) show False unfolding x(1) by (fastforce simp: sorted_append)
  qed
qed

section \<open>Safety\<close>

context naming_reporter
begin

lemma FilesBelongToSameModule_returns: "Inv st \<Longrightarrow> \<exists>r. FilesBelongToSameModule env st f h = Inr r"
proof -
  assume st: "Inv st"
  from Extension_named [OF st] obtain e where e: "Extension env st f = Inr e" by blast
  from Extension_named [OF st] obtain e' where e': "Extension env st h = Inr e'" by blast
  from BaseName_named [OF st] obtain b where b: "BaseName env st f = Inr b" by blast
  show ?thesis unfolding FilesBelongToSameModule_def e e' b py_bind.simps Let_def by (simp del: split_paired_Ex)
qed

lemma add_module_includes_returns:
  "Inv st \<Longrightarrow> \<exists>r. add_module_includes env io st abs_filename headers r0 = Inr r"
proof (induction headers arbitrary: r0)
  case (Cons h hs)
  from FilesBelongToSameModule_returns [OF Cons.prems] obtain b p where "FilesBelongToSameModule env st abs_filename h = Inr (b, p)" by fastforce
  with Cons show ?case by (cases r0) (auto split: prod.split simp del: split_paired_Ex)
qed simp

lemma CheckForIncludeWhatYouUse_safe: "safe Inv (CheckForIncludeWhatYouUse env io error filename clean ist)"
proof (rule safeI)
  fix st assume st: "Inv st"
  have r: "safe Inv (for_each xs (\<lambda>(header, linenum, template). error filename (Some (int linenum)) ''build/include_what_you_use'' 4
      (''Add #include '' @ header @ '' for '' @ template)))" for xs
    by (intro for_each_safe) (auto intro!: report_safe simp: ERROR_CATEGORIES_def)
  let ?headers = "fold (\<lambda>(header, linenum) d. AList.update header linenum d) (concat (include_list ist)) []"
  from add_module_includes_returns [OF st] obtain found d where
    "add_module_includes env io st (re_sub (re_const (raw ''_flymake`.cc$'')) ''.cc'' (FullName env filename))
       (map fst ?headers) (False, ?headers) = Inr (found, d)"
    by (metis surj_pair)
  with safeD [OF r st] st
  show "\<exists>st'. CheckForIncludeWhatYouUse env io error filename clean ist st = Inr st' \<and> Inv st'"
    unfolding CheckForIncludeWhatYouUse_def Let_def by simp
qed

end

section \<open>Properties\<close>

lemma missing_headers_mem:
  "(h, n, t) \<in> set (missing_headers required d) \<longleftrightarrow>
     (h, n, t) \<in> set required \<and> map_of d (str_strip_chars h [CHR ''<'', CHR ''>'', CHR 0x22]) = None"
  by (simp add: missing_headers_def)

lemma missing_headers_sorted: "sorted (map (\<lambda>(h, n, t). n) (missing_headers required d))"
  unfolding missing_headers_def by (rule sorted_filter) (rule sorted_sort_key)

lemma required_headers_mem: "(h, n, t) \<in> set (required_headers ls) \<longleftrightarrow> map_of (required_headers ls) h = Some (n, t)"
  by (simp add: required_headers_def distinct_fold_update)

lemma required_headers_dom:
  "(\<exists>n t. (h, n, t) \<in> set (required_headers ls)) \<longleftrightarrow> (\<exists>n t. n < length ls \<and> (h, n, t) \<in> set (line_requires n (ls ! n)))"
proof -
  have "(\<exists>n t. (h, n, t) \<in> set (required_headers ls)) \<longleftrightarrow> h \<in> dom (map_of (rev (file_requires 0 ls)))"
    unfolding required_headers_mem required_headers_map by auto
  also have "\<dots> \<longleftrightarrow> (\<exists>n t. (h, n, t) \<in> set (file_requires 0 ls))"
    unfolding dom_map_of_conv_image_fst by force
  finally show ?thesis by (simp add: file_requires_mem)
qed

text \<open>C10. Each header that is reported as missing is required by a line of the file that uses a name of the header, the
  last such line, which the report names, and is not included; each required header
  that is not included is reported, and the reports are in the order of the lines.\<close>

theorem missing_headers_exact:
  "list_all (\<lambda>(header, linenum, template).
       linenum < length ls \<and> (header, linenum, template) \<in> set (line_requires linenum (ls ! linenum)) \<and>
       (\<forall>m t. linenum < m \<and> m < length ls \<longrightarrow> (header, m, t) \<notin> set (line_requires m (ls ! m))))
     (missing_headers (required_headers ls) include_dict) \<and>
   fst ` set (missing_headers (required_headers ls) include_dict) =
     {header. (\<exists>n t. n < length ls \<and> (header, n, t) \<in> set (line_requires n (ls ! n))) \<and>
              str_strip_chars header [CHR ''<'', CHR ''>'', CHR 0x22] \<notin> fst ` set include_dict} \<and>
   sorted (map (\<lambda>(h, n, t). n) (missing_headers (required_headers ls) include_dict))"
proof (intro conjI)
  show "list_all (\<lambda>(header, linenum, template).
       linenum < length ls \<and> (header, linenum, template) \<in> set (line_requires linenum (ls ! linenum)) \<and>
       (\<forall>m t. linenum < m \<and> m < length ls \<longrightarrow> (header, m, t) \<notin> set (line_requires m (ls ! m))))
     (missing_headers (required_headers ls) include_dict)"
    unfolding list_all_iff by (auto simp: missing_headers_mem required_headers_mem dest: required_last)
  show "fst ` set (missing_headers (required_headers ls) include_dict) =
     {header. (\<exists>n t. n < length ls \<and> (header, n, t) \<in> set (line_requires n (ls ! n))) \<and>
              str_strip_chars header [CHR ''<'', CHR ''>'', CHR 0x22] \<notin> fst ` set include_dict}"
    unfolding required_headers_dom [symmetric] set_eq_iff image_iff mem_Collect_eq
    by (simp add: missing_headers_mem map_of_eq_None_iff image_iff Bex_def)
qed (rule missing_headers_sorted)

theorem missing_headers_exact_witness:
  "missing_headers (required_headers [''string a;'', ''#'', ''string b;'']) [] = [(''<string>'', 2, ''string'')] \<and>
   (''<string>'', 2, ''string'') \<in> set (line_requires 2 ''string b;'')"
proof -
  have m: "missing_headers (required_headers [''string a;'', ''#'', ''string b;'']) [] = [(''<string>'', 2, ''string'')]"
    by code_simp
  with missing_headers_exact [of "[''string a;'', ''#'', ''string b;'']" "[]"]
  show ?thesis by simp
qed

text \<open>C29. The test for an angle bracket is what the comment claims, a speed-up: the assignments of a line are the same without it.\<close>

theorem angle_test_is_speedup:
  "line_requires linenum line =
     (if line = [] \<or> hd line = CHR ''#'' then []
      else
        (if standard_use RE_PATTERN_STRING line then [(''<string>'', linenum, ''string'')] else []) @
        map (\<lambda>(pattern, template, header). (header, linenum, template))
          (filter (\<lambda>(pattern, template, header). re_search (re_const pattern) line \<noteq> None) re_pattern_headers_maybe_templates) @
        map (\<lambda>(pattern, template, header). (header, linenum, template))
          (filter (\<lambda>(pattern, template, header). standard_use pattern line) re_pattern_templates))"
proof (cases "str_in ''<'' line")
  case False
  then have "filter (\<lambda>(pattern, template, header). standard_use pattern line) re_pattern_templates = []"
    by (auto simp: filter_empty_conv dest: standard_use_angle)
  with False show ?thesis by (simp add: line_requires_def)
qed (simp add: line_requires_def)

end
