(* ===== verification/Process_File.thy ===== *)
theory Process_File
  imports Include_Use
begin

text \<open>
  The linter on one file (\<open>ProcessLine\<close> and \<open>ProcessFileData\<close> of \<open>cpplint.py\<close>): the order in
  which the checks run, with the include state, the function state and the nesting state
  that they share.
\<close>

section \<open>Bad characters\<close>

text \<open>U+FFFD is tested by its code point; the strings of the model have code points below 256 only.\<close>

definition CheckForBadCharacters :: "error_fn \<Rightarrow> string \<Rightarrow> string list \<Rightarrow> action" where
  "CheckForBadCharacters error filename lines =
     for_each (List.enumerate 0 lines) (\<lambda>(linenum, line).
       run [whenever (list_ex (\<lambda>c. ord c = 0xFFFD) line)
              (error filename (Some (int linenum)) ''readability/utf8'' 5
                ''Line contains invalid UTF-8 (or Unicode replacement character).''),
            whenever (list_ex (\<lambda>c. ord c = 0) line)
              (error filename (Some (int linenum)) ''readability/nul'' 5 ''Line contains NUL byte.'')])"

section \<open>One line\<close>

text \<open>The three objects that carry state from line to line.\<close>

type_synonym file_state = "include_state \<times> function_state \<times> nesting_state"

type_synonym check_fn = "string \<Rightarrow> cleansed_lines \<Rightarrow> nat \<Rightarrow> error_fn \<Rightarrow> action"

text \<open>The checks of a line outside an asm block.\<close>

definition check_line :: "os_env \<Rightarrow> error_fn \<Rightarrow> string \<Rightarrow> string \<Rightarrow> cleansed_lines \<Rightarrow> check_fn list \<Rightarrow> nat \<Rightarrow>
    file_state \<Rightarrow> lint \<Rightarrow> (file_state \<times> lint) py" where
  "check_line env error filename file_extension clean extra_check_functions line = (\<lambda>(ist, fs, ns) st.
     py_bind (CheckForFunctionLengths error filename clean line fs st) (\<lambda>(fs, st).
     py_bind (run [CheckForMultilineCommentsAndStrings error filename clean line,
                   CheckStyle error env filename clean line file_extension ns] st) (\<lambda>st.
     py_bind (CheckLanguage env error filename clean line file_extension ist ns st) (\<lambda>(ist, st).
     py_bind (run ([CheckForNonConstReference error filename clean line ns,
                    CheckForNonStandardConstructs error filename clean line ns,
                    CheckVlogArguments error filename clean line,
                    CheckPosixThreading error filename clean line,
                    CheckInvalidIncrement error filename clean line,
                    CheckMakePairUsesDeduction error filename clean line,
                    CheckRedundantVirtual error filename clean line,
                    CheckRedundantOverrideOrFinal error filename clean line] @
                   map (\<lambda>check_fn. check_fn filename clean line error) extra_check_functions) st) (\<lambda>st.
       Inr ((ist, fs, ns), st))))))"

definition ProcessLine :: "os_env \<Rightarrow> error_fn \<Rightarrow> string \<Rightarrow> string \<Rightarrow> cleansed_lines \<Rightarrow> check_fn list \<Rightarrow> nat \<Rightarrow>
    file_state \<Rightarrow> lint \<Rightarrow> (file_state \<times> lint) py" where
  "ProcessLine env error filename file_extension clean extra_check_functions line = (\<lambda>(ist, fs, ns) st.
     py_bind (py_index (raw_lines clean) (int line)) (\<lambda>raw_line.
     py_bind (ParseNolintSuppressions error filename raw_line (int line) st) (\<lambda>st.
     py_bind (Update error filename clean line ns st) (\<lambda>(ns, st).
     py_bind (CheckForNamespaceIndentation error filename ns clean line st) (\<lambda>st.
       if InAsmBlock ns then Inr ((ist, fs, ns), st)
       else check_line env error filename file_extension clean extra_check_functions line (ist, fs, ns) st)))))"

section \<open>One file\<close>

fun process_lines :: "os_env \<Rightarrow> error_fn \<Rightarrow> string \<Rightarrow> string \<Rightarrow> cleansed_lines \<Rightarrow> check_fn list \<Rightarrow> nat list \<Rightarrow>
    file_state \<Rightarrow> lint \<Rightarrow> (file_state \<times> lint) py" where
  "process_lines env error filename file_extension clean extra_check_functions [] s st = Inr (s, st)"
| "process_lines env error filename file_extension clean extra_check_functions (line # ls) s st =
     py_bind (ProcessLine env error filename file_extension clean extra_check_functions line s st) (\<lambda>(s, st).
     py_bind (FlagCxx11Features error filename clean line st) (\<lambda>st.
       process_lines env error filename file_extension clean extra_check_functions ls s st))"

definition with_markers :: "string list \<Rightarrow> string list" where
  "with_markers lines =
     [''// marker so line numbers and indices both start at 1''] @ lines @ [''// marker so line numbers end in a known way'']"

text \<open>What follows once the suppressions of the file are known.\<close>

definition check_whole_file :: "os_env \<Rightarrow> reader \<Rightarrow> error_fn \<Rightarrow> string \<Rightarrow> string \<Rightarrow> string list \<Rightarrow> check_fn list \<Rightarrow> action" where
  "check_whole_file env io error filename file_extension lines extra_check_functions st =
     py_bind (RemoveMultiLineComments error filename lines st) (\<lambda>(lines, st).
     let clean = CleansedLines lines in
     py_bind (whenever (IsHeaderExtension st file_extension) (CheckForHeaderGuard env error filename clean) st) (\<lambda>st.
     py_bind (process_lines env error filename file_extension clean extra_check_functions [0..<NumLines clean]
                (IncludeState_init, FunctionState_init, NestingState_init) st) (\<lambda>((ist, fs, ns), st).
     py_bind (run [CheckCompletedBlocks error filename ns,
                   CheckForIncludeWhatYouUse env io error filename clean ist] st) (\<lambda>st.
     py_bind (whenever (IsSourceExtension st file_extension) (CheckHeaderFileIncluded env error filename ist) st) (\<lambda>st.
       run [CheckForBadCharacters error filename lines, CheckForNewlineAtEOF error filename lines] st)))))"

definition ProcessFileData :: "os_env \<Rightarrow> reader \<Rightarrow> error_fn \<Rightarrow> string \<Rightarrow> string \<Rightarrow> string list \<Rightarrow> check_fn list \<Rightarrow> action" where
  "ProcessFileData env io error filename file_extension lines extra_check_functions st =
     (let lines = with_markers lines;
          st = ResetNolintSuppressions st
      in py_bind (CheckForCopyright error filename lines st) (\<lambda>st.
         check_whole_file env io error filename file_extension lines extra_check_functions (ProcessGlobalSuppresions lines st)))"

section \<open>Lines that stop the linter\<close>

definition stuck_line :: "cleansed_lines \<Rightarrow> nat \<Rightarrow> bool" where
  "stuck_line clean linenum = (cast_ends_line clean linenum \<or> (\<exists>ns. constructor_stuck clean linenum ns))"

context reporter
begin

lemma CheckCompletedBlocks_safe: "safe Inv (CheckCompletedBlocks error filename ns)"
  unfolding CheckCompletedBlocks_def
  by (intro for_each_safe) (auto intro!: report_safe safe_return simp: ERROR_CATEGORIES_def split: block_kind.split)

lemma CheckForBadCharacters_safe: "safe Inv (CheckForBadCharacters error filename lines)"
  unfolding CheckForBadCharacters_def
  by (intro for_each_safe) (auto intro!: safe_flow report_safe simp: ERROR_CATEGORIES_def)

lemma guard_report_safe:
  "0 \<le> confidence \<Longrightarrow> confidence \<le> 5 \<Longrightarrow> safe Inv (error filename linenum ''build/header_guard'' confidence message)"
  by (rule report_safe) (simp_all add: ERROR_CATEGORIES_def)

lemma check_endif_safe: "safe Inv (check_endif error filename rlines cppvar g)"
  unfolding check_endif_def endif_error_def Let_def by (intro safe_flow guard_report_safe) simp_all

lemma nolint_at_safe: "linenum < length rlines \<Longrightarrow> safe Inv (nolint_at error filename rlines linenum)"
  using nolint_safe [of filename "rlines ! linenum" "int linenum"] by (simp add: safe_def nolint_at_def)

end

text \<open>The line numbers that the scan for the guard returns are those of lines.\<close>

lemma guard_scan_lines:
  "g_ifndef_linenum g < n \<Longrightarrow> g_endif_linenum g < n \<Longrightarrow> list_all (\<lambda>x. fst x < n) xs \<Longrightarrow>
   g_ifndef_linenum (fold guard_step xs g) < n \<and> g_endif_linenum (fold guard_step xs g) < n"
proof (induction xs arbitrary: g)
  case (Cons x xs)
  from Cons.prems have "g_ifndef_linenum (guard_step x g) < n \<and> g_endif_linenum (guard_step x g) < n"
    by (cases x) (simp add: guard_step_def Let_def)
  with Cons show ?case by simp
qed simp

lemma scan_guard_lines:
  assumes "rlines \<noteq> []"
  shows "g_ifndef_linenum (scan_guard rlines) < length rlines \<and> g_endif_linenum (scan_guard rlines) < length rlines"
  unfolding scan_guard_def
  by (rule guard_scan_lines) (use assms in \<open>auto simp: guard_scan_init_def list_all_iff in_set_enumerate_eq\<close>)

context naming_reporter
begin

lemma CheckForHeaderGuard_safe:
  assumes "lines_without_raw_strings clean \<noteq> []"
    and guard: "\<And>st. Inv st \<Longrightarrow> \<exists>v. GetHeaderGuardCPPVariable env st filename = Inr v"
  shows "safe Inv (CheckForHeaderGuard env error filename clean)"
proof (rule safeI)
  fix st assume st: "Inv st"
  let ?r = "lines_without_raw_strings clean"
  let ?g = "scan_guard ?r"
  from guard [OF st] obtain v where v: "GetHeaderGuardCPPVariable env st filename = Inr v" by blast
  note n = scan_guard_lines [OF assms(1)]
  have 1: "safe Inv (run [whenever (g_ifndef ?g \<noteq> v)
                   (run [nolint_at error filename ?r (g_ifndef_linenum ?g),
                         error filename (Some (int (g_ifndef_linenum ?g))) ''build/header_guard''
                           (if g_ifndef ?g \<noteq> v @ ''_'' then 5 else 0)
                           (''#ifndef header guard has wrong style, please use: '' @ v)]),
                 nolint_at error filename ?r (g_endif_linenum ?g),
                 check_endif error filename ?r v ?g])"
    using n by (intro safe_flow nolint_at_safe check_endif_safe guard_report_safe) simp_all
  have 2: "safe Inv (error filename (Some 0) ''build/header_guard'' 5
              (''No #ifndef header guard found, suggested CPP variable is: '' @ v))"
    by (rule guard_report_safe) simp_all
  have "safe Inv (\<lambda>st.
      if list_ex (\<lambda>i. Search (raw ''//`s*NOLINT`(build/header_guard`)'') i \<noteq> None) ?r then Inr st
      else if list_ex (\<lambda>i. Search (raw ''^`s*#pragma`s+once'') i \<noteq> None) ?r then Inr st
      else if g_ifndef ?g = [] \<or> g_define ?g = [] \<or> g_ifndef ?g \<noteq> g_define ?g then
        error filename (Some 0) ''build/header_guard'' 5 (''No #ifndef header guard found, suggested CPP variable is: '' @ v) st
      else run [whenever (g_ifndef ?g \<noteq> v)
                   (run [nolint_at error filename ?r (g_ifndef_linenum ?g),
                         error filename (Some (int (g_ifndef_linenum ?g))) ''build/header_guard''
                           (if g_ifndef ?g \<noteq> v @ ''_'' then 5 else 0)
                           (''#ifndef header guard has wrong style, please use: '' @ v)]),
                 nolint_at error filename ?r (g_endif_linenum ?g),
                 check_endif error filename ?r v ?g] st)"
    by (intro safe_if safe_return' 1 2)
  from safeD [OF this st] show "\<exists>st'. CheckForHeaderGuard env error filename clean st = Inr st' \<and> Inv st'"
    unfolding CheckForHeaderGuard_def Let_def v py_bind.simps .
qed

lemma check_own_header_safe: "safe Inv (check_own_header env error filename ist es)"
proof (induction es)
  case (Cons e es)
  show ?case
  proof (rule safeI)
    fix st assume st: "Inv st"
    from Extension_named [OF st] obtain x where x: "Extension env st filename = Inr x" by blast
    let ?h = "slice_to filename (int (length filename) - int (length x)) @ ''.'' @ e"
    from named [OF st] obtain h where h: "RepositoryName env st ?h = Inr h" by blast
    from named [OF st] obtain f where f: "RepositoryName env st filename = Inr f" by blast
    have "safe Inv (\<lambda>st. py_bind (error filename first ''build/include'' 5 (f @ '' should include its header file '' @ h) st)
        (check_own_header env error filename ist es))" for first
      by (rule safe_bind [OF report_safe Cons]) (simp_all add: ERROR_CATEGORIES_def)
    from safeD [OF this st] safeD [OF Cons st] st
    show "\<exists>st'. check_own_header env error filename ist (e # es) st = Inr st' \<and> Inv st'"
      unfolding check_own_header.simps x py_bind.simps Let_def h f by (simp split: option.split)
  qed
qed (simp add: safe_def)

lemma CheckHeaderFileIncluded_safe: "safe Inv (CheckHeaderFileIncluded env error filename ist)"
proof (rule safeI)
  fix st assume st: "Inv st"
  from BaseName_named [OF st] obtain b where "BaseName env st filename = Inr b" by blast
  with safeD [OF check_own_header_safe st] st
  show "\<exists>st'. CheckHeaderFileIncluded env error filename ist st = Inr st' \<and> Inv st'"
    by (simp add: CheckHeaderFileIncluded_def)
qed

end

text \<open>The lines that the checks see: with markers, without comments of several lines.\<close>

definition checked_lines :: "string list \<Rightarrow> string list" where
  "checked_lines lines = fst (remove_comments_loop (with_markers lines) 0)"

lemma length_checked_lines: "length (checked_lines lines) = length lines + 2"
proof -
  obtain ls r where e: "remove_comments_loop (with_markers lines) 0 = (ls, r)" by fastforce
  from remove_comments_loop_spec [OF _ this] have "length ls = length (with_markers lines)" by (simp add: removed_from_def)
  then show ?thesis by (simp add: checked_lines_def e) (simp add: with_markers_def)
qed

context reporter
begin

lemma remove_comments_safe:
  assumes "Inv st"
  shows "\<exists>st'. RemoveMultiLineComments error filename (with_markers lines) st = Inr (checked_lines lines, st') \<and> Inv st'"
proof -
  obtain ls r where e: "remove_comments_loop (with_markers lines) 0 = (ls, r)" by fastforce
  have "safe Inv (error filename n ''readability/multiline_comment'' 5 msg)" for n msg
    by (rule listed_report_safe) simp_all
  from safeD [OF this assms] show ?thesis
    using assms by (cases r) (auto simp: RemoveMultiLineComments_def checked_lines_def e py_bind_Inr_iff)
qed

end

text \<open>The outcome of the work on a line, for an invariant of the module state: new states that keep their invariants, or IndexError on a line that stops
  the linter.\<close>

definition line_ok :: "(lint \<Rightarrow> bool) \<Rightarrow> cleansed_lines \<Rightarrow> nat \<Rightarrow> (file_state \<times> lint) py \<Rightarrow> bool" where
  "line_ok Inv clean linenum r =
     (case r of
        Inr ((ist, fs, ns), st) \<Rightarrow> nesting_ok (Suc linenum) ns \<and> include_inv ist \<and> Inv st
      | Inl e \<Rightarrow> e = IndexError \<and> stuck_line clean linenum)"

lemma line_ok_simps [simp]:
  "line_ok Inv clean linenum (Inr ((ist, fs, ns), st)) \<longleftrightarrow> nesting_ok (Suc linenum) ns \<and> include_inv ist \<and> Inv st"
  "line_ok Inv clean linenum (Inl e) \<longleftrightarrow> e = IndexError \<and> stuck_line clean linenum"
  by (simp_all add: line_ok_def)

section \<open>The contract for a whole file\<close>

text \<open>The checks that follow once the suppressions of the file are known report at any confidence.\<close>

locale line_reporter = naming_reporter error Inv env for error Inv env +
  assumes any_confidence: "\<And>filename linenum category confidence message st. category \<in> set ERROR_CATEGORIES \<Longrightarrow> Inv st \<Longrightarrow>
      \<exists>st'. error filename linenum category confidence message st = Inr st' \<and> Inv st'"
begin

lemma guard_named: "Inv st \<Longrightarrow> \<exists>v. GetHeaderGuardCPPVariable env st filename = Inr v"
  using named by (auto intro: GetHeaderGuardCPPVariable_returns simp: files_named_def)

text \<open>At a negative verbosity the confidence of a report on a long function may be negative.\<close>

lemma function_lengths_safe:
  assumes "linenum < length (clean_lines clean)" "Inv st"
  shows "\<exists>fs' st'. CheckForFunctionLengths error filename clean linenum fs st = Inr (fs', st') \<and> Inv st'"
proof -
  have e: "\<exists>st'. error filename n ''readability/fn_size'' c msg st = Inr st' \<and> Inv st'" for n c msg
    using assms(2) by (intro any_confidence) (simp_all add: ERROR_CATEGORIES_def)
  have "\<exists>st'. Check error filename (int linenum) fs st = Inr st' \<and> Inv st'"
    using e assms(2) by (auto simp: Check_def Let_def)
  then obtain st1 where "Check error filename (int linenum) fs st = Inr st1" "Inv st1" by blast
  moreover from e obtain st2 where
    "error filename (Some (int linenum)) ''readability/fn_size'' 5 ''Lint failed to find start of function body.'' st = Inr st2" "Inv st2"
    by blast
  ultimately show ?thesis using assms by (simp add: CheckForFunctionLengths_def split: option.split)
qed

lemma style_run_safe:
  assumes "linenum < length lines" "blocks_in_file (CleansedLines lines) ns"
  shows "safe Inv (run [CheckForMultilineCommentsAndStrings error filename (CleansedLines lines) linenum,
    CheckStyle error env filename (CleansedLines lines) linenum file_extension ns])"
  by (intro run_Cons_safe run_Nil_safe CheckForMultiline_safe CheckStyle_safe lines_ok_CleansedLines guard_named)
    (use assms in simp_all)

lemma line_run_unless:
  assumes n: "linenum < length lines" and extra: "list_all (\<lambda>check. safe Inv (check filename (CleansedLines lines) linenum error)) extra"
  shows "safe_unless (stuck_line (CleansedLines lines) linenum) Inv
    (run ([CheckForNonConstReference error filename (CleansedLines lines) linenum ns,
           CheckForNonStandardConstructs error filename (CleansedLines lines) linenum ns,
           CheckVlogArguments error filename (CleansedLines lines) linenum,
           CheckPosixThreading error filename (CleansedLines lines) linenum,
           CheckInvalidIncrement error filename (CleansedLines lines) linenum,
           CheckMakePairUsesDeduction error filename (CleansedLines lines) linenum,
           CheckRedundantVirtual error filename (CleansedLines lines) linenum,
           CheckRedundantOverrideOrFinal error filename (CleansedLines lines) linenum] @
          map (\<lambda>check_fn. check_fn filename (CleansedLines lines) linenum error) extra))"
proof (rule run_append_unless)
  let ?clean = "CleansedLines lines"
  have ok: "lines_ok ?clean" by (rule lines_ok_CleansedLines)
  have l: "linenum < length (elided ?clean)" "linenum < NumLines ?clean" "linenum < length (clean_lines ?clean)" using n by simp_all
  have k: "safe_unless (stuck_line ?clean linenum) Inv (CheckForNonStandardConstructs error filename ?clean linenum ns)"
    by (rule safe_unless_mono [OF CheckForNonStandardConstructs_unless [OF l(3,1)]]) (auto simp: stuck_line_def)
  show "safe_unless (stuck_line ?clean linenum) Inv (run
    [CheckForNonConstReference error filename ?clean linenum ns, CheckForNonStandardConstructs error filename ?clean linenum ns,
     CheckVlogArguments error filename ?clean linenum, CheckPosixThreading error filename ?clean linenum,
     CheckInvalidIncrement error filename ?clean linenum, CheckMakePairUsesDeduction error filename ?clean linenum,
     CheckRedundantVirtual error filename ?clean linenum, CheckRedundantOverrideOrFinal error filename ?clean linenum])"
    by (intro run_Cons_unless [OF safe_unless_safe [OF CheckForNonConstReference_safe [OF ok l(2)]] run_Cons_unless [OF k safe_unless_safe]]
      run_Cons_safe run_Nil_safe CheckVlogArguments_safe CheckPosixThreading_safe CheckInvalidIncrement_safe CheckMakePair_safe
      CheckRedundantVirtual_safe CheckRedundantOverrideOrFinal_safe ok l)
  show "safe_unless (stuck_line ?clean linenum) Inv (run (map (\<lambda>check_fn. check_fn filename ?clean linenum error) extra))"
    by (intro safe_unless_safe run_safe) (use extra in \<open>simp add: list_all_iff\<close>)
qed

lemma check_line_outcome:
  assumes n: "linenum < length lines" and inv: "nesting_ok (Suc linenum) ns" "include_inv ist" "Inv st"
    and extra: "list_all (\<lambda>check. safe Inv (check filename (CleansedLines lines) linenum error)) extra"
  shows "line_ok Inv (CleansedLines lines) linenum (check_line env error filename ext (CleansedLines lines) extra linenum (ist, fs, ns) st)"
proof -
  let ?clean = "CleansedLines lines"
  have ok: "lines_ok ?clean" by (rule lines_ok_CleansedLines)
  have l: "linenum < length (elided ?clean)" "linenum < NumLines ?clean" "linenum < length (clean_lines ?clean)" using n by simp_all
  from function_lengths_safe [OF l(3) inv(3)] obtain fs' st4 where
    4: "CheckForFunctionLengths error filename ?clean linenum fs st = Inr (fs', st4)" "Inv st4" by blast
  have "blocks_in_file ?clean ns"
    using inv(1) l(1) by (auto simp: nesting_ok_def stack_ok_def blocks_in_file_def list_all_iff)
  from safeD [OF style_run_safe [OF n this] 4(2)] obtain st5 where
    5: "run [CheckForMultilineCommentsAndStrings error filename ?clean linenum,
          CheckStyle error env filename ?clean linenum ext ns] st4 = Inr st5" "Inv st5" by blast
  note step = check_line_def prod.case py_bind.simps 4(1) 5(1)
  from CheckLanguage_unless [OF ok l(2,3) 5(2) inv(2), of filename ext ns] show ?thesis
  proof (elim disjE exE conjE)
    fix ist' st6
    assume lang: "CheckLanguage env error filename ?clean linenum ext ist ns st5 = Inr (ist', st6)" "Inv st6" "include_inv ist'"
    from line_run_unless [OF n extra, of ns] lang(2) show ?thesis
      by (cases rule: safe_unlessD) (simp_all only: step lang inv(1) line_ok_simps simp_thms)
  next
    assume "CheckLanguage env error filename ?clean linenum ext ist ns st5 = Inl IndexError" "cast_ends_line ?clean linenum"
    then show ?thesis unfolding step by (simp add: stuck_line_def)
  qed
qed

lemma ProcessLine_outcome:
  assumes n: "linenum < length lines" and inv: "nesting_ok linenum ns" "include_inv ist" "Inv st"
    and extra: "list_all (\<lambda>check. safe Inv (check filename (CleansedLines lines) linenum error)) extra"
  shows "line_ok Inv (CleansedLines lines) linenum (ProcessLine env error filename ext (CleansedLines lines) extra linenum (ist, fs, ns) st)"
proof -
  let ?clean = "CleansedLines lines"
  have ok: "lines_ok ?clean" by (rule lines_ok_CleansedLines)
  have l: "linenum < length (elided ?clean)" "linenum < NumLines ?clean" "linenum < length (raw_lines ?clean)"
    using n ok by (simp_all add: lines_ok_def)
  from safeD [OF nolint_safe inv(3)] obtain st1 where
    1: "ParseNolintSuppressions error filename (raw_lines ?clean ! linenum) (int linenum) st = Inr st1" "Inv st1" by blast
  from Update_ok [OF ok l(2) inv(1) 1(2), of filename] obtain ns' st2 where
    2: "Update error filename ?clean linenum ns st1 = Inr (ns', st2)" "nesting_ok (Suc linenum) ns'" "Inv st2" by auto
  from safeD [OF CheckForNamespaceIndentation_safe [OF l(1)] 2(3)] obtain st3 where
    3: "CheckForNamespaceIndentation error filename ns' ?clean linenum st2 = Inr st3" "Inv st3" by blast
  have "line_ok Inv ?clean linenum (check_line env error filename ext ?clean extra linenum (ist, fs, ns') st3)"
    by (rule check_line_outcome [OF n 2(2) inv(2) 3(2) extra])
  with 2(2) 3(2) inv(2) show ?thesis by (simp add: ProcessLine_def py_index_nat [OF l(3)] 1(1) 2(1) 3(1))
qed

lemma process_lines_outcome:
  assumes "nesting_ok i ns" "include_inv ist" "Inv st" "i \<le> length lines"
    and extra: "\<And>linenum. list_all (\<lambda>check. safe Inv (check filename (CleansedLines lines) linenum error)) extra"
  shows "(\<exists>ist' fs' ns' st'. process_lines env error filename ext (CleansedLines lines) extra [i..<length lines] (ist, fs, ns) st =
        Inr ((ist', fs', ns'), st') \<and> nesting_ok (length lines) ns' \<and> include_inv ist' \<and> Inv st') \<or>
    (process_lines env error filename ext (CleansedLines lines) extra [i..<length lines] (ist, fs, ns) st = Inl IndexError \<and>
     (\<exists>j < length lines. stuck_line (CleansedLines lines) j))"
  using assms(1-4)
proof (induction "length lines - i" arbitrary: i ist fs ns st)
  case 0
  then show ?case by simp
next
  case (Suc k)
  then have i: "i < length lines" "[i..<length lines] = i # [Suc i..<length lines]" by (simp_all add: upt_conv_Cons)
  note line = ProcessLine_outcome [OF i(1) Suc.prems(1-3) extra, of ext fs]
  show ?case
  proof (cases "ProcessLine env error filename ext (CleansedLines lines) extra i (ist, fs, ns) st")
    case (Inl e)
    with line i show ?thesis by auto
  next
    case (Inr r)
    obtain ist' fs' ns' st' where r: "r = ((ist', fs', ns'), st')" by (metis surj_pair)
    with Inr line have 1: "nesting_ok (Suc i) ns'" "include_inv ist'" "Inv st'" by simp_all
    from safeD [OF FlagCxx11Features_safe 1(3), of i "CleansedLines lines"] i(1) obtain st'' where
      f: "FlagCxx11Features error filename (CleansedLines lines) i st' = Inr st''" "Inv st''" by auto
    from Suc.hyps(1) [OF _ 1(1,2) f(2)] Suc.hyps(2) i(1) Inr r f(1) show ?thesis by (simp add: i(2))
  qed
qed


lemma check_whole_file_outcome:
  assumes extra: "\<And>clean linenum. list_all (\<lambda>check. safe Inv (check filename clean linenum error)) extra"
  shows "safe_unless (\<exists>j < length (checked_lines lines). stuck_line (CleansedLines (checked_lines lines)) j) Inv
    (check_whole_file env io error filename ext (with_markers lines) extra)"
  unfolding safe_unless_def
proof (intro allI impI)
  fix st assume st: "Inv st"
  let ?call = "check_whole_file env io error filename ext (with_markers lines) extra st"
  let ?l = "checked_lines lines"
  let ?clean = "CleansedLines ?l"
  from remove_comments_safe [OF st] obtain st2 where
    2: "RemoveMultiLineComments error filename (with_markers lines) st = Inr (?l, st2)" "Inv st2" by blast
  have "length (lines_without_raw_strings ?clean) = length lines + 2" by (simp add: length_checked_lines)
  then have "lines_without_raw_strings ?clean \<noteq> []" by (metis add_2_eq_Suc' length_0_conv nat.distinct(1))
  from safeD [OF whenever_safe [OF CheckForHeaderGuard_safe [OF this guard_named]] 2(2)] obtain st3 where
    3: "whenever (IsHeaderExtension st2 ext) (CheckForHeaderGuard env error filename ?clean) st2 = Inr st3" "Inv st3" by blast
  note step = check_whole_file_def Let_def 2(1) 3(1) py_bind.simps prod.case
  have "nesting_ok 0 NestingState_init" by (simp add: nesting_ok_def NestingState_init_def)
  from process_lines_outcome [where lines = ?l and ext = ext and fs = FunctionState_init, OF this include_inv_init 3(2) le0 extra]
  show "(\<exists>st'. ?call = Inr st' \<and> Inv st') \<or> ?call = Inl IndexError \<and> (\<exists>j < length ?l. stuck_line ?clean j)"
  proof (elim disjE exE conjE, goal_cases)
    case (1 ist fs ns st4)
    then have p: "process_lines env error filename ext ?clean extra [0..<NumLines ?clean]
        (IncludeState_init, FunctionState_init, NestingState_init) st3 = Inr ((ist, fs, ns), st4)" by simp
    have "safe Inv (run [CheckCompletedBlocks error filename ns, CheckForIncludeWhatYouUse env io error filename ?clean ist])"
      by (intro run_Cons_safe run_Nil_safe CheckCompletedBlocks_safe CheckForIncludeWhatYouUse_safe)
    from safeD [OF this 1(4)] obtain st5 where
      5: "run [CheckCompletedBlocks error filename ns, CheckForIncludeWhatYouUse env io error filename ?clean ist] st4 = Inr st5" "Inv st5" by blast
    from safeD [OF whenever_safe [OF CheckHeaderFileIncluded_safe] 5(2)] obtain st6 where
      6: "whenever (IsSourceExtension st5 ext) (CheckHeaderFileIncluded env error filename ist) st5 = Inr st6" "Inv st6" by blast
    have "safe Inv (run [CheckForBadCharacters error filename ?l, CheckForNewlineAtEOF error filename ?l])"
      by (intro run_Cons_safe run_Nil_safe CheckForBadCharacters_safe CheckForNewlineAtEOF_safe)
    from safeD [OF this 6(2)] show ?case unfolding step p 5(1) 6(1) by blast
  next
    case 2
    then show ?case unfolding step by auto
  qed
qed

end

text \<open>The whole file: the suppressions of the file before are reset, those of the whole file are set.\<close>

locale file_reporter = line_reporter error Inv env for error Inv env +
  assumes reset: "\<And>st. Inv st \<Longrightarrow> Inv (ResetNolintSuppressions st)"
    and global_suppressions: "\<And>st ls. Inv st \<Longrightarrow> Inv (ProcessGlobalSuppresions ls st)"
begin

lemma ProcessFileData_outcome:
  assumes extra: "\<And>clean linenum. list_all (\<lambda>check. safe Inv (check filename clean linenum error)) extra"
  shows "safe_unless (\<exists>j < length (checked_lines lines). stuck_line (CleansedLines (checked_lines lines)) j) Inv
    (ProcessFileData env io error filename ext lines extra)"
  unfolding safe_unless_def
proof (intro allI impI)
  fix st assume "Inv st"
  from safeD [OF CheckForCopyright_safe reset [OF this]] obtain st1 where
    1: "CheckForCopyright error filename (with_markers lines) (ResetNolintSuppressions st) = Inr st1" "Inv st1" by blast
  from check_whole_file_outcome [OF extra, unfolded safe_unless_def, rule_format, OF global_suppressions [OF 1(2)]] 1(1)
  show "(\<exists>st'. ProcessFileData env io error filename ext lines extra st = Inr st' \<and> Inv st') \<or>
      ProcessFileData env io error filename ext lines extra st = Inl IndexError \<and>
      (\<exists>j < length (checked_lines lines). stuck_line (CleansedLines (checked_lines lines)) j)"
    by (simp add: ProcessFileData_def Let_def)
qed

end

end
