(* ===== verification/File_Reports.thy ===== *)
theory File_Reports
  imports Process_File
begin

text \<open>
  What the checks of a file as a whole do to the module state: the settings stay, errors are only added,
  every failure that is recorded passes verbosity and filters, and none is recorded that a suppression
  covers.  The two interpretations of the contract of \<open>Process_File\<close> carry these facts through all checks:
  \<open>File\<close> for the whole of \<open>ProcessFileData\<close> and \<open>Muted\<close> for what follows once a suppression is in force.
\<close>

section \<open>The module state while a file is checked\<close>

text \<open>What the checks of a file leave alone.\<close>

definition same_settings :: "lint \<Rightarrow> lint \<Rightarrow> bool" where
  "same_settings st0 st =
     (verbose_level (lstate st) = verbose_level (lstate st0) \<and> filters (lstate st) = filters (lstate st0) \<and>
      filters_backup (lstate st) = filters_backup (lstate st0) \<and> counting (lstate st) = counting (lstate st0) \<and>
      quiet (lstate st) = quiet (lstate st0) \<and> output_format (lstate st) = output_format (lstate st0) \<and>
      valid_extensions st = valid_extensions st0 \<and> hpp_headers st = hpp_headers st0 \<and> root st = root st0 \<and>
      repository st = repository st0 \<and> module_quiet st = module_quiet st0 \<and> line_length st = line_length st0 \<and>
      stdout st = stdout st0)"

text \<open>Errors are only added, and for a JUnit report each is recorded.\<close>

definition more_errors :: "lint \<Rightarrow> lint \<Rightarrow> bool" where
  "more_errors st0 st =
     (error_count (lstate st0) \<le> error_count (lstate st) \<and>
      (output_format (lstate st0) = ''junit'' \<longrightarrow>
       length (junit_failures (lstate st)) = length (junit_failures (lstate st0)) + (error_count (lstate st) - error_count (lstate st0))))"

lemma more_errors_refl [simp]: "more_errors st st"
  by (simp add: more_errors_def)

lemma more_errors_trans:
  "more_errors a b \<Longrightarrow> more_errors b c \<Longrightarrow> output_format (lstate b) = output_format (lstate a) \<Longrightarrow> more_errors a c"
  by (auto simp: more_errors_def)

text \<open>A failure (file, line, message, category, confidence) as a line of text, in the output formats that print it.\<close>

type_synonym failure = "string \<times> int option \<times> string \<times> string \<times> int"

definition report_text :: "string \<Rightarrow> failure \<Rightarrow> string" where
  "report_text fmt = (\<lambda>(filename, linenum, message, category, confidence).
     if fmt = ''vs7'' then filename @ ''('' @ show_linenum linenum @ ''): error cpplint: ['' @ category @ ''] '' @ message
       @ '' ['' @ str_of_int confidence @ '']'' @ [newline]
     else filename @ '':'' @ show_linenum linenum @ (if fmt = ''eclipse'' then '': warning: '' else '':  '') @ message
       @ ''  ['' @ category @ ''] ['' @ str_of_int confidence @ '']'' @ [newline])"

text \<open>From one state to another, these failures were reported and these texts were written: each failure is
  counted, and it is in the JUnit report if that is the output format; in every other format there is no JUnit report, and standard
  error has the texts.\<close>

definition logged :: "failure list \<Rightarrow> string list \<Rightarrow> lint \<Rightarrow> lint \<Rightarrow> bool" where
  "logged new texts st0 st =
     (output_format (lstate st) = output_format (lstate st0) \<and>
      error_count (lstate st) = error_count (lstate st0) + length new \<and>
      (if output_format (lstate st0) = ''junit'' then junit_failures (lstate st) = junit_failures (lstate st0) @ new
       else junit_failures (lstate st) = junit_failures (lstate st0) \<and> stderr st = stderr st0 @ concat texts))"

text \<open>Whatever was reported from one state to another satisfies a test: counted, in the JUnit report and on standard error are failures
  that do, and nothing else.\<close>

definition recorded :: "(failure \<Rightarrow> bool) \<Rightarrow> lint \<Rightarrow> lint \<Rightarrow> bool" where
  "recorded P st0 st = (\<exists>new. list_all P new \<and> logged new (map (report_text (output_format (lstate st0))) new) st0 st)"

text \<open>The test that the settings make of a failure.\<close>

definition admitted :: "cpplint_state \<Rightarrow> failure \<Rightarrow> bool" where
  "admitted s = (\<lambda>(filename, linenum, message, category, confidence).
     category \<in> set ERROR_CATEGORIES \<and> verbose_level s \<le> confidence \<and> \<not> filtered_by_last category (filters s))"

lemma logged_trans: "logged n1 m1 a b \<Longrightarrow> logged n2 m2 b c \<Longrightarrow> logged (n1 @ n2) (m1 @ m2) a c"
  by (auto simp: logged_def split: if_splits)

lemma logged_format: "logged n m a b \<Longrightarrow> output_format (lstate b) = output_format (lstate a)"
  by (simp add: logged_def)

lemma recorded_cong: "lstate a = lstate a' \<Longrightarrow> stderr a = stderr a' \<Longrightarrow> lstate b = lstate b' \<Longrightarrow> stderr b = stderr b' \<Longrightarrow>
    recorded P a b = recorded P a' b'"
  by (simp add: recorded_def logged_def)

lemma recorded_none: "lstate st = lstate st0 \<Longrightarrow> stderr st = stderr st0 \<Longrightarrow> recorded P st0 st"
  by (auto simp: recorded_def logged_def intro: exI [of _ "[]"])

lemma recorded_refl [simp]: "recorded P st st"
  by (simp add: recorded_none)

lemma recorded_trans:
  assumes "recorded P a b" "recorded P b c"
  shows "recorded P a c"
proof -
  from assms obtain n1 n2 where n: "list_all P (n1 @ n2)"
    "logged n1 (map (report_text (output_format (lstate a))) n1) a b" "logged n2 (map (report_text (output_format (lstate b))) n2) b c"
    unfolding recorded_def by auto
  from logged_trans [OF n(2,3)] logged_format [OF n(2)] n(1) show ?thesis
    unfolding recorded_def by (intro exI [of _ "n1 @ n2"]) simp
qed

lemma admitted_settings: "same_settings a b \<Longrightarrow> admitted (lstate b) = admitted (lstate a)"
  by (simp add: admitted_def same_settings_def)

definition file_inv :: "os_env \<Rightarrow> lint \<Rightarrow> lint \<Rightarrow> bool" where
  "file_inv env st0 st =
     (lint_inv st \<and> files_named env st \<and> same_settings st0 st \<and> more_errors st0 st \<and> recorded (admitted (lstate st0)) st0 st)"

text \<open>A report records a failure only if no suppression covers it.\<close>

lemma Error_recorded:
  assumes "Error filename linenum category confidence message st = Inr st'" "lint_inv st" "category \<in> set ERROR_CATEGORIES"
  shows "recorded (\<lambda>f. admitted (lstate st) f \<and> fst (snd (snd (snd f))) = category \<and>
    \<not> IsErrorSuppressedByNolint st (fst (snd (snd (snd f)))) (fst (snd f))) st st'"
proof -
  let ?f = "(filename, linenum, message, category, confidence)"
  from assms(2) have f: "list_all filter_ok (filters (lstate st))" by (simp add: lint_inv_def)
  note eq = assms(1) [unfolded Error_def ShouldPrintError_eq [OF f] py_bind.simps]
  show ?thesis
  proof (cases "st' = st")
    case False
    with eq assms(3) have "admitted (lstate st) ?f" "\<not> IsErrorSuppressedByNolint st category linenum"
      by (auto simp: admitted_def split: if_splits)
    moreover from eq False have "logged [?f] [report_text (output_format (lstate st)) ?f] st st'"
      by (auto simp: logged_def report_text_def report_defs Let_def IncrementErrorCount_bump split: if_splits)
    ultimately show ?thesis unfolding recorded_def by (intro exI [of _ "[?f]"]) simp
  qed simp
qed

lemma recorded_mono: "recorded P st st' \<Longrightarrow> (\<And>f. P f \<Longrightarrow> Q f) \<Longrightarrow> recorded Q st st'"
  unfolding recorded_def using list.pred_mono_strong by metis

lemma Error_settings:
  assumes "Error filename linenum category confidence message st = Inr st'"
  shows "same_settings st st'" "more_errors st st'"
  using assms
  by (auto simp: report_defs same_settings_def more_errors_def Let_def py_bind_Inr_iff IncrementErrorCount_bump split: if_splits)

lemma same_settings_trans: "same_settings a b \<Longrightarrow> same_settings b c \<Longrightarrow> same_settings a c"
  by (simp add: same_settings_def)

lemma same_settings_refl [simp]: "same_settings a a"
  by (simp add: same_settings_def)

lemma file_inv_step:
  assumes "file_inv env st0 st" "lint_inv st'" "same_settings st st'" "more_errors st st'" "recorded (admitted (lstate st)) st st'"
  shows "file_inv env st0 st'"
proof -
  from assms(1) have "same_settings st0 st" by (simp add: file_inv_def)
  from admitted_settings [OF this] assms(5) have "recorded (admitted (lstate st0)) st st'" by simp
  then show ?thesis
    using assms(1-4) same_settings_trans [OF _ assms(3)] files_named_repository [of st' st env] more_errors_trans [OF _ assms(4)]
    by (auto simp: file_inv_def same_settings_def intro: recorded_trans)
qed

text \<open>Suppressions are not part of the settings.\<close>

lemma suppress_globally_update:
  "\<exists>g. suppress_globally cs st = st\<lparr>global_error_suppressions := g\<rparr>"
proof (induction cs arbitrary: st)
  case Nil
  show ?case by (rule exI [of _ "global_error_suppressions st"]) (simp add: suppress_globally_def)
next
  case (Cons c cs)
  from Cons [of "st\<lparr>global_error_suppressions := (global_error_suppressions st)(c \<mapsto> True)\<rparr>"] show ?case
    by (auto simp: suppress_globally_def)
qed

lemma suppress_globally_eq:
  "global_error_suppressions (suppress_globally cs st) c = (if c \<in> set cs then Some True else global_error_suppressions st c)"
  by (induction cs arbitrary: st) (auto simp: suppress_globally_def)

lemma ProcessGlobalSuppresions_eq:
  "global_error_suppressions (ProcessGlobalSuppresions ls st) c = Some True \<longleftrightarrow>
   global_error_suppressions st c = Some True \<or>
   (\<exists>l \<in> set ls. Search SEARCH_C_FILE l \<noteq> None \<and> c \<in> set DEFAULT_C_SUPPRESSED_CATEGORIES \<or>
      Search SEARCH_KERNEL_FILE l \<noteq> None \<and> c \<in> set DEFAULT_KERNEL_SUPPRESSED_CATEGORIES)"
proof (induction ls arbitrary: st)
  case (Cons l ls)
  then show ?case
    unfolding ProcessGlobalSuppresions_def fold.simps o_apply Let_def list.set by (simp add: suppress_globally_eq)
qed (simp add: ProcessGlobalSuppresions_def)

lemma ProcessGlobalSuppresions_update:
  "\<exists>g. ProcessGlobalSuppresions ls st = st\<lparr>global_error_suppressions := g\<rparr>"
proof (induction ls arbitrary: st)
  case Nil
  show ?case by (rule exI [of _ "global_error_suppressions st"]) (simp add: ProcessGlobalSuppresions_def)
next
  case (Cons l ls)
  define st1 where "st1 = (if Search SEARCH_C_FILE l \<noteq> None then suppress_globally DEFAULT_C_SUPPRESSED_CATEGORIES st else st)"
  define st2 where "st2 = (if Search SEARCH_KERNEL_FILE l \<noteq> None then suppress_globally DEFAULT_KERNEL_SUPPRESSED_CATEGORIES st1 else st1)"
  have upd: "\<exists>g. (if b then suppress_globally cs s else s) = s\<lparr>global_error_suppressions := g\<rparr>" for b cs s
    using suppress_globally_update [of cs s] by (cases b) (auto intro: exI [of _ "global_error_suppressions s"])
  from upd obtain g1 where 1: "st1 = st\<lparr>global_error_suppressions := g1\<rparr>" unfolding st1_def by blast
  from upd obtain g2 where 2: "st2 = st1\<lparr>global_error_suppressions := g2\<rparr>" unfolding st2_def by blast
  have "ProcessGlobalSuppresions (l # ls) st = ProcessGlobalSuppresions ls st2"
    by (simp add: ProcessGlobalSuppresions_def st2_def st1_def Let_def)
  with Cons [of st2] show ?case by (auto simp: 1 2)
qed

lemma file_inv_suppressions:
  "file_inv env st0 st \<Longrightarrow> file_inv env st0 (st\<lparr>error_suppressions := es, global_error_suppressions := gs\<rparr>)"
  by (rule file_inv_step, assumption) (auto simp: file_inv_def lint_inv_def same_settings_def more_errors_def intro: recorded_none)

lemma file_inv_report:
  assumes "category \<in> set ERROR_CATEGORIES" "file_inv env st0 st"
  shows "\<exists>st'. Error filename linenum category confidence message st = Inr st' \<and> file_inv env st0 st'"
proof -
  from assms(2) have "lint_inv st" by (simp add: file_inv_def)
  from Error_safe [OF assms(1) this, of filename linenum confidence message] obtain st' where
    e: "Error filename linenum category confidence message st = Inr st'" "lint_inv st'" by blast
  from Error_recorded [OF e(1) \<open>lint_inv st\<close> assms(1)] have "recorded (admitted (lstate st)) st st'"
    by (rule recorded_mono) simp
  from e(1) file_inv_step [OF assms(2) e(2) Error_settings [OF e(1)] this] show ?thesis by blast
qed

interpretation File: file_reporter Error "file_inv env st0" env for env st0
proof unfold_locales
  fix category line st assume "file_inv env st0 st"
  from file_inv_suppressions [OF this, where gs = "global_error_suppressions st"]
  show "file_inv env st0 (add_suppression category line st)" unfolding add_suppression_def by simp
next
  fix st assume "file_inv env st0 st"
  from file_inv_suppressions [OF this] show "file_inv env st0 (ResetNolintSuppressions st)"
    unfolding ResetNolintSuppressions_def by simp
next
  fix st ls assume inv: "file_inv env st0 st"
  from ProcessGlobalSuppresions_update obtain g where g: "ProcessGlobalSuppresions ls st = st\<lparr>global_error_suppressions := g\<rparr>" by blast
  from file_inv_suppressions [OF inv, where es = "error_suppressions st" and gs = g] show "file_inv env st0 (ProcessGlobalSuppresions ls st)"
    unfolding g by simp
qed ((rule file_inv_report; assumption) | simp add: file_inv_def files_named_def)+

text \<open>Some categories on some lines are suppressed, and no failure of theirs is recorded from a state on.\<close>

definition muted :: "(string \<Rightarrow> int option \<Rightarrow> bool) \<Rightarrow> lint \<Rightarrow> bool" where
  "muted Q st = (\<forall>c l. Q c l \<longrightarrow> IsErrorSuppressedByNolint st c l)"

definition unmuted :: "(string \<Rightarrow> int option \<Rightarrow> bool) \<Rightarrow> string \<times> int option \<times> string \<times> string \<times> int \<Rightarrow> bool" where
  "unmuted Q = (\<lambda>(filename, linenum, message, category, confidence). \<not> Q category linenum)"

definition muted_inv :: "os_env \<Rightarrow> (string \<Rightarrow> int option \<Rightarrow> bool) \<Rightarrow> lint \<Rightarrow> lint \<Rightarrow> bool" where
  "muted_inv env Q st0 st = (lint_inv st \<and> files_named env st \<and> muted Q st \<and> recorded (unmuted Q) st0 st)"

lemma Error_suppressions:
  "Error filename linenum category confidence message st = Inr st' \<Longrightarrow>
   error_suppressions st' = error_suppressions st \<and> global_error_suppressions st' = global_error_suppressions st"
  by (auto simp: report_defs Let_def py_bind_Inr_iff split: if_splits)

lemma muted_report:
  assumes "category \<in> set ERROR_CATEGORIES" "muted_inv env Q st0 st"
  shows "\<exists>st'. Error filename linenum category confidence message st = Inr st' \<and> muted_inv env Q st0 st'"
proof -
  from assms(2) have i: "lint_inv st" "files_named env st" "muted Q st" "recorded (unmuted Q) st0 st" by (simp_all add: muted_inv_def)
  from Error_safe [OF assms(1) i(1), of filename linenum confidence message] obtain st' where
    e: "Error filename linenum category confidence message st = Inr st'" "lint_inv st'" by blast
  from Error_recorded [OF e(1) i(1) assms(1)] have "recorded (unmuted Q) st st'"
    by (rule recorded_mono) (use i(3) in \<open>auto simp: unmuted_def muted_def\<close>)
  moreover have "muted Q st'"
    using i(3) Error_suppressions [OF e(1)] by (simp add: muted_def IsErrorSuppressedByNolint_def suppressed_on_def)
  moreover have "files_named env st'"
    using i(2) files_named_repository [of st' st env] Error_settings(1) [OF e(1)] by (simp add: same_settings_def)
  ultimately show ?thesis using e i(4) by (auto simp: muted_inv_def intro: recorded_trans)
qed

interpretation Muted: line_reporter Error "muted_inv env Q st0" env for env Q st0
proof unfold_locales
  fix category line st assume "muted_inv env Q st0 st"
  then show "muted_inv env Q st0 (add_suppression category line st)"
    using files_named_repository [of "add_suppression category line st" st env]
      recorded_cong [of st0 st0 "add_suppression category line st" st "unmuted Q"]
    by (simp add: muted_inv_def muted_def add_suppression_covers lint_inv_def) (simp add: add_suppression_def)
qed ((rule muted_report; assumption) | simp add: muted_inv_def files_named_def)+

text \<open>The suppressions of a whole file are in force before every check but that of the copyright.\<close>

lemma copyright_recorded:
  assumes "CheckForCopyright Error filename lines st = Inr st'" "lint_inv st" "\<And>l. \<not> Q ''legal/copyright'' l"
  shows "recorded (unmuted Q) st st'"
proof (cases "st' = st")
  case False
  with assms(1) obtain m where "Error filename (Some 0) ''legal/copyright'' 5 m st = Inr st'"
    unfolding CheckForCopyright_def whenever_def by (auto split: if_splits)
  from Error_recorded [OF this assms(2)] have
    "recorded (\<lambda>f. admitted (lstate st) f \<and> fst (snd (snd (snd f))) = ''legal/copyright'' \<and>
       \<not> IsErrorSuppressedByNolint st (fst (snd (snd (snd f)))) (fst (snd f))) st st'" by (simp add: ERROR_CATEGORIES_def)
  then show ?thesis by (rule recorded_mono) (auto simp: unmuted_def assms(3))
qed simp

lemma muted_file:
  assumes "lint_inv st" "files_named env st" "\<And>l. \<not> Q ''legal/copyright'' l"
    and "\<And>st. muted Q (ProcessGlobalSuppresions (with_markers lines) st)"
  shows "case ProcessFileData env io Error filename ext lines [] st of
      Inr st' \<Rightarrow> recorded (unmuted Q) st st' | Inl e \<Rightarrow> e = IndexError"
proof -
  let ?st0 = "ResetNolintSuppressions st"
  have 0: "lint_inv ?st0" "files_named env ?st0" "lstate ?st0 = lstate st"
    using assms(1,2) files_named_repository [of ?st0 st env] by (simp_all add: ResetNolintSuppressions_def lint_inv_def)
  have "file_inv env ?st0 ?st0" using 0 by (simp add: file_inv_def)
  from safeD [OF File.CheckForCopyright_safe this, of filename "with_markers lines"] obtain st1 where
    1: "CheckForCopyright Error filename (with_markers lines) ?st0 = Inr st1" "lint_inv st1" "files_named env st1"
    unfolding file_inv_def by blast
  let ?st2 = "ProcessGlobalSuppresions (with_markers lines) st1"
  obtain g where g: "?st2 = st1\<lparr>global_error_suppressions := g\<rparr>" using ProcessGlobalSuppresions_update by blast
  have "recorded (unmuted Q) ?st0 ?st2"
    using copyright_recorded [OF 1(1) 0(1), of Q] assms(3) recorded_cong [of ?st0 ?st0 st1 ?st2] unfolding g by simp
  then have "muted_inv env Q st ?st2"
    using 1(2,3) assms(4) [of st1] files_named_repository [of ?st2 st1 env] 0(3) recorded_cong [of ?st0 st ?st2 ?st2] unfolding g
    by (simp add: muted_inv_def lint_inv_def ResetNolintSuppressions_def)
  with Muted.check_whole_file_outcome [where filename = filename and extra = "[]" and lines = lines and env = env and Q = Q and ?st0.0 = st and io = io and ext = ext] 1(1) show ?thesis
    by (auto simp: safe_unless_def ProcessFileData_def Let_def muted_inv_def)
qed

text \<open>A suppression that is in force already changes nothing, so the work on a line may start behind its NOLINT comment.\<close>

lemma add_suppression_idem: "add_suppression c n (add_suppression c n st) = add_suppression c n st"
  by (simp add: add_suppression_def)

lemma process_lines_nolint:
  assumes "line < length (raw_lines clean)"
    and "\<And>st. ParseNolintSuppressions error filename (raw_lines clean ! line) (int line) st = Inr (add_suppression c n st)"
  shows "process_lines env error filename ext clean extra (line # ls) s st =
    process_lines env error filename ext clean extra (line # ls) s (add_suppression c n st)"
  by (cases s) (simp add: ProcessLine_def py_index_nat [OF assms(1)] assms(2) add_suppression_idem)

section \<open>Properties\<close>

text \<open>C2. The checks of a whole file: \<open>ProcessFileData\<close> returns on every file, with the counts of errors consistent
  and not smaller (a JUnit report records each new one), with every setting as before; every error counted is a failure
  of a listed category that the filters let through, at a confidence that reaches the verbosity, and the JUnit report or, in the
  other formats, standard error has gained these failures and nothing else.  The exception: some line of the file makes \<open>CheckCasts\<close> or the check of constructors
  read behind the end of a line or of the argument list; then IndexError is all that it can raise.\<close>

theorem process_file_data_outcome:
  assumes "lint_inv st" "\<And>f. \<exists>name. RepositoryName env st f = Inr name"
  shows "case ProcessFileData env io Error filename file_extension lines [] st of
      Inr st' \<Rightarrow> lint_inv st' \<and> same_settings st st' \<and> more_errors st st' \<and> recorded (admitted (lstate st)) st st'
    | Inl e \<Rightarrow> e = IndexError \<and> (\<exists>j < length (checked_lines lines). stuck_line (CleansedLines (checked_lines lines)) j)"
proof -
  have inv: "file_inv env st st" using assms by (simp add: file_inv_def files_named_def)
  have "safe_unless (\<exists>j < length (checked_lines lines). stuck_line (CleansedLines (checked_lines lines)) j) (file_inv env st)
      (ProcessFileData env io Error filename file_extension lines [])"
    by (rule File.ProcessFileData_outcome) simp_all
  from this inv show ?thesis
    by (cases rule: safe_unlessD) (auto simp: file_inv_def)
qed

theorem process_file_data_outcome_witness:
  "case ProcessFileData \<lparr>cwd = ''/w'', path_exists = (\<lambda>p. False)\<rparr> (\<lambda>f. None) Error ''a.cc'' ''cc'' [''int a;'', []] []
       (lint_init CppLintState_init) of
      Inr st' \<Rightarrow> lint_inv st' \<and> same_settings (lint_init CppLintState_init) st' \<and> more_errors (lint_init CppLintState_init) st' \<and>
        recorded (admitted CppLintState_init) (lint_init CppLintState_init) st'
    | Inl e \<Rightarrow> e = IndexError \<and> (\<exists>j < length (checked_lines [''int a;'', []]). stuck_line (CleansedLines (checked_lines [''int a;'', []])) j)"
proof -
  have "lint_inv (lint_init CppLintState_init)" by code_simp
  moreover have "\<exists>name. RepositoryName \<lparr>cwd = ''/w'', path_exists = (\<lambda>p. False)\<rparr> (lint_init CppLintState_init) f = Inr name" for f
    by (simp add: RepositoryName_def)
  ultimately show ?thesis
    using process_file_data_outcome [where st = "lint_init CppLintState_init" and env = "\<lparr>cwd = ''/w'', path_exists = (\<lambda>p. False)\<rparr>"
        and io = "\<lambda>f. None" and filename = "''a.cc''" and file_extension = "''cc''" and lines = "[''int a;'', []]"]
    by (auto simp: lint_init_def split: sum.splits)
qed

text \<open>C14. The suppressions of a whole file reach every check: if some line of the file marks it as C (or kernel) code, then
  \<open>ProcessFileData\<close> reports no failure of the categories suppressed for such files, in any output format, wherever the
  line stands.\<close>

theorem global_suppression_effective:
  assumes "lint_inv st" "\<And>f. \<exists>name. RepositoryName env st f = Inr name"
    and "(pattern, categories) \<in> {(SEARCH_C_FILE, DEFAULT_C_SUPPRESSED_CATEGORIES), (SEARCH_KERNEL_FILE, DEFAULT_KERNEL_SUPPRESSED_CATEGORIES)}"
    and "line \<in> set lines" "Search pattern line \<noteq> None"
  shows "case ProcessFileData env io Error filename file_extension lines [] st of
      Inr st' \<Rightarrow> recorded (unmuted (\<lambda>category linenum. category \<in> set categories)) st st' | Inl e \<Rightarrow> e = IndexError"
proof (rule muted_file)
  show "\<not> ''legal/copyright'' \<in> set categories"
    using assms(3) by (auto simp: DEFAULT_C_SUPPRESSED_CATEGORIES_def DEFAULT_KERNEL_SUPPRESSED_CATEGORIES_def)
  have "line \<in> set (with_markers lines)" using assms(4) by (simp add: with_markers_def)
  then show "muted (\<lambda>category linenum. category \<in> set categories) (ProcessGlobalSuppresions (with_markers lines) st)" for st
    using assms(3,5) by (auto simp: muted_def IsErrorSuppressedByNolint_def ProcessGlobalSuppresions_eq)
qed (use assms(1,2) in \<open>simp_all add: files_named_def\<close>)

theorem global_suppression_effective_witness:
  "case ProcessFileData \<lparr>cwd = ''/w'', path_exists = (\<lambda>p. False)\<rparr> (\<lambda>f. None) Error ''a.c'' ''c'' [''x = (int)y;'', ''// LINT_C_FILE'', []] []
       (lint_init CppLintState_init) of
      Inr st' \<Rightarrow> recorded (unmuted (\<lambda>category linenum. category \<in> set DEFAULT_C_SUPPRESSED_CATEGORIES)) (lint_init CppLintState_init) st'
    | Inl e \<Rightarrow> e = IndexError"
proof (rule global_suppression_effective [where line = "''// LINT_C_FILE''" and pattern = SEARCH_C_FILE])
  show "lint_inv (lint_init CppLintState_init)" by code_simp
  show "Search SEARCH_C_FILE ''// LINT_C_FILE'' \<noteq> None" by code_simp
qed (simp_all add: RepositoryName_def)

text \<open>C13. A NOLINT comment reaches every check: from the moment the line with the comment \<open>// NOLINT(category)\<close> (or
  \<open>// NOLINTNEXTLINE(category)\<close>) is reached, no check of that line or of any later one reports a failure of that category on the line
  (the next line), in any output format.\<close>

theorem nolint_line_effective:
  assumes "lint_inv st" "\<And>f. \<exists>name. RepositoryName env st f = Inr name" "nesting_ok n ns" "include_inv ist" "n < length lines"
    and "lines ! n = pre @ ''// NOLINT'' @ (if nxt then ''NEXTLINE'' else []) @ ''('' @ cat @ '')'' @ rest"
    and "cat \<in> set ERROR_CATEGORIES" "\<not> sublist ''NOLINT'' pre"
  shows "case process_lines env Error filename file_extension (CleansedLines lines) [] [n..<length lines] (ist, fs, ns) st of
      Inr (s, st') \<Rightarrow> recorded (unmuted (\<lambda>c l. c = cat \<and> l = Some (int n + (if nxt then 1 else 0)))) st st'
    | Inl e \<Rightarrow> e = IndexError"
proof -
  let ?Q = "\<lambda>c l. c = cat \<and> l = Some (int n + (if nxt then 1 else 0))"
  let ?st1 = "add_suppression (Some cat) (if nxt then int n + 1 else int n) st"
  let ?call = "\<lambda>st. process_lines env Error filename file_extension (CleansedLines lines) [] [n..<length lines] (ist, fs, ns) st"
  have "?call st = ?call ?st1"
    unfolding upt_conv_Cons [OF assms(5)]
    by (rule process_lines_nolint) (unfold CleansedLines_raw(1) assms(6), rule assms(5), rule nolint_adds [OF assms(7,8)])
  moreover have "muted_inv env ?Q st ?st1"
    using assms(1,2) files_named_repository [of ?st1 st env] recorded_none [of ?st1 st]
    by (auto simp: muted_inv_def muted_def add_suppression_covers files_named_def lint_inv_def)
      (simp_all add: add_suppression_def)
  from Muted.process_lines_outcome [OF assms(3,4) this less_imp_le [OF assms(5)], of filename "[]" file_extension fs]
  have "case ?call ?st1 of Inr (s, st') \<Rightarrow> muted_inv env ?Q st st' | Inl e \<Rightarrow> e = IndexError" by auto
  ultimately show ?thesis by (auto simp: muted_inv_def split: sum.splits)
qed

theorem nolint_line_effective_witness:
  "case process_lines \<lparr>cwd = ''/w'', path_exists = (\<lambda>p. False)\<rparr> Error ''a.cc'' ''cc'' (CleansedLines [''long x;  // NOLINT(runtime/int)'']) []
       [0..<length [''long x;  // NOLINT(runtime/int)'']]
       (IncludeState_init, FunctionState_init, NestingState_init) (lint_init CppLintState_init) of
      Inr (s, st') \<Rightarrow> recorded (unmuted (\<lambda>c l. c = ''runtime/int'' \<and> l = Some (int 0 + (if False then 1 else 0)))) (lint_init CppLintState_init) st'
    | Inl e \<Rightarrow> e = IndexError"
proof (rule nolint_line_effective [where pre = "''long x;  ''" and rest = "[]"])
  show "lint_inv (lint_init CppLintState_init)" "\<not> sublist ''NOLINT'' ''long x;  ''" by code_simp+
  show "nesting_ok 0 NestingState_init" by (simp add: nesting_ok_def NestingState_init_def)
qed (simp_all add: RepositoryName_def ERROR_CATEGORIES_def include_inv_init)

end
