(* ===== verification/Config_Files.thy ===== *)
theory Config_Files
  imports Include_Use
begin

text \<open>
  The configuration files of the linter (\<open>ProcessConfigOverrides\<close> of \<open>cpplint.py\<close>): from the directory of a file up to
  the root, each \<open>CPPLINT.cfg\<close> is read, and its options change the module's settings.
\<close>

section \<open>The file system\<close>

text \<open>
  What the driver asks the operating system: the lines of a file opened with \<open>open\<close>, as a configuration file is (with their
  line ends; None when it cannot be opened), and with \<open>codecs.open\<close>, as a header is; the decoded content of a file
  (None when it cannot be opened); what reading the standard input through \<open>codecs.StreamReaderWriter\<close> gives, the exception if it
  raises one (under Python 3 the wrapped stream holds text already, and reading it raises TypeError); the directories of a walk with
  their files, and the paths that a glob pattern expands to.
\<close>

record lint_env =
  os_of :: os_env
  path_isfile :: "string \<Rightarrow> bool"
  path_isdir :: "string \<Rightarrow> bool"
  open_lines :: reader
  codecs_lines :: reader
  read_text :: "string \<Rightarrow> string option"
  stdin_text :: "string py"
  walk :: "string \<Rightarrow> (string \<times> string list) list"
  glob_paths :: "string \<Rightarrow> string list"

section \<open>Numbers\<close>

text \<open>\<open>int(s)\<close>: white space around it, a sign, digits with single underscores between them.\<close>

definition digits_value :: "string \<Rightarrow> nat" where
  "digits_value = foldl (\<lambda>n c. 10 * n + (ord c - 48)) 0"

definition py_int :: "string \<Rightarrow> int option" where
  "py_int s =
     (let s = str_strip s;
          (sign, s) = (case s of [] \<Rightarrow> (1, s) | c # cs \<Rightarrow> if c = CHR ''-'' then (- 1, cs) else if c = CHR ''+'' then (1, cs) else (1, s));
          parts = str_split (CHR ''_'') s
      in if list_all (\<lambda>p. p \<noteq> [] \<and> list_all is_digit p) parts then Some (sign * int (digits_value (concat parts))) else None)"

section \<open>One configuration file\<close>

text \<open>The variables of the loop: the filters found, whether to go on, the module state.  \<open>Inl\<close> is the early return
  for an excluded file.\<close>

type_synonym config_state = "string list \<times> bool \<times> lint"

definition quoted :: "string \<Rightarrow> string" where
  "quoted s = [CHR 0x22] @ s @ [CHR 0x22]"

definition config_line :: "string \<Rightarrow> string \<Rightarrow> string \<Rightarrow> string \<Rightarrow> config_state \<Rightarrow> (lint + config_state) py" where
  "config_line filename cfg_file base_name line = (\<lambda>(cfg_filters, keep_looking, st).
     let line = fst (str_partition (CHR ''#'') line) in
     if str_strip line = [] then Inr (Inr (cfg_filters, keep_looking, st))
     else
       (let name = str_strip (fst (str_partition (CHR ''='') line));
            val = str_strip (snd (str_partition (CHR ''='') line))
        in if name = ''set noparent'' then Inr (Inr (cfg_filters, False, st))
           else if name = ''filter'' then Inr (Inr (cfg_filters @ [val], keep_looking, st))
           else if name = ''exclude_files'' then
             (if base_name \<noteq> [] then
                (case re_compile val of
                   None \<Rightarrow> Inl ReError
                 | Some pattern \<Rightarrow>
                     if re_match pattern base_name \<noteq> None then
                       (if quiet (lstate st) then Inr (Inl st)
                        else Inr (Inl (PrintInfo (''Ignoring '' @ quoted filename @ '': file excluded by '' @ quoted cfg_file @
                               ''. File path component '' @ quoted base_name @ '' matches pattern '' @ quoted val @ [newline]) st)))
                     else Inr (Inr (cfg_filters, keep_looking, st)))
              else Inr (Inr (cfg_filters, keep_looking, st)))
           else if name = ''linelength'' then
             (case py_int val of
                Some n \<Rightarrow> Inr (Inr (cfg_filters, keep_looking, st\<lparr>line_length := n\<rparr>))
              | None \<Rightarrow> Inr (Inr (cfg_filters, keep_looking, PrintError ''Line length must be numeric.'' st)))
           else if name = ''extensions'' then Inr (Inr (cfg_filters, keep_looking, ProcessExtensionsOption val st))
           else if name = ''root'' then
             Inr (Inr (cfg_filters, keep_looking, st\<lparr>root := Some (path_join2 (path_dirname cfg_file) val)\<rparr>))
           else if name = ''headers'' then Inr (Inr (cfg_filters, keep_looking, ProcessHppHeadersOption val st))
           else Inr (Inr (cfg_filters, keep_looking,
                  PrintError (''Invalid configuration option ('' @ name @ '') in file '' @ cfg_file @ [newline]) st))))"

fun config_lines :: "string \<Rightarrow> string \<Rightarrow> string \<Rightarrow> string list \<Rightarrow> config_state \<Rightarrow> (lint + config_state) py" where
  "config_lines filename cfg_file base_name [] s = Inr (Inr s)"
| "config_lines filename cfg_file base_name (line # ls) s =
     py_bind (config_line filename cfg_file base_name line s) (\<lambda>r.
       case r of Inl st \<Rightarrow> Inr (Inl st) | Inr s \<Rightarrow> config_lines filename cfg_file base_name ls s)"

section \<open>All configuration files\<close>

lemma path_split_shorter: "path_split p = (h, t) \<Longrightarrow> t \<noteq> [] \<Longrightarrow> length h < length p"
proof -
  assume a: "path_split p = (h, t)" "t \<noteq> []"
  have "length (path_head p) + length (path_tail p) = length p"
    unfolding path_head_def path_tail_def length_rev
    by (metis add.commute length_append length_rev takeWhile_dropWhile_id)
  moreover have "length (path_dirname p) \<le> length (path_head p)"
    by (auto simp: path_dirname_def Let_def str_rstrip_chars_def intro: le_trans [OF length_dropWhile_le])
  moreover have "0 < length (path_tail p)" using a by (simp add: path_split_def)
  ultimately have "length (path_dirname p) < length p" by linarith
  with a(1) show ?thesis by (simp add: path_split_def)
qed

function config_loop :: "lint_env \<Rightarrow> string \<Rightarrow> string \<Rightarrow> config_state \<Rightarrow> (lint + config_state) py" where
  "config_loop env filename abs_filename (cfg_filters, keep_looking, st) =
     (if \<not> keep_looking then Inr (Inr (cfg_filters, keep_looking, st))
      else
        (case path_split abs_filename of (abs_path, base_name) \<Rightarrow>
           if base_name = [] then Inr (Inr (cfg_filters, keep_looking, st))
           else
             (let cfg_file = path_join2 abs_path ''CPPLINT.cfg'' in
              if \<not> path_isfile env cfg_file then config_loop env filename abs_path (cfg_filters, keep_looking, st)
              else
                (case open_lines env cfg_file of
                   None \<Rightarrow> config_loop env filename abs_path (cfg_filters, False,
                             PrintError (''Skipping config file '' @ [CHR 0x27] @ cfg_file @ [CHR 0x27] @ '': Can'' @ [CHR 0x27] @
                               ''t open for reading'' @ [newline]) st)
                 | Some ls \<Rightarrow>
                     (case config_lines filename cfg_file base_name ls (cfg_filters, keep_looking, st) of
                        Inl e \<Rightarrow> Inl e
                      | Inr (Inl st) \<Rightarrow> Inr (Inl st)
                      | Inr (Inr s) \<Rightarrow> config_loop env filename abs_path s)))))"
  by pat_completeness auto
termination
  by (relation "measure (\<lambda>(env, filename, abs_filename, s). length abs_filename)") (auto dest: path_split_shorter [OF sym])

declare config_loop.simps [simp del]

text \<open>The filters are added in reverse order.\<close>

fun add_cfg_filters :: "string list \<Rightarrow> action" where
  "add_cfg_filters [] st = Inr st"
| "add_cfg_filters (cfg_filter # cfg_filters) st =
     py_bind (AddFilters cfg_filter (lstate st)) (\<lambda>s. add_cfg_filters cfg_filters (st\<lparr>lstate := s\<rparr>))"

definition ProcessConfigOverrides :: "lint_env \<Rightarrow> string \<Rightarrow> lint \<Rightarrow> (bool \<times> lint) py" where
  "ProcessConfigOverrides env filename st =
     py_bind (config_loop env filename (path_abspath (os_of env) filename) ([], True, st)) (\<lambda>r.
       case r of
         Inl st \<Rightarrow> Inr (False, st)
       | Inr (cfg_filters, keep_looking, st) \<Rightarrow>
           py_bind (add_cfg_filters (rev cfg_filters) st) (\<lambda>st. Inr (True, st)))"

section \<open>Outcome\<close>

text \<open>What the configuration files cannot change.\<close>

definition config_frame :: "lint \<Rightarrow> lint \<Rightarrow> bool" where
  "config_frame st st' =
     (filters (lstate st') = filters (lstate st) \<and> filters_backup (lstate st') = filters_backup (lstate st) \<and>
      counting (lstate st') = counting (lstate st) \<and> error_count (lstate st') = error_count (lstate st) \<and>
      errors_by_category (lstate st') = errors_by_category (lstate st) \<and>
      verbose_level (lstate st') = verbose_level (lstate st) \<and> quiet (lstate st') = quiet (lstate st) \<and>
      output_format (lstate st') = output_format (lstate st) \<and> junit_failures (lstate st') = junit_failures (lstate st) \<and>
      repository st' = repository st \<and> module_quiet st' = module_quiet st \<and> prefix (stderr st) (stderr st'))"

lemma config_frame_refl [simp]: "config_frame st st"
  by (simp add: config_frame_def)

lemma config_frame_trans: "config_frame a b \<Longrightarrow> config_frame b c \<Longrightarrow> config_frame a c"
  using prefix_order.trans [of "stderr a" "stderr b" "stderr c"] by (simp add: config_frame_def)

lemma config_frame_print [simp]: "config_frame st (PrintInfo m st)" "config_frame st (PrintError m st)"
  by (simp_all add: config_frame_def PrintInfo_def PrintError_def stderr_write_def)

lemma config_frame_settings [simp]:
  "config_frame st (st\<lparr>line_length := n\<rparr>)" "config_frame st (st\<lparr>root := r\<rparr>)"
  "config_frame st (ProcessExtensionsOption v st)" "config_frame st (ProcessHppHeadersOption v st)"
  by (simp_all add: config_frame_def ProcessExtensionsOption_def ProcessHppHeadersOption_def)

text \<open>The state at the end of a step of the climb, whichever way it ends.\<close>

definition config_ok :: "lint \<Rightarrow> (lint + config_state) py \<Rightarrow> bool" where
  "config_ok st r =
     (case r of
        Inl e \<Rightarrow> e = ReError
      | Inr (Inl st') \<Rightarrow> config_frame st st'
      | Inr (Inr (cfg_filters, keep_looking, st')) \<Rightarrow> config_frame st st')"

lemma config_ok_simps [simp]:
  "config_ok st (Inl e) \<longleftrightarrow> e = ReError" "config_ok st (Inr (Inl st')) \<longleftrightarrow> config_frame st st'"
  "config_ok st (Inr (Inr (cfg_filters, keep_looking, st'))) \<longleftrightarrow> config_frame st st'"
  by (simp_all add: config_ok_def)

lemma config_ok_trans: "config_ok st1 r \<Longrightarrow> config_frame st st1 \<Longrightarrow> config_ok st r"
  by (auto simp: config_ok_def split: sum.splits intro: config_frame_trans)

lemma config_line_ok: "config_ok st (config_line filename cfg_file base_name line (cfg_filters, keep_looking, st))"
  unfolding config_line_def prod.case Let_def config_ok_def by (simp split: option.split)

lemma config_lines_ok: "config_ok st (config_lines filename cfg_file base_name ls (cfg_filters, keep_looking, st))"
proof (induction ls arbitrary: cfg_filters keep_looking st)
  case Nil
  then show ?case by (simp add: config_ok_def)
next
  case (Cons l ls)
  note l = config_line_ok [of st filename cfg_file base_name l cfg_filters keep_looking]
  show ?case
  proof (cases "config_line filename cfg_file base_name l (cfg_filters, keep_looking, st)")
    case (Inr r)
    show ?thesis
    proof (cases r)
      case (Inr s)
      obtain fs k st1 where s: "s = (fs, k, st1)" by (cases s)
      with l Inr \<open>config_line _ _ _ _ _ = Inr r\<close> have "config_frame st st1" by (simp add: config_ok_def)
      with config_ok_trans [OF Cons] show ?thesis using Inr \<open>config_line _ _ _ _ _ = Inr r\<close> by (simp add: s)
    qed (use l Inr in \<open>simp add: config_ok_def\<close>)
  qed (use l in \<open>simp add: config_ok_def\<close>)
qed

lemma config_loop_ok: "config_ok st (config_loop env filename p (cfg_filters, keep_looking, st))"
proof (induction "length p" arbitrary: p cfg_filters keep_looking st rule: less_induct)
  case less
  obtain h t where ht: "path_split p = (h, t)" by fastforce
  show ?case
  proof (cases "keep_looking \<and> t \<noteq> []")
    case False
    then show ?thesis by (subst config_loop.simps) (auto simp: ht config_ok_def)
  next
    case True
    with path_split_shorter [OF ht] have shorter: "length h < length p" by simp
    let ?c = "path_join2 h ''CPPLINT.cfg''"
    note ih = less [OF shorter]
    have step: "config_ok st (config_loop env filename h (fs, k, st'))" if "config_frame st st'" for fs k st'
      using config_ok_trans [OF ih that] .
    note l = config_lines_ok [of st filename ?c t _ cfg_filters keep_looking]
    show ?thesis
    proof (cases "path_isfile env ?c")
      case False
      with True step show ?thesis by (subst config_loop.simps) (simp add: ht)
    next
      case cfg: True
      show ?thesis
      proof (cases "open_lines env ?c")
        case None
        with True cfg step show ?thesis by (subst config_loop.simps) (simp add: ht)
      next
        case (Some ls)
        with l [of ls] True cfg step show ?thesis
          by (subst config_loop.simps) (auto simp: ht split: sum.split)
      qed
    qed
  qed
qed

lemma add_cfg_filters_ok:
  assumes "list_all filter_ok (filters (lstate st))"
  shows "case add_cfg_filters fs st of
      Inr st' \<Rightarrow> \<exists>more. st' = st\<lparr>lstate := (lstate st)\<lparr>filters := filters (lstate st) @ more\<rparr>\<rparr> \<and> list_all filter_ok (filters (lstate st'))
    | Inl e \<Rightarrow> \<exists>m. e = ValueError m"
  using assms
proof (induction fs arbitrary: st)
  case Nil
  then show ?case by (auto intro!: exI [of _ "[]"])
next
  case (Cons f fs)
  show ?case
  proof (cases "AddFilters f (lstate st)")
    case (Inl e)
    then show ?thesis by (auto simp: AddFilters_def Let_def split: option.splits)
  next
    case (Inr s)
    from AddFilters_Inr [OF Inr] obtain more where s: "s = (lstate st)\<lparr>filters := filters (lstate st) @ more\<rparr>" "list_all filter_ok (filters s)"
      by blast
    from Cons.IH [of "st\<lparr>lstate := s\<rparr>"] s show ?thesis by (auto simp: Inr split: sum.split)
  qed
qed

text \<open>The configuration of a file, whatever the files contain.\<close>

lemma ProcessConfigOverrides_ok:
  assumes "lint_inv st"
  shows "case ProcessConfigOverrides env filename st of
      Inr (go, st') \<Rightarrow> lint_inv st' \<and> (\<exists>st1 more. config_frame st st1 \<and> st' = st1\<lparr>lstate := (lstate st1)\<lparr>filters := filters (lstate st1) @ more\<rparr>\<rparr>)
    | Inl e \<Rightarrow> e = ReError \<or> (\<exists>m. e = ValueError m)"
proof -
  let ?p = "path_abspath (os_of env) filename"
  note ok = config_loop_ok [of st env filename ?p "[]" True]
  have inv: "lint_inv st1" if "config_frame st st1" for st1
    using assms that by (auto simp: lint_inv_def counts_ok_def count_total_def config_frame_def)
  show ?thesis
  proof (cases "config_loop env filename ?p ([], True, st)")
    case (Inl e)
    with ok show ?thesis by (simp add: ProcessConfigOverrides_def)
  next
    case (Inr r)
    show ?thesis
    proof (cases r)
      case (Inl st1)
      with ok Inr inv show ?thesis
        by (auto simp: ProcessConfigOverrides_def \<open>config_loop _ _ _ _ = Inr r\<close> intro!: exI [of _ st1] exI [of _ "[]"])
    next
      case (Inr s)
      obtain fs k st1 where s: "s = (fs, k, st1)" by (cases s)
      with ok Inr \<open>config_loop _ _ _ _ = Inr r\<close> have f: "config_frame st st1" by simp
      from inv [OF f] have "list_all filter_ok (filters (lstate st1))" "counts_ok (lstate st1)" by (simp_all add: lint_inv_def)
      with add_cfg_filters_ok [of st1 "rev fs"] f show ?thesis
        by (auto simp: ProcessConfigOverrides_def \<open>config_loop _ _ _ _ = Inr r\<close> Inr s lint_inv_def frame split: sum.splits)
    qed
  qed
qed

section \<open>Which configuration file decides\<close>

text \<open>The places of the configuration files of a file, from its own directory up to the root.\<close>

function config_chain :: "string \<Rightarrow> string list" where
  "config_chain p =
     (case path_split p of (abs_path, base_name) \<Rightarrow>
        if base_name = [] then [] else path_join2 abs_path ''CPPLINT.cfg'' # config_chain abs_path)"
  by pat_completeness auto
termination
  by (relation "measure length") (auto dest: path_split_shorter [OF sym])

declare config_chain.simps [simp del]

lemma str_strip_id: "s \<noteq> [] \<Longrightarrow> \<not> is_space (hd s) \<Longrightarrow> \<not> is_space (last s) \<Longrightarrow> str_strip s = s"
  by (cases s) (auto simp: str_strip_def str_lstrip_def str_rstrip_def dropWhile_eq_self_iff hd_append hd_rev split: if_splits)

lemma str_of_nat_digits: "str_of_nat n \<noteq> [] \<and> list_all is_digit (str_of_nat n) \<and> digits_value (str_of_nat n) = n"
proof (induction n rule: str_of_nat.induct)
  case (1 n)
  have o: "ord (char_of (48 + m)) = 48 + m" if "m < 10" for m :: nat using that by (simp add: ord_def)
  have d: "is_digit (char_of (48 + m))" if "m < 10" for m :: nat using o [OF that] that by (simp add: is_digit_def Let_def)
  show ?case
  proof (cases "n < 10")
    case True
    with o [of n] d [of n] show ?thesis by (simp add: str_of_nat.simps [of n] digits_value_def)
  next
    case False
    from 1 [OF False] o [of "n mod 10"] d [of "n mod 10"] False show ?thesis
      by (simp add: str_of_nat.simps [of n] digits_value_def)
  qed
qed

lemma no_space_strip: "list_all (\<lambda>c. \<not> is_space c) s \<Longrightarrow> str_strip s = s"
  by (cases "s = []") (simp add: str_strip_def str_lstrip_def str_rstrip_def, rule str_strip_id, auto simp: list_all_iff)

lemma line_end_strip: "list_all (\<lambda>c. \<not> is_space c) s \<Longrightarrow> str_strip (s @ [newline]) = s"
proof (cases "s = []")
  case True
  have "str_strip [newline] = []" by code_simp
  with True show ?thesis by simp
next
  case False
  assume "list_all (\<lambda>c. \<not> is_space c) s"
  with False have "\<not> is_space (hd s)" "\<not> is_space (last s)" by (auto simp: list_all_iff)
  moreover have "is_space newline" by code_simp
  ultimately show ?thesis
    using False by (cases s) (auto simp: str_strip_def str_lstrip_def str_rstrip_def dropWhile_eq_self_iff hd_append hd_rev split: if_splits)
qed

lemma digit_char: "is_digit c \<Longrightarrow> \<not> is_space c \<and> c \<noteq> CHR ''#'' \<and> c \<noteq> CHR ''_'' \<and> c \<noteq> CHR ''-'' \<and> c \<noteq> CHR ''+''"
  by (auto simp: is_digit_def is_space_def ord_def Let_def)

lemma py_int_of_nat: "py_int (str_of_nat n) = Some (int n)"
proof -
  let ?s = "str_of_nat n"
  note d = str_of_nat_digits [of n]
  have "str_strip ?s = ?s" using d by (intro no_space_strip) (auto simp: list_all_iff dest: digit_char)
  moreover have "str_split (CHR ''_'') ?s = [?s]" using d by (intro str_split_none) (auto simp: list_all_iff dest: digit_char)
  moreover obtain c cs where c: "?s = c # cs" using d by (cases ?s) auto
  then have "c \<noteq> CHR ''-''" "c \<noteq> CHR ''+''" using d by (auto dest: digit_char)
  ultimately show ?thesis using d by (simp add: py_int_def Let_def c)
qed

text \<open>An option line without a comment.\<close>

lemma config_option:
  assumes "list_all (\<lambda>c. c \<noteq> CHR ''#'') (n @ v)" "list_all (\<lambda>c. c \<noteq> CHR ''='') n" "n \<noteq> []" "\<not> is_space (hd n)"
  shows "fst (str_partition (CHR ''#'') (n @ ''='' @ v)) = n @ ''='' @ v" "str_partition (CHR ''='') (n @ ''='' @ v) = (n, v)"
    "str_strip (n @ ''='' @ v) \<noteq> []"
proof -
  show "fst (str_partition (CHR ''#'') (n @ ''='' @ v)) = n @ ''='' @ v"
    using assms(1) by (simp add: str_partition_def takeWhile_eq_all_conv list_all_iff)
  show "str_partition (CHR ''='') (n @ ''='' @ v) = (n, v)"
    using assms(2) by (simp add: str_partition_def takeWhile_append dropWhile_append list_all_iff)
  have "str_lstrip (n @ ''='' @ v) = n @ ''='' @ v" using assms(3,4) by (cases n) (simp_all add: str_lstrip_def)
  then show "str_strip (n @ ''='' @ v) \<noteq> []"
    using assms(3,4) by (auto simp: str_strip_def str_rstrip_def dropWhile_eq_Nil_conv)
qed

lemma config_line_length:
  "config_line filename cfg_file base_name (''linelength='' @ str_of_nat n @ [newline]) (fs, k, st) = Inr (Inr (fs, k, st\<lparr>line_length := int n\<rparr>))"
proof -
  note d = str_of_nat_digits [of n]
  have "list_all (\<lambda>c. c \<noteq> CHR ''#'') (str_of_nat n)" "list_all (\<lambda>c. \<not> is_space c) (str_of_nat n)"
    using d digit_char by (auto simp: list_all_iff)
  note v = this(1) line_end_strip [OF this(2)]
  have sp: "\<not> is_space (hd ''linelength'')" "str_strip ''linelength'' = ''linelength''" by code_simp+
  have a: "list_all (\<lambda>c. c \<noteq> CHR ''='') ''linelength''" "''linelength'' \<noteq> []" by simp_all
  have "list_all (\<lambda>c. c \<noteq> CHR ''#'') (''linelength'' @ str_of_nat n @ [newline])" using v(1) by (simp add: newline_def)
  note o = config_option [OF this a sp(1)]
  have e: "''linelength='' @ str_of_nat n @ [newline] = ''linelength'' @ ''='' @ str_of_nat n @ [newline]" by simp
  show ?thesis
    unfolding config_line_def prod.case Let_def e o(1,2) fst_conv snd_conv sp(2) v(2) py_int_of_nat option.case if_not_P [OF o(3)] by simp
qed

definition plain_filter :: "string \<Rightarrow> bool" where
  "plain_filter f = (filter_ok f \<and> list_all (\<lambda>c. \<not> is_space c \<and> c \<noteq> CHR ''#'' \<and> c \<noteq> CHR '','') f)"

lemma config_line_filter:
  assumes "plain_filter f"
  shows "config_line filename cfg_file base_name (''filter='' @ f @ [newline]) (fs, k, st) = Inr (Inr (fs @ [f], k, st))"
proof -
  have "list_all (\<lambda>c. c \<noteq> CHR ''#'') f" "list_all (\<lambda>c. \<not> is_space c) f"
    using assms by (auto simp: plain_filter_def list_all_iff)
  note v = this(1) line_end_strip [OF this(2)]
  have sp: "\<not> is_space (hd ''filter'')" "str_strip ''filter'' = ''filter''" by code_simp+
  have a: "list_all (\<lambda>c. c \<noteq> CHR ''='') ''filter''" "''filter'' \<noteq> []" by simp_all
  have "list_all (\<lambda>c. c \<noteq> CHR ''#'') (''filter'' @ f @ [newline])" using v(1) by (simp add: newline_def)
  note o = config_option [OF this a sp(1)]
  have e: "''filter='' @ f @ [newline] = ''filter'' @ ''='' @ f @ [newline]" by simp
  show ?thesis
    unfolding config_line_def prod.case Let_def e o(1,2) fst_conv snd_conv sp(2) v(2) if_not_P [OF o(3)] by simp
qed

lemma config_loop_chain:
  assumes "\<forall>c \<in> set (config_chain p). path_isfile env c \<longrightarrow>
      open_lines env c = Some [''linelength='' @ str_of_nat (len c) @ [newline], ''filter='' @ flt c @ [newline]] \<and> plain_filter (flt c)"
  shows "let found = List.filter (path_isfile env) (config_chain p) in
    \<exists>k. config_loop env filename p (fs, True, st) =
      Inr (Inr (fs @ map flt found, k, st\<lparr>line_length := (if found = [] then line_length st else int (len (last found)))\<rparr>))"
  using assms
proof (induction p arbitrary: fs st rule: config_chain.induct)
  case (1 p)
  obtain h t where ht: "path_split p = (h, t)" by fastforce
  show ?case
  proof (cases "t = []")
    case True
    then have "config_chain p = []" "config_loop env filename p (fs, True, st) = Inr (Inr (fs, True, st))"
      by (simp_all add: config_chain.simps [of p] config_loop.simps ht)
    then show ?thesis by (auto simp: Let_def)
  next
    case False
    let ?c = "path_join2 h ''CPPLINT.cfg''"
    have chain: "config_chain p = ?c # config_chain h" by (subst config_chain.simps) (simp add: ht False)
    from "1.prems" have tail: "\<forall>c \<in> set (config_chain h). path_isfile env c \<longrightarrow>
      open_lines env c = Some [''linelength='' @ str_of_nat (len c) @ [newline], ''filter='' @ flt c @ [newline]] \<and> plain_filter (flt c)"
      unfolding chain by simp
    note ih = "1.IH" [OF ht [symmetric] False tail]
    show ?thesis
    proof (cases "path_isfile env ?c")
      case out: False
      then have "config_loop env filename p (fs, True, st) = config_loop env filename h (fs, True, st)"
        by (subst config_loop.simps) (simp add: ht False)
      with ih [of fs st] show ?thesis unfolding chain Let_def filter.simps if_not_P [OF out] by (simp only: )
    next
      case cfg: True
      with "1.prems" have ls: "open_lines env ?c = Some [''linelength='' @ str_of_nat (len ?c) @ [newline], ''filter='' @ flt ?c @ [newline]]"
        and pf: "plain_filter (flt ?c)" unfolding chain by auto
      have "config_lines filename ?c t [''linelength='' @ str_of_nat (len ?c) @ [newline], ''filter='' @ flt ?c @ [newline]] (fs, True, st) =
          Inr (Inr (fs @ [flt ?c], True, st\<lparr>line_length := int (len ?c)\<rparr>))"
        by (simp only: config_lines.simps config_line_length config_line_filter [OF pf] py_bind.simps sum.case)
      then have "config_loop env filename p (fs, True, st) =
          config_loop env filename h (fs @ [flt ?c], True, st\<lparr>line_length := int (len ?c)\<rparr>)"
        using cfg ls by (subst config_loop.simps) (simp add: ht False Let_def del: config_lines.simps)
      with ih [of "fs @ [flt ?c]" "st\<lparr>line_length := int (len ?c)\<rparr>"] cfg show ?thesis
        unfolding chain Let_def by (cases "List.filter (path_isfile env) (config_chain h) = []") simp_all
    qed
  qed
qed

lemma AddFilters_plain:
  assumes "plain_filter f" "list_all filter_ok (filters s)"
  shows "AddFilters f s = Inr (s\<lparr>filters := filters s @ [f]\<rparr>)"
proof -
  have "list_all (\<lambda>c. \<not> is_space c) f" "CHR '','' \<notin> set f" and ok: "filter_ok f"
    using assms(1) by (auto simp: plain_filter_def list_all_iff)
  moreover have "f \<noteq> []" using ok by (auto simp: filter_ok_cases)
  ultimately have "filter (\<lambda>f. f \<noteq> []) (map str_strip (str_split (CHR '','') f)) = [f]"
    by (simp add: str_split_none no_space_strip)
  moreover have "List.find (\<lambda>f. \<not> filter_ok f) (filters s @ [f]) = None"
    using assms(2) ok by (auto simp: find_None_iff list_all_iff)
  ultimately show ?thesis by (simp add: AddFilters_def Let_def)
qed

lemma add_cfg_filters_plain:
  "list_all plain_filter fs \<Longrightarrow> list_all filter_ok (filters (lstate st)) \<Longrightarrow>
   add_cfg_filters fs st = Inr (st\<lparr>lstate := (lstate st)\<lparr>filters := filters (lstate st) @ fs\<rparr>\<rparr>)"
proof (induction fs arbitrary: st)
  case (Cons f fs)
  then have "filter_ok f" by (simp add: plain_filter_def)
  with Cons show ?case by (simp add: AddFilters_plain)
qed simp

text \<open>Two nested configuration files.\<close>

definition two_configs :: lint_env where
  "two_configs = \<lparr>os_of = \<lparr>cwd = ''/w'', path_exists = (\<lambda>p. False)\<rparr>,
     path_isfile = (\<lambda>p. p = ''/w/CPPLINT.cfg'' \<or> p = ''/w/s/CPPLINT.cfg''), path_isdir = (\<lambda>p. False),
     open_lines = (\<lambda>p. Some (if p = ''/w/CPPLINT.cfg'' then [''linelength=100'' @ [newline], ''filter=-build'' @ [newline]]
       else [''linelength=90'' @ [newline], ''filter=+build'' @ [newline]])),
     codecs_lines = (\<lambda>p. None), read_text = (\<lambda>p. None), stdin_text = Inl TypeError, walk = (\<lambda>p. []), glob_paths = (\<lambda>p. [])\<rparr>"

section \<open>Properties\<close>

text \<open>Reading the configuration ends for every file and every file system.  It raises nothing but the error for
  an invalid pattern and ValueError for an invalid filter; otherwise the error state is consistent, and counts, filters set
  before, verbosity, output format and repository are as they were: filters are only added behind.\<close>

theorem config_overrides_outcome:
  assumes "lint_inv st"
  shows "case ProcessConfigOverrides env filename st of
      Inr (go, st') \<Rightarrow> lint_inv st' \<and> (\<exists>st1 more. config_frame st st1 \<and> st' = st1\<lparr>lstate := (lstate st1)\<lparr>filters := filters (lstate st1) @ more\<rparr>\<rparr>)
    | Inl e \<Rightarrow> e = ReError \<or> (\<exists>m. e = ValueError m)"
  by (rule ProcessConfigOverrides_ok [OF assms])

theorem config_overrides_outcome_witness:
  "case ProcessConfigOverrides two_configs ''s/a.cc'' (lint_init CppLintState_init) of
      Inr (go, st') \<Rightarrow> lint_inv st' \<and> (\<exists>st1 more. config_frame (lint_init CppLintState_init) st1 \<and>
         st' = st1\<lparr>lstate := (lstate st1)\<lparr>filters := filters (lstate st1) @ more\<rparr>\<rparr>)
    | Inl e \<Rightarrow> e = ReError \<or> (\<exists>m. e = ValueError m)"
  by (rule config_overrides_outcome) code_simp

text \<open>C12. Which configuration file decides.  When each \<open>CPPLINT.cfg\<close> above a file holds two lines, one that sets a line length and one that adds
  a filter, the filters are added from the outermost directory to the innermost, so that the innermost decides (the last filter that
  matches does).  The line length is the one of the outermost file: the nested
  file does not override it, although the usage text says that a nested configuration file overrides.\<close>

theorem config_precedence:
  assumes "list_all filter_ok (filters (lstate st))"
    and "\<forall>c \<in> set (config_chain (path_abspath (os_of env) filename)). path_isfile env c \<longrightarrow>
      open_lines env c = Some [''linelength='' @ str_of_nat (len c) @ [newline], ''filter='' @ flt c @ [newline]] \<and> plain_filter (flt c)"
  shows "let found = List.filter (path_isfile env) (config_chain (path_abspath (os_of env) filename)) in
    ProcessConfigOverrides env filename st =
      Inr (True, st\<lparr>line_length := (if found = [] then line_length st else int (len (last found))),
        lstate := (lstate st)\<lparr>filters := filters (lstate st) @ rev (map flt found)\<rparr>\<rparr>)"
proof -
  let ?found = "List.filter (path_isfile env) (config_chain (path_abspath (os_of env) filename))"
  let ?st = "st\<lparr>line_length := (if ?found = [] then line_length st else int (len (last ?found)))\<rparr>"
  from config_loop_chain [OF assms(2), of filename "[]" st] obtain k where
    k: "config_loop env filename (path_abspath (os_of env) filename) ([], True, st) = Inr (Inr (map flt ?found, k, ?st))"
    by (auto simp: Let_def)
  have "list_all plain_filter (rev (map flt ?found))" using assms(2) by (auto simp: list_all_iff)
  from add_cfg_filters_plain [OF this, of ?st] assms(1) k show ?thesis
    by (simp add: ProcessConfigOverrides_def Let_def)
qed

theorem config_precedence_witness:
  "ProcessConfigOverrides two_configs ''s/a.cc'' (lint_init CppLintState_init) =
     Inr (True, (lint_init CppLintState_init)\<lparr>line_length := 100,
       lstate := CppLintState_init\<lparr>filters := [''-build/include_alpha'', ''-build'', ''+build'']\<rparr>\<rparr>)"
proof -
  let ?len = "\<lambda>c. if c = ''/w/CPPLINT.cfg'' then 100 else 90 :: nat" and ?flt = "\<lambda>c. if c = ''/w/CPPLINT.cfg'' then ''-build'' else ''+build''"
  let ?chain = "[''/w/s/CPPLINT.cfg'', ''/w/CPPLINT.cfg'', ''/CPPLINT.cfg'']"
  have chain: "config_chain (path_abspath (os_of two_configs) ''s/a.cc'') = ?chain" by code_simp
  have found: "List.filter (path_isfile two_configs) ?chain = [''/w/s/CPPLINT.cfg'', ''/w/CPPLINT.cfg'']" by code_simp
  have ok: "list_all filter_ok (filters (lstate (lint_init CppLintState_init)))" by code_simp
  have "list_all (\<lambda>c. path_isfile two_configs c \<longrightarrow>
      open_lines two_configs c = Some [''linelength='' @ str_of_nat (?len c) @ [newline], ''filter='' @ ?flt c @ [newline]] \<and> plain_filter (?flt c)) ?chain"
    by code_simp
  then have "\<forall>c \<in> set (config_chain (path_abspath (os_of two_configs) ''s/a.cc'')). path_isfile two_configs c \<longrightarrow>
      open_lines two_configs c = Some [''linelength='' @ str_of_nat (?len c) @ [newline], ''filter='' @ ?flt c @ [newline]] \<and> plain_filter (?flt c)"
    unfolding chain list_all_iff .
  from config_precedence [OF ok this] show ?thesis
    unfolding chain found Let_def by (simp add: lint_init_def CppLintState_init_def DEFAULT_FILTERS_def)
qed

end
