(* ===== verification/JUnit_Report.thy ===== *)
theory JUnit_Report
  imports Lint_State "HOL-Library.Multiset"
begin

text \<open>
  The JUnit report of the linter (\<open>_CppLintState.FormatJUnitXML\<close>): failures grouped by file, as an XML
  document.  The element tree and its serialization are those of \<open>xml.etree.ElementTree\<close>.
\<close>

section \<open>Elements\<close>

datatype xml_element = Element (tag: string) (attrib: "(string \<times> string) list") (text_of: string) (children: "xml_element list")

text \<open>Each character is replaced at most once, so the replacements that the library makes one after the
  other are one pass: the ampersand is the first.\<close>

definition escape_cdata :: "string \<Rightarrow> string" where
  "escape_cdata s = str_replace (str_replace (str_replace s ''&'' ''&amp;'') ''<'' ''&lt;'') ''>'' ''&gt;''"

definition escape_attrib :: "string \<Rightarrow> string" where
  "escape_attrib s =
     str_replace (str_replace (str_replace (str_replace (escape_cdata s)
       [CHR 0x22] ''&quot;'') [CHR 0x0D] ''&#13;'') [newline] ''&#10;'') [CHR 0x09] ''&#09;''"

fun serialize_xml :: "xml_element \<Rightarrow> string" where
  "serialize_xml (Element t attrs txt cs) =
     ''<'' @ t @ concat (map (\<lambda>(k, v). '' '' @ k @ [CHR ''='', CHR 0x22] @ escape_attrib v @ [CHR 0x22]) attrs) @
     (if txt \<noteq> [] \<or> cs \<noteq> []
      then ''>'' @ escape_cdata txt @ concat (map serialize_xml cs) @ ''</'' @ t @ ''>''
      else '' />'')"

section \<open>The report\<close>

type_synonym junit_failure = "string \<times> int option \<times> string \<times> string \<times> int"

text \<open>The loop that groups the failures: the files in the order of their first failure, and the failures of each.\<close>

definition group_step :: "junit_failure \<Rightarrow> string list \<times> (string \<times> junit_failure list) list \<Rightarrow>
    string list \<times> (string \<times> junit_failure list) list" where
  "group_step failure = (\<lambda>(failed_file_order, failures_by_file).
     let failed_file = fst failure;
         (failed_file_order, failures_by_file) =
           (if failed_file \<notin> set failed_file_order
            then (failed_file_order @ [failed_file], AList.update failed_file [] failures_by_file)
            else (failed_file_order, failures_by_file))
     in (failed_file_order,
         AList.update failed_file (the (map_of failures_by_file failed_file) @ [failure]) failures_by_file))"

definition failure_text :: "junit_failure \<Rightarrow> string" where
  "failure_text = (\<lambda>(filename, linenum, message, category, confidence).
     show_linenum linenum @ '': '' @ message @ '' ['' @ category @ ''] ['' @ str_of_int confidence @ '']'')"

definition failure_testcases :: "junit_failure list \<Rightarrow> xml_element list" where
  "failure_testcases fs =
     (case fold group_step fs ([], []) of
        (failed_file_order, failures_by_file) \<Rightarrow>
          map (\<lambda>failed_file.
            Element ''testcase'' [(''name'', failed_file)] []
              [Element ''failure'' [] (str_join [newline] (map failure_text (the (map_of failures_by_file failed_file)))) []])
            failed_file_order)"

definition junit_testsuite :: "cpplint_state \<Rightarrow> xml_element" where
  "junit_testsuite s =
     (let num_errors = length (junit_errors s); num_failures = length (junit_failures s);
          counts = [(''name'', ''cpplint''), (''errors'', str_of_nat num_errors), (''failures'', str_of_nat num_failures)]
      in if num_errors = 0 \<and> num_failures = 0 then
           Element ''testsuite'' (counts @ [(''tests'', str_of_nat 1)]) [] [Element ''testcase'' [(''name'', ''passed'')] [] []]
         else
           Element ''testsuite'' (counts @ [(''tests'', str_of_nat (num_errors + num_failures))]) []
             ((if num_errors > 0
               then [Element ''testcase'' [(''name'', ''errors'')] []
                       [Element ''error'' [] (str_join [newline] (junit_errors s)) []]]
               else []) @
              (if num_failures > 0 then failure_testcases (junit_failures s) else [])))"

definition FormatJUnitXML :: "cpplint_state \<Rightarrow> string" where
  "FormatJUnitXML s =
     ''<?xml version='' @ [CHR 0x22] @ ''1.0'' @ [CHR 0x22] @ '' encoding='' @ [CHR 0x22] @ ''UTF-8'' @ [CHR 0x22] @ '' ?>'' @
     [newline] @ serialize_xml (junit_testsuite s)"

section \<open>Grouping\<close>

text \<open>The files in the order of their first failure.\<close>

definition files_in_order :: "junit_failure list \<Rightarrow> string list" where
  "files_in_order fs = rev (remdups (rev (map fst fs)))"

lemma set_files_in_order [simp]: "set (files_in_order fs) = fst ` set fs"
  by (simp add: files_in_order_def)

lemma files_in_order_snoc:
  "files_in_order (fs @ [x]) = (if fst x \<in> fst ` set fs then files_in_order fs else files_in_order fs @ [fst x])"
  by (simp add: files_in_order_def)

lemma fold_group_step:
  "fst (fold group_step fs ([], [])) = files_in_order fs \<and>
   map_of (snd (fold group_step fs ([], []))) = (\<lambda>f. if f \<in> fst ` set fs then Some (filter (\<lambda>x. fst x = f) fs) else None)"
proof (induction fs rule: rev_induct)
  case (snoc x fs)
  obtain order d where e: "fold group_step fs ([], []) = (order, d)" by fastforce
  with snoc have o: "order = files_in_order fs"
    and d: "map_of d = (\<lambda>f. if f \<in> fst ` set fs then Some (filter (\<lambda>x. fst x = f) fs) else None)" by simp_all
  have none: "filter (\<lambda>y. fst y = fst x) fs = []" if "fst x \<notin> fst ` set fs" using that by (metis (mono_tags, lifting) filter_False image_eqI)
  show ?case
  proof -
    have f: "fold group_step (fs @ [x]) ([], []) = group_step x (order, d)" by (simp add: e)
    show ?thesis
      unfolding f using none by (auto simp: o group_step_def files_in_order_snoc Let_def update_conv' d fun_eq_iff)
  qed
qed (auto simp: files_in_order_def)

lemma failure_testcases_eq:
  "failure_testcases fs = map (\<lambda>f. Element ''testcase'' [(''name'', f)] []
     [Element ''failure'' [] (str_join [newline] (map failure_text (filter (\<lambda>x. fst x = f) fs))) []]) (files_in_order fs)"
proof -
  obtain order d where e: "fold group_step fs ([], []) = (order, d)" by fastforce
  with fold_group_step [of fs] have "order = files_in_order fs"
    "map_of d = (\<lambda>f. if f \<in> fst ` set fs then Some (filter (\<lambda>x. fst x = f) fs) else None)" by simp_all
  then show ?thesis by (simp add: failure_testcases_def e)
qed

section \<open>Escaping\<close>

text \<open>Replacing a single character, one pass over the text.\<close>

lemma replace_char: "str_replace s [c] r = concat (map (\<lambda>x. if x = c then r else [x]) s)"
  unfolding str_replace_def by (induction s) (auto)

definition entity :: "char \<Rightarrow> string" where
  "entity c =
     (if c = CHR ''&'' then ''&amp;'' else if c = CHR ''<'' then ''&lt;'' else if c = CHR ''>'' then ''&gt;''
      else if c = CHR 0x22 then ''&quot;'' else if c = CHR 0x0D then ''&#13;'' else if c = newline then ''&#10;''
      else if c = CHR 0x09 then ''&#09;'' else [c])"

lemma escape_attrib_entity: "escape_attrib s = concat (map entity s)"
  by (induction s) (auto simp: escape_attrib_def escape_cdata_def replace_char entity_def newline_def)

lemma escape_cdata_entity: "escape_cdata s = concat (map (\<lambda>c. if c \<in> {CHR ''&'', CHR ''<'', CHR ''>''} then entity c else [c]) s)"
  by (induction s) (auto simp: escape_cdata_def replace_char entity_def newline_def)

text \<open>What an XML reader makes of the escaped text.\<close>

definition entities :: "(string \<times> char) list" where
  "entities = [(''&amp;'', CHR ''&''), (''&lt;'', CHR ''<''), (''&gt;'', CHR ''>''), (''&quot;'', CHR 0x22),
     (''&#13;'', CHR 0x0D), (''&#10;'', newline), (''&#09;'', CHR 0x09)]"

function unescape :: "string \<Rightarrow> string" where
  "unescape [] = []"
| "unescape (c # cs) =
     (case List.find (\<lambda>(e, x). startswith (c # cs) e) entities of
        Some (e, x) \<Rightarrow> x # unescape (drop (length e - 1) cs)
      | None \<Rightarrow> c # unescape cs)"
  by pat_completeness auto
termination
  by (relation "measure length") auto

lemma unescape_entity: "unescape (entity c @ s) = c # unescape s"
  by (simp add: entity_def entities_def newline_def)

lemma unescape_plain: "c \<noteq> CHR ''&'' \<Longrightarrow> unescape (c # s) = c # unescape s"
  by (simp add: entities_def)

lemma unescape_escape:
  "(\<And>c. g c = entity c \<or> g c = [c] \<and> c \<noteq> CHR ''&'') \<Longrightarrow> unescape (concat (map g s)) = s"
proof (induction s)
  case (Cons c s)
  from Cons.prems [of c] Cons.IH [OF Cons.prems] show ?case
    by (elim disjE conjE) (simp_all add: unescape_entity unescape_plain del: unescape.simps)
qed simp

section \<open>Properties\<close>

text \<open>C30. The report of failures: one test case per file, in the order of the files' first failures, with exactly
  the failures of the file in the order in which they were reported; together they are all failures.\<close>

theorem junit_groups_failures:
  "failure_testcases fs = map (\<lambda>f. Element ''testcase'' [(''name'', f)] []
     [Element ''failure'' [] (str_join [newline] (map failure_text (filter (\<lambda>x. fst x = f) fs))) []]) (files_in_order fs) \<and>
   distinct (files_in_order fs) \<and>
   mset (concat (map (\<lambda>f. filter (\<lambda>x. fst x = f) fs) (files_in_order fs))) = mset fs"
proof (intro conjI)
  show "distinct (files_in_order fs)" by (simp add: files_in_order_def)
  have "mset (concat (map (\<lambda>f. filter (\<lambda>x. fst x = f) xs) ks)) = mset (filter (\<lambda>x. fst x \<in> set ks) xs)"
    if "distinct ks" for ks and xs :: "junit_failure list"
    using that
  proof (induction ks)
    case (Cons k ks)
    have "mset (filter (\<lambda>x. fst x \<in> set (k # ks)) xs) = mset (filter (\<lambda>x. fst x = k) xs) + mset (filter (\<lambda>x. fst x \<in> set ks) xs)"
      using Cons.prems by (induction xs) auto
    with Cons show ?case by simp
  qed simp
  from this [of "files_in_order fs" fs] show "mset (concat (map (\<lambda>f. filter (\<lambda>x. fst x = f) fs) (files_in_order fs))) = mset fs"
    by (simp add: \<open>distinct (files_in_order fs)\<close> filter_id_conv)
qed (rule failure_testcases_eq)

text \<open>Texts survive the report: an XML reader gets back every file name and every text of a failure from its
  escaped form, and no escaped text contains a character that would end a tag or an attribute.\<close>

theorem xml_escape_roundtrip:
  "unescape (escape_attrib s) = s \<and> unescape (escape_cdata s) = s \<and>
   set (escape_attrib s) \<inter> {CHR ''<'', CHR ''>'', CHR 0x22} = {} \<and> set (escape_cdata s) \<inter> {CHR ''<'', CHR ''>''} = {}"
proof (intro conjI)
  show "unescape (escape_attrib s) = s" unfolding escape_attrib_entity by (rule unescape_escape) simp
  show "unescape (escape_cdata s) = s" unfolding escape_cdata_entity by (rule unescape_escape) auto
  show "set (escape_attrib s) \<inter> {CHR ''<'', CHR ''>'', CHR 0x22} = {}"
    unfolding escape_attrib_entity by (auto simp: entity_def split: if_splits)
  show "set (escape_cdata s) \<inter> {CHR ''<'', CHR ''>''} = {}"
    unfolding escape_cdata_entity by (auto simp: entity_def split: if_splits)
qed

end
