(* ===== verification/Driver.thy ===== *)
theory Driver
  imports File_Reports Config_Files JUnit_Report
begin

text \<open>
  The driver of the linter: \<open>ProcessFile\<close>, \<open>ParseArguments\<close> and \<open>main\<close> of \<open>cpplint.py\<close>.  What is asked of the
  operating system is in the record \<open>lint_env\<close>; \<open>getopt\<close> is the one of the standard library, for long options
  only.  A call that ends the process raises \<open>SystemExit\<close>; what it prints before (usage, version, categories) is not part of
  the result.
\<close>

section \<open>One input file\<close>

text \<open>The loop that removes carriage returns: the lines, the numbers of the lines that ended in one, and the
  numbers of those that did not.  The text behind the last newline is left as it is.\<close>

fun strip_returns :: "nat \<Rightarrow> string list \<Rightarrow> string list \<times> nat list \<times> nat list" where
  "strip_returns n [] = ([], [], [])"
| "strip_returns n [l] = ([l], [], [])"
| "strip_returns n (l # ls) =
     (case strip_returns (n + 1) ls of (ls, crlf_lines, lf_lines) \<Rightarrow>
        if endswith l [CHR 0x0D] then (str_rstrip_chars l [CHR 0x0D] # ls, (n + 1) # crlf_lines, lf_lines)
        else (l # ls, crlf_lines, (n + 1) # lf_lines))"

text \<open>The module functions \<open>_SetVerboseLevel\<close>, \<open>_BackupFilters\<close>, \<open>_RestoreFilters\<close> call the methods of the
  state object.\<close>

definition with_lstate :: "(cpplint_state \<Rightarrow> cpplint_state) \<Rightarrow> lint \<Rightarrow> lint" where
  "with_lstate f st = st\<lparr>lstate := f (lstate st)\<rparr>"

text \<open>The checks of the file's content, and the report of mixed line ends.\<close>

definition check_content :: "lint_env \<Rightarrow> string \<Rightarrow> check_fn list \<Rightarrow> string \<Rightarrow> action" where
  "check_content env filename extra_check_functions content st =
     (case strip_returns 0 (str_split newline content) of (lines, crlf_lines, lf_lines) \<Rightarrow>
        let file_extension = slice_from filename (str_rfind_char filename (CHR ''.'') + 1) in
        if filename \<noteq> ''-'' \<and> file_extension \<notin> set (GetAllExtensions st) then
          Inr (PrintError (''Ignoring '' @ filename @ ''; not a valid file name ('' @
                 str_join '', '' (GetAllExtensions st) @ '')'' @ [newline]) st)
        else
          py_bind (ProcessFileData (os_of env) (codecs_lines env) Error filename file_extension lines extra_check_functions st)
            (whenever (lf_lines \<noteq> [] \<and> crlf_lines \<noteq> [])
              (for_each crlf_lines (\<lambda>linenum.
                 Error filename (Some (int linenum)) ''whitespace/newline'' 1
                   (''Unexpected '' @ raw ''`r'' @ '' (^M) found; better to use only '' @ raw ''`n'')))))"

definition start_file :: "int \<Rightarrow> lint \<Rightarrow> lint" where
  "start_file vlevel = with_lstate (\<lambda>s. BackupFilters (snd (SetVerboseLevel vlevel s)))"

text \<open>The content of the input; only an IOError is caught by the caller.\<close>

definition read_input :: "lint_env \<Rightarrow> string \<Rightarrow> string py" where
  "read_input env filename =
     (if filename = ''-'' then stdin_text env
      else (case read_text env filename of Some content \<Rightarrow> Inr content | None \<Rightarrow> Inl IOError))"

definition ProcessFile :: "lint_env \<Rightarrow> string \<Rightarrow> int \<Rightarrow> check_fn list \<Rightarrow> action" where
  "ProcessFile env filename vlevel extra_check_functions st =
     (let st = start_file vlevel st;
          old_errors = error_count (lstate st)
      in py_bind (ProcessConfigOverrides env filename st) (\<lambda>(go, st).
           if \<not> go then Inr (with_lstate RestoreFilters st)
           else
             (case read_input env filename of
                Inl e \<Rightarrow>
                  if e = IOError then
                    Inr (with_lstate RestoreFilters (PrintError (''Skipping input '' @ [CHR 0x27] @ filename @ [CHR 0x27] @ '': Can'' @
                      [CHR 0x27] @ ''t open for reading'' @ [newline]) st))
                  else Inl e
              | Inr content \<Rightarrow>
                  py_bind (check_content env filename extra_check_functions content st) (\<lambda>st.
                    Inr (with_lstate RestoreFilters
                      (if \<not> quiet (lstate st) \<or> old_errors \<noteq> error_count (lstate st)
                       then PrintInfo (''Done processing '' @ filename @ [newline]) st else st))))))"

section \<open>The command line\<close>

text \<open>\<open>getopt.getopt\<close> without short options; None is GetoptError.\<close>

definition long_has_args :: "string \<Rightarrow> string list \<Rightarrow> (bool \<times> string) option" where
  "long_has_args opt longopts =
     (let possibilities = filter (\<lambda>o'. startswith o' opt) longopts in
      if possibilities = [] then None
      else if opt \<in> set possibilities then Some (False, opt)
      else if opt @ ''='' \<in> set possibilities then Some (True, opt)
      else if length possibilities > 1 then None
      else (let unique_match = hd possibilities in
            if endswith unique_match ''='' then Some (True, butlast unique_match) else Some (False, unique_match)))"

definition do_longs :: "string list \<Rightarrow> string \<Rightarrow> string list \<Rightarrow> ((string \<times> string) \<times> string list) option" where
  "do_longs longopts opt args =
     (let optarg = (if CHR ''='' \<in> set opt then Some (snd (str_partition (CHR ''='') opt)) else None) in
      case long_has_args (fst (str_partition (CHR ''='') opt)) longopts of
        None \<Rightarrow> None
      | Some (True, full) \<Rightarrow>
          (case optarg of
             Some v \<Rightarrow> Some ((''--'' @ full, v), args)
           | None \<Rightarrow> (case args of [] \<Rightarrow> None | v # args \<Rightarrow> Some ((''--'' @ full, v), args)))
      | Some (False, full) \<Rightarrow> (if optarg = None then Some ((''--'' @ full, []), args) else None))"

lemma do_longs_shorter: "do_longs longopts opt args = Some (q, rest) \<Longrightarrow> length rest \<le> length args"
  by (auto simp: do_longs_def Let_def split: option.splits bool.splits list.splits if_splits)

function getopt :: "string list \<Rightarrow> string list \<Rightarrow> ((string \<times> string) list \<times> string list) option" where
  "getopt longopts [] = Some ([], [])"
| "getopt longopts (a # args) =
     (if \<not> startswith a ''-'' \<or> a = ''-'' then Some ([], a # args)
      else if a = ''--'' then Some ([], args)
      else if startswith a ''--'' then
        (case do_longs longopts (drop 2 a) args of
           None \<Rightarrow> None
         | Some (opt, rest) \<Rightarrow>
             (case getopt longopts rest of None \<Rightarrow> None | Some (opts, filenames) \<Rightarrow> Some (opt # opts, filenames)))
      else None)"
  by pat_completeness auto
termination
  by (relation "measure (\<lambda>(longopts, args). length args)") (auto dest: do_longs_shorter simp: le_imp_less_Suc)

definition LONG_OPTIONS :: "string list" where
  "LONG_OPTIONS = [''help'', ''output='', ''verbose='', ''v='', ''version'', ''counting='', ''filter='', ''root='',
     ''repository='', ''linelength='', ''extensions='', ''exclude='', ''recursive'', ''headers='', ''quiet'']"

definition PrintUsage :: "string option \<Rightarrow> 'a py" where
  "PrintUsage message = Inl (SystemExit (if message = None then 0 else 1))"

definition PrintVersion :: "'a py" where
  "PrintVersion = Inl (SystemExit 0)"

definition PrintCategories :: "'a py" where
  "PrintCategories = Inl (SystemExit 0)"

text \<open>The local variables of \<open>ParseArguments\<close> and the excluded paths.\<close>

record arguments =
  verbosity :: int
  arg_output :: string
  arg_filters :: string
  arg_quiet :: bool
  counting_style :: string
  recursive :: bool
  excludes :: "string list"

definition parse_option :: "lint_env \<Rightarrow> string \<times> string \<Rightarrow> arguments \<times> lint \<Rightarrow> (arguments \<times> lint) py" where
  "parse_option env = (\<lambda>(opt, val) (a, st).
     if opt = ''--help'' then PrintUsage None
     else if opt = ''--version'' then PrintVersion
     else if opt = ''--output'' then
       (if val \<notin> {''emacs'', ''vs7'', ''eclipse'', ''junit''}
        then PrintUsage (Some ''The only allowed output formats are emacs, vs7, eclipse and junit.'')
        else Inr (a\<lparr>arg_output := val\<rparr>, st))
     else if opt = ''--quiet'' then Inr (a\<lparr>arg_quiet := True\<rparr>, st)
     else if opt = ''--verbose'' \<or> opt = ''--v'' then
       (case py_int val of None \<Rightarrow> Inl (ValueError ''invalid literal for int()'') | Some n \<Rightarrow> Inr (a\<lparr>verbosity := n\<rparr>, st))
     else if opt = ''--filter'' then (if val = [] then PrintCategories else Inr (a\<lparr>arg_filters := val\<rparr>, st))
     else if opt = ''--counting'' then
       (if val \<notin> {''total'', ''toplevel'', ''detailed''}
        then PrintUsage (Some ''Valid counting options are total, toplevel, and detailed'')
        else Inr (a\<lparr>counting_style := val\<rparr>, st))
     else if opt = ''--root'' then Inr (a, st\<lparr>root := Some val\<rparr>)
     else if opt = ''--repository'' then Inr (a, st\<lparr>repository := Some val\<rparr>)
     else if opt = ''--linelength'' then
       (case py_int val of None \<Rightarrow> PrintUsage (Some ''Line length must be digits.'') | Some n \<Rightarrow> Inr (a, st\<lparr>line_length := n\<rparr>))
     else if opt = ''--exclude'' then Inr (a\<lparr>excludes := remdups (excludes a @ glob_paths env val)\<rparr>, st)
     else if opt = ''--extensions'' then Inr (a, ProcessExtensionsOption val st)
     else if opt = ''--headers'' then Inr (a, ProcessHppHeadersOption val st)
     else if opt = ''--recursive'' then Inr (a\<lparr>recursive := True\<rparr>, st)
     else Inr (a, st))"

fun parse_options :: "lint_env \<Rightarrow> (string \<times> string) list \<Rightarrow> arguments \<times> lint \<Rightarrow> (arguments \<times> lint) py" where
  "parse_options env [] s = Inr s"
| "parse_options env (q # opts) s = py_bind (parse_option env q s) (parse_options env opts)"

definition ExpandDirectories :: "lint_env \<Rightarrow> lint \<Rightarrow> string list \<Rightarrow> string list" where
  "ExpandDirectories env st filenames =
     (let expanded = remdups (concat (map (\<lambda>filename.
            if \<not> path_isdir env filename then [filename]
            else concat (map (\<lambda>(dir, files). map (\<lambda>loopfile.
                   let fullname = path_join2 dir loopfile in
                   if startswith fullname ''./'' then drop 2 fullname else fullname) files) (walk env filename))) filenames))
      in filter (\<lambda>filename. drop 1 (snd (path_splitext filename)) \<in> set (GetAllExtensions st)) expanded)"

definition FilterExcludedFiles :: "lint_env \<Rightarrow> string list \<Rightarrow> string list \<Rightarrow> string list" where
  "FilterExcludedFiles env excluded filenames =
     (let exclude_paths = map (path_abspath (os_of env)) excluded
      in filter (\<lambda>f. path_abspath (os_of env) f \<notin> set exclude_paths) filenames)"

definition ParseArguments :: "lint_env \<Rightarrow> string list \<Rightarrow> lint \<Rightarrow> (string list \<times> lint) py" where
  "ParseArguments env args st =
     (case getopt LONG_OPTIONS args of
        None \<Rightarrow> PrintUsage (Some ''Invalid arguments.'')
      | Some (opts, filenames) \<Rightarrow>
          py_bind (parse_options env opts
                     (\<lparr>verbosity = verbose_level (lstate st), arg_output = output_format (lstate st), arg_filters = [],
                       arg_quiet = quiet (lstate st), counting_style = [], recursive = False, excludes = []\<rparr>, st)) (\<lambda>(a, st).
            if filenames = [] then PrintUsage (Some ''No files were specified.'')
            else
              (let filenames = (if recursive a then ExpandDirectories env st filenames else filenames);
                   filenames = (if excludes a \<noteq> [] then FilterExcludedFiles env (excludes a) filenames else filenames);
                   s = snd (SetVerboseLevel (verbosity a) (snd (SetQuiet (arg_quiet a) (SetOutputFormat (arg_output a) (lstate st)))))
               in py_bind (SetFilters (arg_filters a) s) (\<lambda>s.
                    Inr (filenames, st\<lparr>lstate := SetCountingStyle (counting_style a) s\<rparr>)))))"

section \<open>The program\<close>

text \<open>The exit code, and the state at the end.\<close>

definition main :: "lint_env \<Rightarrow> string list \<Rightarrow> lint \<Rightarrow> (int \<times> lint) py" where
  "main env args st =
     py_bind (ParseArguments env args st) (\<lambda>(filenames, st).
     py_bind (for_each filenames (\<lambda>filename st. ProcessFile env filename (verbose_level (lstate st)) [] st)
                (with_lstate ResetErrorCounts st)) (\<lambda>st.
       let st = (if \<not> quiet (lstate st) \<or> error_count (lstate st) > 0 then PrintErrorCounts st else st);
           st = (if output_format (lstate st) = ''junit'' then stderr_write (FormatJUnitXML (lstate st)) st else st)
       in Inr (if error_count (lstate st) > 0 then 1 else 0, st)))"

lemma py_bind_Inl_iff: "py_bind m f = Inl e \<longleftrightarrow> m = Inl e \<or> (\<exists>x. m = Inr x \<and> f x = Inl e)"
  by (cases m) auto

section \<open>Outcome\<close>

text \<open>The exceptions that a check, a configuration file or the standard input can cause.\<close>

definition lint_exception :: "lint_env \<Rightarrow> py_exc \<Rightarrow> bool" where
  "lint_exception env e = (e = IndexError \<or> e = ReError \<or> (\<exists>m. e = ValueError m) \<or> stdin_text env = Inl e \<and> e \<noteq> IOError)"

definition all_named :: "os_env \<Rightarrow> bool" where
  "all_named env = (\<forall>st f. \<exists>r. RepositoryName env st f = Inr r)"

text \<open>Beside reports, the driver writes messages of its own to standard error: among all texts written, in this order, are the failures
  that satisfy a test, and each error counted is one of them.\<close>

definition recorded_among :: "(failure \<Rightarrow> bool) \<Rightarrow> lint \<Rightarrow> lint \<Rightarrow> bool" where
  "recorded_among P st0 st =
     (\<exists>new texts. list_all P new \<and> subseq (map (report_text (output_format (lstate st0))) new) texts \<and> logged new texts st0 st)"

lemma recorded_among_exact: "recorded P a b \<Longrightarrow> recorded_among P a b"
  unfolding recorded_def recorded_among_def by blast

lemma recorded_among_trans:
  assumes "recorded_among P a b" "recorded_among P b c"
  shows "recorded_among P a c"
proof -
  let ?t = "map (report_text (output_format (lstate a)))"
  from assms obtain n1 m1 n2 m2 where n: "list_all P (n1 @ n2)" "subseq (?t n1) m1" "logged n1 m1 a b"
    "subseq (map (report_text (output_format (lstate b))) n2) m2" "logged n2 m2 b c"
    unfolding recorded_among_def by auto
  then have "subseq (?t (n1 @ n2)) (m1 @ m2)" using logged_format [OF n(3)] by (simp add: list_emb_append_mono)
  with n(1) logged_trans [OF n(3,5)] show ?thesis unfolding recorded_among_def by blast
qed

lemma recorded_among_end:
  assumes "lstate c = lstate b" "output_format (lstate b) \<noteq> ''junit'' \<Longrightarrow> stderr c = stderr b" "recorded_among P a b"
  shows "recorded_among P a c"
proof -
  from assms(3) obtain new texts where n: "list_all P new" "subseq (map (report_text (output_format (lstate a))) new) texts"
    "logged new texts a b" unfolding recorded_among_def by blast
  from n(3) assms(1,2) have "logged new texts a c" by (simp add: logged_def)
  with n(1,2) show ?thesis unfolding recorded_among_def by blast
qed

lemma logged_restore: "logged new texts a (with_lstate RestoreFilters b) = logged new texts a b"
  by (simp add: logged_def with_lstate_def RestoreFilters_def)

lemma recorded_among_refl [simp]: "recorded_among P st st"
  by (simp add: recorded_among_exact)

text \<open>Messages alone.\<close>

lemma recorded_among_messages:
  assumes "output_format (lstate b) = output_format (lstate a)" "error_count (lstate b) = error_count (lstate a)"
    "junit_failures (lstate b) = junit_failures (lstate a)" "prefix (stderr a) (stderr b)"
  shows "recorded_among P a b"
proof -
  from assms(4) obtain m where "stderr b = stderr a @ m" by (auto simp: prefix_def)
  with assms(1-3) have "logged [] [m] a b" by (simp add: logged_def)
  then show ?thesis unfolding recorded_among_def by (intro exI [of _ "[]"] exI [of _ "[m]"]) simp
qed

text \<open>What processing a file leaves as it was, for the files after it.\<close>

definition file_frame :: "lint \<Rightarrow> lint \<Rightarrow> bool" where
  "file_frame st st' =
     (filters (lstate st') = filters (lstate st) \<and> counting (lstate st') = counting (lstate st) \<and>
      quiet (lstate st') = quiet (lstate st) \<and> output_format (lstate st') = output_format (lstate st) \<and>
      repository st' = repository st \<and> module_quiet st' = module_quiet st \<and>
      more_errors st st')"

lemma newline_reports_safe:
  "safe (file_inv env st0) (whenever b (for_each ns (\<lambda>linenum. Error filename (Some (int linenum)) ''whitespace/newline'' 1 msg)))"
  by (intro whenever_safe for_each_safe File.report_safe) (simp_all add: ERROR_CATEGORIES_def)

lemma lint_inv_print [simp]: "lint_inv (PrintInfo m st) = lint_inv st" "lint_inv (PrintError m st) = lint_inv st"
  by (simp_all add: lint_inv_def PrintInfo_def PrintError_def stderr_write_def frame)

lemma error_print_settings: "same_settings (st\<lparr>stdout := stdout (PrintError m st)\<rparr>) (PrintError m st)"
  "more_errors st (PrintError m st)" "recorded_among P st (PrintError m st)"
  by (simp_all add: same_settings_def more_errors_def recorded_among_messages PrintError_def stderr_write_def)

lemma check_content_outcome:
  assumes "lint_inv st" "all_named (os_of env)"
  shows "case check_content env filename [] content st of
      Inr st' \<Rightarrow> lint_inv st' \<and> same_settings st st' \<and> more_errors st st' \<and> recorded_among (admitted (lstate st)) st st'
    | Inl e \<Rightarrow> e = IndexError"
proof -
  obtain ls cr lf where r: "strip_returns 0 (str_split newline content) = (ls, cr, lf)" by (metis prod_cases3)
  let ?ext = "slice_from filename (str_rfind_char filename (CHR ''.'') + 1)"
  show ?thesis
  proof (cases "filename \<noteq> ''-'' \<and> ?ext \<notin> set (GetAllExtensions st)")
    case True
    then show ?thesis
      using assms(1) error_print_settings(2,3)
      by (simp add: check_content_def r Let_def error_print_settings lint_inv_print) (simp add: same_settings_def PrintError_def stderr_write_def)
  next
    case False
    have inv: "file_inv (os_of env) st st" using assms by (simp add: file_inv_def files_named_def all_named_def)
    have "safe_unless (\<exists>j < length (checked_lines ls). stuck_line (CleansedLines (checked_lines ls)) j) (file_inv (os_of env) st)
        (ProcessFileData (os_of env) (codecs_lines env) Error filename ?ext ls [])"
      by (rule File.ProcessFileData_outcome) simp_all
    from this inv show ?thesis
    proof (cases rule: safe_unlessD)
      case (1 st1)
      from safeD [OF newline_reports_safe 1(2)] obtain st2 where
        "whenever (lf \<noteq> [] \<and> cr \<noteq> []) (for_each cr (\<lambda>linenum. Error filename (Some (int linenum)) ''whitespace/newline'' 1
            (''Unexpected '' @ raw ''`r'' @ '' (^M) found; better to use only '' @ raw ''`n''))) st1 = Inr st2"
        "file_inv (os_of env) st st2" by blast
      with False 1(1) show ?thesis by (auto simp: check_content_def r Let_def file_inv_def intro: recorded_among_exact)
    next
      case 2
      with False show ?thesis by (auto simp: check_content_def r Let_def)
    qed
  qed
qed

lemma lint_inv_restore:
  "lint_inv st \<Longrightarrow> list_all filter_ok (filters_backup (lstate st)) \<Longrightarrow> lint_inv (with_lstate RestoreFilters st)"
  by (simp add: lint_inv_def with_lstate_def RestoreFilters_def frame)

lemma counts_ok_level: "counts_ok (s\<lparr>verbose_level := v\<rparr>) = counts_ok s"
  by (simp add: counts_ok_def count_total_def)

lemma lstate_print [simp]:
  "lstate (PrintInfo m st) = lstate st" "filters_backup (lstate (PrintError m st)) = filters_backup (lstate st)"
  by (simp_all add: PrintInfo_def PrintError_def stderr_write_def)

lemma print_settings:
  "same_settings a b \<Longrightarrow> same_settings (a\<lparr>stdout := stdout b\<rparr>) b"
  "same_settings a b \<Longrightarrow> same_settings (a\<lparr>stdout := stdout (PrintInfo m b)\<rparr>) (PrintInfo m b)"
  by (simp_all add: same_settings_def PrintInfo_def)

lemma more_errors_print [simp]: "more_errors a (PrintInfo m b) = more_errors a b" "recorded_among P a (PrintInfo m b) = recorded_among P a b"
  by (simp_all add: more_errors_def recorded_among_def logged_def PrintInfo_def)

text \<open>The settings that configuration files change.\<close>

definition config_settings :: "lint \<Rightarrow> int \<times> string option \<times> string list \<times> string list" where
  "config_settings st = (line_length st, root st, valid_extensions st, hpp_headers st)"

text \<open>The state behind the configuration of a file, and the one at the end of the file.\<close>

definition file_started :: "int \<Rightarrow> lint \<Rightarrow> lint \<Rightarrow> bool" where
  "file_started vlevel st st1 =
     (lint_inv st1 \<and> list_all filter_ok (filters (lstate st)) \<and> filters_backup (lstate st1) = filters (lstate st) \<and>
      counting (lstate st1) = counting (lstate st) \<and> quiet (lstate st1) = quiet (lstate st) \<and>
      output_format (lstate st1) = output_format (lstate st) \<and> repository st1 = repository st \<and>
      module_quiet st1 = module_quiet st \<and> error_count (lstate st1) = error_count (lstate st) \<and>
      junit_failures (lstate st1) = junit_failures (lstate st) \<and> verbose_level (lstate st1) = vlevel \<and>
      prefix (stderr st) (stderr st1))"

definition file_done :: "int \<Rightarrow> lint \<Rightarrow> lint \<Rightarrow> lint \<Rightarrow> bool" where
  "file_done vlevel st st1 st' =
     (lint_inv st' \<and> file_frame st st' \<and> verbose_level (lstate st') = vlevel \<and> config_settings st' = config_settings st1 \<and>
      recorded_among (admitted (lstate st1)) st st')"

lemma lint_inv_start: "lint_inv st \<Longrightarrow> lint_inv (start_file vlevel st)"
  by (simp add: lint_inv_def start_file_def with_lstate_def BackupFilters_def SetVerboseLevel_def counts_ok_level frame)

lemma config_starts_file:
  assumes "lint_inv st" "ProcessConfigOverrides env filename (start_file vlevel st) = Inr (go, st1)"
  shows "file_started vlevel st st1"
  using ProcessConfigOverrides_ok [OF lint_inv_start [OF assms(1)], of vlevel env filename] assms
  by (auto simp: file_started_def config_frame_def lint_inv_def start_file_def with_lstate_def BackupFilters_def SetVerboseLevel_def)

lemma restore_ends_file:
  assumes "file_started vlevel st st1" "lint_inv st2" "same_settings (st1\<lparr>stdout := stdout st2\<rparr>) st2"
    and "more_errors st1 st2" "recorded_among (admitted (lstate st1)) st1 st2"
  shows "file_done vlevel st st1 (with_lstate RestoreFilters st2)"
proof -
  have "recorded_among (admitted (lstate st1)) st st1"
    using assms(1) by (intro recorded_among_messages) (simp_all add: file_started_def)
  from recorded_among_trans [OF this assms(5)] have "recorded_among (admitted (lstate st1)) st (with_lstate RestoreFilters st2)"
    unfolding recorded_among_def logged_restore .
  with assms(1-4) show ?thesis
    by (simp add: file_started_def file_done_def lint_inv_def frame file_frame_def with_lstate_def RestoreFilters_def
        same_settings_def config_settings_def more_errors_def)
qed

text \<open>The three ways to the end: excluded, unreadable, checked.\<close>

lemma restore_ends_cases:
  assumes "file_started vlevel st st1"
  shows "file_done vlevel st st1 (with_lstate RestoreFilters st1)"
    and "file_done vlevel st st1 (with_lstate RestoreFilters (PrintError m st1))"
    and "lint_inv st2 \<Longrightarrow> same_settings st1 st2 \<Longrightarrow> more_errors st1 st2 \<Longrightarrow> recorded_among (admitted (lstate st1)) st1 st2 \<Longrightarrow>
      file_done vlevel st st1 (with_lstate RestoreFilters (if b then PrintInfo m st2 else st2))"
proof -
  have i: "lint_inv st1" using assms by (simp add: file_started_def)
  show "file_done vlevel st st1 (with_lstate RestoreFilters st1)"
    using i by (intro restore_ends_file [OF assms]) simp_all
  show "file_done vlevel st st1 (with_lstate RestoreFilters (PrintError m st1))"
    using i error_print_settings by (intro restore_ends_file [OF assms]) simp_all
  show "lint_inv st2 \<Longrightarrow> same_settings st1 st2 \<Longrightarrow> more_errors st1 st2 \<Longrightarrow> recorded_among (admitted (lstate st1)) st1 st2 \<Longrightarrow>
      file_done vlevel st st1 (with_lstate RestoreFilters (if b then PrintInfo m st2 else st2))"
    using print_settings by (intro restore_ends_file [OF assms]) simp_all
qed

lemma ProcessFile_outcome:
  assumes "lint_inv st" "all_named (os_of env)"
  shows "case ProcessFile env filename vlevel [] st of
      Inr st' \<Rightarrow> \<exists>go st1. ProcessConfigOverrides env filename (start_file vlevel st) = Inr (go, st1) \<and> file_done vlevel st st1 st'
    | Inl e \<Rightarrow> lint_exception env e \<and> (filename = ''-'' \<or> e = IndexError \<or> e = ReError \<or> (\<exists>m. e = ValueError m))"
proof (cases "ProcessConfigOverrides env filename (start_file vlevel st)")
  case (Inl e)
  with ProcessConfigOverrides_ok [OF lint_inv_start [OF assms(1)], of vlevel env filename] show ?thesis
    by (auto simp: ProcessFile_def lint_exception_def Let_def)
next
  case (Inr q)
  then obtain go st1 where q: "ProcessConfigOverrides env filename (start_file vlevel st) = Inr (go, st1)" by (cases q) simp
  note started = config_starts_file [OF assms(1) q]
  then have i1: "lint_inv st1" by (simp add: file_started_def)
  let ?input = "read_input env filename"
  note call = ProcessFile_def [of env filename vlevel "[]" st, unfolded Let_def q py_bind.simps prod.case]
  consider "\<not> go" | "go" "?input = Inl IOError" | content where "go" "?input = Inr content"
    | e where "go" "?input = Inl e" "e \<noteq> IOError" by (cases ?input) auto
  then show ?thesis
  proof cases
    case (3 content)
    show ?thesis
    proof (cases "check_content env filename [] content st1")
      case (Inl e)
      with check_content_outcome [OF i1 assms(2), of filename content] 3 show ?thesis by (simp add: call lint_exception_def)
    next
      case ok: (Inr st2)
      with check_content_outcome [OF i1 assms(2), of filename content]
      have "lint_inv st2" "same_settings st1 st2" "more_errors st1 st2" "recorded_among (admitted (lstate st1)) st1 st2" by simp_all
      from restore_ends_cases(3) [OF started this] q ok 3 show ?thesis by (simp add: call) blast
    qed
  next
    case (4 e)
    then have "ProcessFile env filename vlevel [] st = Inl e" by (simp add: call)
    moreover have "filename = ''-''" "stdin_text env = Inl e" using 4 by (simp_all add: read_input_def split: if_splits option.splits)
    ultimately show ?thesis using 4 by (simp only: sum.case) (simp add: lint_exception_def)
  qed (use restore_ends_cases(1,2) [OF started] q in \<open>simp_all add: call, blast+\<close>)
qed

text \<open>How the command line can end the program.\<close>

definition usage_exit :: "py_exc \<Rightarrow> bool" where
  "usage_exit e = (e = SystemExit 0 \<or> e = SystemExit 1 \<or> (\<exists>m. e = ValueError m))"

lemma usage_exit_rules:
  "PrintUsage m = Inl e \<Longrightarrow> usage_exit e" "PrintVersion = Inl e \<Longrightarrow> usage_exit e" "PrintCategories = Inl e \<Longrightarrow> usage_exit e"
  "Inl (ValueError msg) = Inl e \<Longrightarrow> usage_exit e" "Inr x = Inl e \<Longrightarrow> usage_exit e"
  "(if b then r1 else r2) = Inl e \<Longrightarrow> (r1 = Inl e \<Longrightarrow> usage_exit e) \<Longrightarrow> (r2 = Inl e \<Longrightarrow> usage_exit e) \<Longrightarrow> usage_exit e"
  "(case v of None \<Rightarrow> r1 | Some n \<Rightarrow> g n) = Inl e \<Longrightarrow> (r1 = Inl e \<Longrightarrow> usage_exit e) \<Longrightarrow> (\<And>n. g n = Inl e \<Longrightarrow> usage_exit e) \<Longrightarrow>
   usage_exit e"
  by (auto simp: usage_exit_def PrintUsage_def PrintVersion_def PrintCategories_def split: if_splits option.splits)

lemma parse_option_exit: "parse_option env (opt, val) (a, st) = Inl e \<Longrightarrow> usage_exit e"
  unfolding parse_option_def prod.case by (elim usage_exit_rules)

lemma parse_options_exit: "parse_options env qs s = Inl e \<Longrightarrow> usage_exit e"
proof (induction qs arbitrary: s)
  case (Cons q qs)
  then show ?case by (cases "parse_option env q s"; cases q; cases s) (auto dest: parse_option_exit)
qed simp

lemma parse_option_state: "parse_option env (opt, val) (a, st) = Inr (a', st') \<Longrightarrow> lstate st' = lstate st"
proof -
  have k: "(if b then r1 else r2) = Inr q \<Longrightarrow> (r1 = Inr q \<Longrightarrow> P) \<Longrightarrow> (r2 = Inr q \<Longrightarrow> P) \<Longrightarrow> P" for b and r1 r2 :: "'b py" and q P
    by (simp split: if_splits)
  have n: "(case v of None \<Rightarrow> r1 | Some i \<Rightarrow> g i) = Inr q \<Longrightarrow> (r1 = Inr q \<Longrightarrow> P) \<Longrightarrow> (\<And>i. g i = Inr q \<Longrightarrow> P) \<Longrightarrow> P"
    for v :: "int option" and r1 and g :: "int \<Rightarrow> 'b py" and q P
    by (simp split: option.splits)
  show "parse_option env (opt, val) (a, st) = Inr (a', st') \<Longrightarrow> lstate st' = lstate st"
    unfolding parse_option_def prod.case PrintUsage_def PrintVersion_def PrintCategories_def
    by (elim k n) (auto simp: ProcessExtensionsOption_def ProcessHppHeadersOption_def)
qed

lemma parse_options_state: "parse_options env qs (a, st) = Inr (a', st') \<Longrightarrow> lstate st' = lstate st"
proof (induction qs arbitrary: a st)
  case (Cons q qs)
  obtain opt val where q: "q = (opt, val)" by fastforce
  from Cons.prems obtain a1 st1 where 1: "parse_option env (opt, val) (a, st) = Inr (a1, st1)" "parse_options env qs (a1, st1) = Inr (a', st')"
    by (auto simp: q py_bind_Inr_iff)
  from parse_option_state [OF 1(1)] Cons.IH [OF 1(2)] show ?case by simp
qed simp

lemma AddFilters_exit: "AddFilters fs s = Inl e \<Longrightarrow> \<exists>m. e = ValueError m"
  by (auto simp: AddFilters_def Let_def split: option.splits)

lemma ParseArguments_outcome:
  "case ParseArguments env args st of
     Inr (filenames, st') \<Rightarrow> list_all filter_ok (filters (lstate st')) \<and> junit_failures (lstate st') = junit_failures (lstate st)
   | Inl e \<Rightarrow> usage_exit e"
proof (cases "ParseArguments env args st")
  case (Inl e)
  then have "usage_exit e"
    unfolding ParseArguments_def Let_def
    by (auto simp: PrintUsage_def usage_exit_def py_bind_Inl_iff SetFilters_def
        dest!: parse_options_exit AddFilters_exit split: option.splits if_splits prod.splits)
  with Inl show ?thesis by simp
next
  case (Inr r)
  then obtain filenames st' where r: "ParseArguments env args st = Inr (filenames, st')" by (cases r) simp
  then obtain opts a0 a st1 s where
    1: "parse_options env opts (a0, st) = Inr (a, st1)" and
    2: "AddFilters (arg_filters a) ((snd (SetVerboseLevel (verbosity a) (snd (SetQuiet (arg_quiet a)
          (SetOutputFormat (arg_output a) (lstate st1))))))\<lparr>filters := DEFAULT_FILTERS\<rparr>) = Inr s" and
    3: "lstate st' = SetCountingStyle (counting_style a) s"
    unfolding ParseArguments_def Let_def
    by (auto simp: PrintUsage_def py_bind_Inr_iff SetFilters_def split: option.splits if_splits prod.splits)
  from parse_options_state [OF 1] AddFilters_Inr(1) [OF 2] 3 arg_cong [OF AddFilters_Inr(2) [OF 2], of junit_failures] r show ?thesis
    by (simp add: SetCountingStyle_def SetVerboseLevel_def SetQuiet_def SetOutputFormat_def)
qed

lemma process_files_outcome:
  assumes "lint_inv st" "all_named (os_of env)"
  shows "case for_each filenames (\<lambda>filename st. ProcessFile env filename (verbose_level (lstate st)) [] st) st of
      Inr st' \<Rightarrow> lint_inv st' \<and> file_frame st st'
    | Inl e \<Rightarrow> lint_exception env e"
  using assms(1)
proof (induction filenames arbitrary: st)
  case Nil
  then show ?case by (simp add: for_each_def file_frame_def)
next
  case (Cons f fs)
  let ?p = "\<lambda>filename st. ProcessFile env filename (verbose_level (lstate st)) [] st"
  have e: "for_each (f # fs) ?p st = py_bind (?p f st) (for_each fs ?p)" by (simp add: for_each_def)
  note f = ProcessFile_outcome [OF Cons.prems assms(2), where filename = f and vlevel = "verbose_level (lstate st)"]
  show ?case
  proof (cases "?p f st")
    case (Inl x)
    with f show ?thesis by (simp add: e)
  next
    case (Inr st1)
    with f have 1: "lint_inv st1" "file_frame st st1" by (auto simp: file_done_def)
    from Cons.IH [OF 1(1)] 1(2) Inr show ?thesis
      by (auto simp: e file_frame_def split: sum.split intro: more_errors_trans)
  qed
qed

text \<open>Without configuration files the settings of the command line hold for every file.\<close>

definition no_config :: "lint_env \<Rightarrow> bool" where
  "no_config env = (\<forall>d. \<not> path_isfile env (path_join2 d ''CPPLINT.cfg''))"

lemma config_loop_none:
  assumes "no_config env"
  shows "config_loop env filename p (cfg_filters, keep_looking, st) = Inr (Inr (cfg_filters, keep_looking, st))"
proof (induction "length p" arbitrary: p rule: less_induct)
  case less
  obtain h t where ht: "path_split p = (h, t)" by fastforce
  from assms have n: "\<not> path_isfile env (path_join2 h ''CPPLINT.cfg'')" by (simp add: no_config_def)
  show ?case
  proof (cases "keep_looking \<and> t \<noteq> []")
    case True
    with path_split_shorter [OF ht] have "length h < length p" by simp
    from less [OF this] True n show ?thesis by (subst config_loop.simps) (simp add: ht)
  qed (subst config_loop.simps, auto simp: ht)
qed

lemma process_files_recorded:
  assumes "lint_inv st" "all_named (os_of env)" "no_config env"
    and "for_each filenames (\<lambda>filename st. ProcessFile env filename (verbose_level (lstate st)) [] st) st = Inr st'"
  shows "recorded_among (admitted (lstate st)) st st'"
  using assms(1,4)
proof (induction filenames arbitrary: st)
  case (Cons f fs)
  let ?p = "\<lambda>filename st. ProcessFile env filename (verbose_level (lstate st)) [] st"
  from Cons.prems(2) obtain st1 where 1: "?p f st = Inr st1" "for_each fs ?p st1 = Inr st'"
    by (auto simp: for_each_def py_bind_Inr_iff)
  have "ProcessConfigOverrides env f (start_file v st) = Inr (True, start_file v st)" for v
    by (simp add: ProcessConfigOverrides_def config_loop_none [OF assms(3)] Let_def)
  with ProcessFile_outcome [OF Cons.prems(1) assms(2), where filename = f and vlevel = "verbose_level (lstate st)"] 1(1)
  have d: "file_done (verbose_level (lstate st)) st (start_file (verbose_level (lstate st)) st) st1" by simp
  then have "admitted (lstate st1) = admitted (lstate st)" "recorded_among (admitted (lstate st)) st st1"
    by (simp_all add: file_done_def file_frame_def admitted_def start_file_def with_lstate_def BackupFilters_def SetVerboseLevel_def)
  with Cons.IH [OF _ 1(2)] d show ?case by (auto simp: file_done_def intro: recorded_among_trans)
qed (simp add: for_each_def recorded_among_exact)

lemma stderr_PrintInfo [simp]: "stderr (PrintInfo m st) = stderr st"
  by (simp add: PrintInfo_def)

lemma fold_print: "lstate (fold (\<lambda>(c, n). PrintInfo (g c n)) xs st) = lstate st"
    "stderr (fold (\<lambda>(c, n). PrintInfo (g c n)) xs st) = stderr st"
  by (induction xs arbitrary: st) auto

lemma lstate_PrintErrorCounts [simp]: "lstate (PrintErrorCounts st) = lstate st" "stderr (PrintErrorCounts st) = stderr st"
  by (simp_all add: PrintErrorCounts_def Let_def fold_print)

lemma lint_inv_reset: "list_all filter_ok (filters (lstate st)) \<Longrightarrow> lint_inv (with_lstate ResetErrorCounts st)"
  by (simp add: lint_inv_def with_lstate_def ResetErrorCounts_def counts_ok_def count_total_def)

lemma getopt_filter:
  assumes "\<not> startswith f ''-''"
  shows "getopt LONG_OPTIONS [''--filter='' @ c, f] = Some ([(''--filter'', c)], [f])"
proof -
  have h: "long_has_args ''filter'' LONG_OPTIONS = Some (True, ''filter'')" by code_simp
  have d: "do_longs LONG_OPTIONS (''filter='' @ c) [f] = Some ((''--filter'', c), [f])"
    using h by (simp add: do_longs_def str_partition_def)
  have g: "getopt LONG_OPTIONS [f] = Some ([], [f])" using assms by simp
  from d g show ?thesis by simp
qed

lemma category_names:
  "list_all (\<lambda>c. c \<noteq> [] \<and> filter (\<lambda>f. f \<noteq> []) (map str_strip (str_split (CHR '','') c)) = [c] \<and> \<not> filter_ok c) ERROR_CATEGORIES"
  by code_simp

text \<open>A filter as it may stand in the list of a command line: signed, without white space and commas.\<close>

definition listed_filter :: "string \<Rightarrow> bool" where
  "listed_filter f = (filter_ok f \<and> list_all (\<lambda>c. \<not> is_space c \<and> c \<noteq> CHR '','') f)"

lemma split_joined: "ws \<noteq> [] \<Longrightarrow> \<forall>w \<in> set ws. d \<notin> set w \<Longrightarrow> str_split d (str_join [d] ws) = ws"
proof (induction ws rule: induct_list012)
  case (3 v w ws)
  then show ?case using str_split_sep [of d v "str_join [d] (w # ws)"] by simp
qed (simp_all add: str_split_none)

lemma filter_list_read:
  assumes "fs \<noteq> []" "list_all listed_filter fs"
  shows "SetFilters (str_join '','' fs) s = Inr (s\<lparr>filters := DEFAULT_FILTERS @ fs\<rparr>)" "str_join '','' fs \<noteq> []"
    "list_all filter_ok (DEFAULT_FILTERS @ fs)"
proof -
  have l: "filter_ok f" "str_strip f = f" "f \<noteq> []" "CHR '','' \<notin> set f" if "f \<in> set fs" for f
    using assms(2) that no_space_strip [of f] by (auto simp: list_all_iff listed_filter_def filter_ok_cases)
  have split: "str_split (CHR '','') (str_join '','' fs) = fs" using split_joined [OF assms(1), of "CHR '',''"] l(4) by simp
  then have "filter (\<lambda>f. f \<noteq> []) (map str_strip (str_split (CHR '','') (str_join '','' fs))) = fs"
    using l by (simp add: map_idI filter_id_conv)
  moreover show ok: "list_all filter_ok (DEFAULT_FILTERS @ fs)" using l(1) by (auto simp: list_all_iff DEFAULT_FILTERS_def filter_ok_def)
  then have "List.find (\<lambda>f. \<not> filter_ok f) (DEFAULT_FILTERS @ fs) = None" by (simp add: find_not_list_all)
  ultimately show "SetFilters (str_join '','' fs) s = Inr (s\<lparr>filters := DEFAULT_FILTERS @ fs\<rparr>)"
    by (simp add: SetFilters_def AddFilters_def Let_def)
  show "str_join '','' fs \<noteq> []" using split l(3) assms(1) by (metis list.set_intros(1) str_split.simps(1) neq_Nil_conv)
qed

text \<open>A list of filters on the command line.\<close>

lemma filter_argument:
  assumes "fs \<noteq> []" "list_all listed_filter fs" "\<not> startswith f ''-''"
  shows "\<exists>st1. ParseArguments env [''--filter='' @ str_join '','' fs, f] st = Inr ([f], st1) \<and>
    filters (lstate st1) = DEFAULT_FILTERS @ fs \<and> verbose_level (lstate st1) = verbose_level (lstate st) \<and>
    error_suppressions st1 = error_suppressions st \<and> global_error_suppressions st1 = global_error_suppressions st"
  using filter_list_read [OF assms(1,2)]
  by (simp add: ParseArguments_def getopt_filter [OF assms(3), simplified] parse_option_def Let_def SetVerboseLevel_def SetQuiet_def
      SetOutputFormat_def SetCountingStyle_def)

lemma last_filter:
  assumes "startswith category p" "\<forall>f \<in> set later. \<not> startswith category (tl f)"
  shows "filtered_by_last category (fs @ [sign # p] @ later) \<longleftrightarrow> sign = CHR ''-''"
proof -
  have "List.find (\<lambda>f. startswith category (tl f)) (rev later) = None" using assms(2) by (auto simp: find_None_iff)
  with assms(1) show ?thesis by (auto simp: filtered_by_last_def find_append)
qed

text \<open>No repository is found in this file system, and no file.\<close>

definition bare_env :: lint_env where
  "bare_env = \<lparr>os_of = \<lparr>cwd = ''/w'', path_exists = (\<lambda>p. False)\<rparr>, path_isfile = (\<lambda>p. False), path_isdir = (\<lambda>p. False),
     open_lines = (\<lambda>p. None), codecs_lines = (\<lambda>p. None), read_text = (\<lambda>p. None), stdin_text = Inl TypeError, walk = (\<lambda>p. []), glob_paths = (\<lambda>p. [])\<rparr>"

lemma bare_env_named: "\<forall>st f. \<exists>name. RepositoryName (os_of bare_env) st f = Inr name"
  by (simp add: RepositoryName_def bare_env_def)

lemma two_configs_named: "\<forall>st f. \<exists>name. RepositoryName (os_of two_configs) st f = Inr name"
  by (simp add: RepositoryName_def two_configs_def)

lemma lint_inv_initial: "lint_inv (lint_init CppLintState_init)"
  by code_simp

section \<open>Properties\<close>

text \<open>C3. Processing a file: whatever its content, its name and the configuration files above it, \<open>ProcessFile\<close>
  ends; when it returns, the filters are the ones from before, also after an excluded, an unreadable or an ignored
  file, the error state is consistent, no error count is lost, and verbosity, counting, quiet mode, output format and
  repository are as given; every error counted is a failure that passes the filters that the configuration files of this file
  left in force, and it is in the JUnit report or, in the other formats, among the texts on standard error.  The exceptions are the ones
  of the findings: IndexError from two checks, an invalid pattern or filter in a configuration file, and for the input
  \<open>-\<close> whatever but IOError reading the standard input raises.\<close>

theorem process_file_outcome:
  assumes "lint_inv st" "\<forall>st f. \<exists>name. RepositoryName (os_of env) st f = Inr name"
  shows "case ProcessFile env filename vlevel [] st of
      Inr st' \<Rightarrow> lint_inv st' \<and> file_frame st st' \<and> verbose_level (lstate st') = vlevel \<and>
        (\<exists>go st1. ProcessConfigOverrides env filename (start_file vlevel st) = Inr (go, st1) \<and> recorded_among (admitted (lstate st1)) st st')
    | Inl e \<Rightarrow> e = IndexError \<or> e = ReError \<or> (\<exists>m. e = ValueError m) \<or> filename = ''-'' \<and> stdin_text env = Inl e \<and> e \<noteq> IOError"
  using ProcessFile_outcome [OF assms(1), where env = env and filename = filename and vlevel = vlevel] assms(2)
  by (auto simp: all_named_def lint_exception_def file_done_def split: sum.splits)

theorem process_file_outcome_witness:
  "case ProcessFile bare_env ''a.cc'' 1 [] (lint_init CppLintState_init) of
      Inr st' \<Rightarrow> lint_inv st' \<and> file_frame (lint_init CppLintState_init) st' \<and> verbose_level (lstate st') = 1 \<and>
        (\<exists>go st1. ProcessConfigOverrides bare_env ''a.cc'' (start_file 1 (lint_init CppLintState_init)) = Inr (go, st1) \<and>
           recorded_among (admitted (lstate st1)) (lint_init CppLintState_init) st')
    | Inl e \<Rightarrow> e = IndexError \<or> e = ReError \<or> (\<exists>m. e = ValueError m) \<or> ''a.cc'' = ''-'' \<and> stdin_text bare_env = Inl e \<and> e \<noteq> IOError"
  by (rule process_file_outcome [OF lint_inv_initial bare_env_named])

text \<open>C35. The settings of a configuration file outlive the file: after \<open>ProcessFile\<close> the line length, the root and the
  extensions are what the configuration of that file made of them, although the usage text limits a configuration file to its
  directory and those below.  The next file is checked with them.\<close>

theorem config_outlives_file:
  assumes "lint_inv st" "\<forall>st f. \<exists>name. RepositoryName (os_of env) st f = Inr name"
    and "ProcessFile env filename vlevel [] st = Inr st'"
  shows "\<exists>go st1. ProcessConfigOverrides env filename (start_file vlevel st) = Inr (go, st1) \<and>
    config_settings st' = config_settings st1"
  using ProcessFile_outcome [OF assms(1), where env = env and filename = filename and vlevel = vlevel] assms(2,3)
  by (auto simp: all_named_def file_done_def)

theorem config_outlives_file_witness:
  "\<exists>st'. ProcessFile two_configs ''s/a.cc'' 1 [] (lint_init CppLintState_init) = Inr st' \<and> line_length st' = 100"
proof -
  let ?st = "start_file 1 (lint_init CppLintState_init)"
  have c: "case ProcessConfigOverrides two_configs ''s/a.cc'' ?st of Inr (go, st1) \<Rightarrow> go \<and> line_length st1 = 100 | Inl e \<Rightarrow> False"
    by code_simp
  then obtain st1 where st1: "ProcessConfigOverrides two_configs ''s/a.cc'' ?st = Inr (True, st1)" "line_length st1 = 100"
    by (auto split: sum.splits)
  then have "\<exists>st'. ProcessFile two_configs ''s/a.cc'' 1 [] (lint_init CppLintState_init) = Inr st'"
    by (simp add: ProcessFile_def read_input_def Let_def two_configs_def)
  then obtain st' where st': "ProcessFile two_configs ''s/a.cc'' 1 [] (lint_init CppLintState_init) = Inr st'" by blast
  from config_outlives_file [OF lint_inv_initial two_configs_named st'] st' st1 show ?thesis by (auto simp: config_settings_def)
qed

text \<open>C32. From a list of filters on the command line to a report: the list is accepted, its filters stand behind the defaults,
  and the last of them that is a prefix of a category decides for it, whatever stands before it and whatever the defaults say:
  with \<open>+\<close> an error of the category is reported if nothing suppresses it and its confidence reaches the verbosity, with \<open>-\<close> none is.\<close>

theorem last_filter_decides:
  assumes "list_all listed_filter (earlier @ [sign # p] @ later)" "\<not> startswith f ''-''"
    and "startswith category p" "\<forall>f \<in> set later. \<not> startswith category (tl f)"
  shows "\<exists>st1 st2. ParseArguments env [''--filter='' @ str_join '','' (earlier @ [sign # p] @ later), f] st = Inr ([f], st1) \<and>
    filters (lstate st1) = DEFAULT_FILTERS @ earlier @ [sign # p] @ later \<and>
    Error filename linenum category confidence message st1 = Inr st2 \<and>
    error_count (lstate st2) = error_count (lstate st1) +
      (if sign = CHR ''+'' \<and> \<not> IsErrorSuppressedByNolint st category linenum \<and> verbose_level (lstate st) \<le> confidence then 1 else 0)"
proof -
  from filter_argument [OF _ assms(1,2), of env st] obtain st1 where
    1: "ParseArguments env [''--filter='' @ str_join '','' (earlier @ [sign # p] @ later), f] st = Inr ([f], st1)"
      "filters (lstate st1) = DEFAULT_FILTERS @ earlier @ [sign # p] @ later" "verbose_level (lstate st1) = verbose_level (lstate st)"
      "error_suppressions st1 = error_suppressions st" "global_error_suppressions st1 = global_error_suppressions st" by auto
  then have supp: "IsErrorSuppressedByNolint st1 category linenum = IsErrorSuppressedByNolint st category linenum"
    by (simp add: IsErrorSuppressedByNolint_def suppressed_on_def)
  have ok: "list_all filter_ok (filters (lstate st1))" unfolding 1(2) by (rule filter_list_read(3) [OF _ assms(1)]) simp
  have "filtered_by_last category (filters (lstate st1)) \<longleftrightarrow> sign = CHR ''-''"
    using last_filter [OF assms(3,4), of "DEFAULT_FILTERS @ earlier" sign] by (simp add: 1(2))
  moreover have "sign = CHR ''+'' \<or> sign = CHR ''-''" using assms(1) by (auto simp: listed_filter_def filter_ok_cases)
  ultimately have "\<exists>st2. Error filename linenum category confidence message st1 = Inr st2 \<and>
    error_count (lstate st2) = error_count (lstate st1) +
      (if sign = CHR ''+'' \<and> \<not> IsErrorSuppressedByNolint st category linenum \<and> verbose_level (lstate st) \<le> confidence then 1 else 0)"
    by (auto simp: report_defs ShouldPrintError_eq [OF ok] Let_def IncrementErrorCount_bump supp 1(3))
  with 1(1,2) show ?thesis by blast
qed

text \<open>The default filter \<open>-build/include_alpha\<close> is overridden by a filter for all of \<open>build\<close>.\<close>

theorem last_filter_decides_witness:
  "\<exists>st1 st2. ParseArguments bare_env [''--filter=-legal,+build,-runtime'', ''a.cc''] (lint_init CppLintState_init) = Inr ([''a.cc''], st1) \<and>
    Error ''a.cc'' (Some 3) ''build/include_alpha'' 4 ''m'' st1 = Inr st2 \<and> error_count (lstate st2) = error_count (lstate st1) + 1"
proof -
  have h: "list_all listed_filter ([''-legal''] @ [CHR ''+'' # ''build''] @ [''-runtime''])" "\<not> startswith ''a.cc'' ''-''"
    "startswith ''build/include_alpha'' ''build''" "list_all (\<lambda>f. \<not> startswith ''build/include_alpha'' (tl f)) [''-runtime'']"
    "''--filter='' @ str_join '','' ([''-legal''] @ [CHR ''+'' # ''build''] @ [''-runtime'']) = ''--filter=-legal,+build,-runtime''"
    "\<not> IsErrorSuppressedByNolint (lint_init CppLintState_init) ''build/include_alpha'' (Some 3)"
    "verbose_level (lstate (lint_init CppLintState_init)) \<le> 4"
    by code_simp+
  from last_filter_decides [OF h(1-3) h(4) [unfolded list_all_iff], of bare_env "lint_init CppLintState_init" "''a.cc''" "Some 3" 4 "''m''"]
  show ?thesis unfolding h(5) using h(6,7) by auto
qed

text \<open>A filter needs a sign: naming a category alone on the command line ends with ValueError, although the usage text
  says that \<open>FOO\<close> means the same as \<open>-FOO\<close> and has an example of it.\<close>

theorem unsigned_filter_rejected:
  assumes "c \<in> set ERROR_CATEGORIES" "\<not> startswith f ''-''"
  shows "\<exists>m. ParseArguments env [''--filter='' @ c, f] st = Inl (ValueError m)"
proof -
  from category_names assms(1) have c: "c \<noteq> []" "filter (\<lambda>f. f \<noteq> []) (map str_strip (str_split (CHR '','') c)) = [c]" "\<not> filter_ok c"
    by (auto simp: list_all_iff)
  have "AddFilters c s = Inl (ValueError (''Every filter in --filters must start with + or - ('' @ c @ '' does not)''))"
    if "filters s = DEFAULT_FILTERS" for s
    using that c by (simp add: AddFilters_def DEFAULT_FILTERS_def filter_ok_def)
  then show ?thesis
    using c(1) by (simp add: ParseArguments_def getopt_filter [OF assms(2), simplified] parse_option_def SetFilters_def Let_def)
qed

theorem unsigned_filter_rejected_witness:
  "\<exists>m. ParseArguments bare_env [''--filter=build/class'', ''a.cc''] (lint_init CppLintState_init) = Inl (ValueError m)"
  using unsigned_filter_rejected [of "''build/class''" "''a.cc''" bare_env "lint_init CppLintState_init"]
  by (simp add: ERROR_CATEGORIES_def)

end
