(* ===== verification/Clang_Format.thy ===== *)
theory Clang_Format
  imports Py_Path
begin

text \<open>
  \<open>run_clang_format.py\<close>: formatting, or checking the format of, the sources below some
  directories.  The file system and clang-format are fields of \<open>fmt_env\<close> and \<open>fmt_state\<close>.

  \<open>difflib.unified_diff\<close> is a field too: the script uses of it only whether the difference is
  empty, and the theorems assume what its documentation says, that it is empty exactly for
  equal lists of lines.
\<close>

section \<open>Library functions\<close>

text \<open>\<open>str.splitlines(True)\<close>: the lines with their ends; a carriage return with a line feed is one end.\<close>

definition is_line_end :: "char \<Rightarrow> bool" where
  "is_line_end c = (let n = ord c in (10 \<le> n \<and> n \<le> 13) \<or> (28 \<le> n \<and> n \<le> 30) \<or> n = 133)"

fun splitlines_keep :: "string \<Rightarrow> string list" where
  "splitlines_keep [] = []"
| "splitlines_keep (c # cs) =
     (if is_line_end c \<and> \<not> (c = CHR 0x0D \<and> startswith cs [newline]) then [c] # splitlines_keep cs
      else (case splitlines_keep cs of [] \<Rightarrow> [[c]] | l # ls \<Rightarrow> (c # l) # ls))"

text \<open>
  \<open>fnmatch.fnmatch\<close> (POSIX, where names are compared as they are): \<open>*\<close> matches any text, \<open>?\<close>
  any character, \<open>[...]\<close> a character of the set, \<open>[!...]\<close> one not in it; a bracket that is not
  closed matches itself.  A closing bracket that comes first in a set belongs to it.
\<close>

definition bracket_end :: "string \<Rightarrow> nat option" where
  "bracket_end p =
     (let k = (if startswith p ''!'' then 1 else 0);
          k = (if startswith (drop k p) '']'' then k + 1 else k)
      in map_option (\<lambda>n. k + n) (find_nat '']'' (drop k p)))"

fun in_ranges :: "string \<Rightarrow> char \<Rightarrow> bool" where
  "in_ranges (a # m # b # rest) c =
     (if m = CHR ''-'' then ord a \<le> ord c \<and> ord c \<le> ord b \<or> in_ranges rest c
      else c = a \<or> in_ranges (m # b # rest) c)"
| "in_ranges (a # rest) c = (c = a \<or> in_ranges rest c)"
| "in_ranges [] c = False"

definition in_bracket :: "string \<Rightarrow> char \<Rightarrow> bool" where
  "in_bracket stuff c = (if startswith stuff ''!'' then \<not> in_ranges (tl stuff) c else in_ranges stuff c)"

text \<open>The fuel is the length of the pattern: each call uses up at least one of its characters.\<close>

fun glob_match :: "nat \<Rightarrow> string \<Rightarrow> string \<Rightarrow> bool" where
  "glob_match 0 p s = (p = [] \<and> s = [])"
| "glob_match (Suc f) [] s = (s = [])"
| "glob_match (Suc f) (c # p) s =
     (if c = CHR ''*'' then list_ex (\<lambda>n. glob_match f p (drop n s)) [0..<Suc (length s)]
      else if c = CHR ''?'' then s \<noteq> [] \<and> glob_match f p (tl s)
      else if c = CHR ''['' \<and> bracket_end p \<noteq> None then
        s \<noteq> [] \<and> in_bracket (take (the (bracket_end p)) p) (hd s) \<and>
        glob_match f (drop (the (bracket_end p) + 1) p) (tl s)
      else s \<noteq> [] \<and> hd s = c \<and> glob_match f p (tl s))"

definition fnmatch :: "string \<Rightarrow> string \<Rightarrow> bool" where
  "fnmatch name pat = glob_match (length pat) pat name"

section \<open>The script\<close>

text \<open>
  The system: the directories that \<open>os.walk\<close> visits (directory, subdirectories, files), the
  output of clang-format for a file (None when the command fails), its effect on the files
  with \<open>-i\<close>, and the difference of two lists of lines.
\<close>

type_synonym file_texts = "string \<Rightarrow> string option"

record fmt_env =
  walk :: "string \<Rightarrow> (string \<times> string list \<times> string list) list"
  format_output :: "string \<Rightarrow> file_texts \<Rightarrow> string \<Rightarrow> string option"
  format_in_place :: "string \<Rightarrow> string list \<Rightarrow> file_texts \<Rightarrow> file_texts option"
  unified_diff :: "string list \<Rightarrow> string list \<Rightarrow> string \<Rightarrow> string \<Rightarrow> string list"

record fmt_args =
  clang_format_binary :: string
  source_dirs :: string
  fix_opt :: bool
  quiet :: bool

record fmt_state =
  texts :: file_texts
  out_lines :: "string list"
  err_lines :: "string list"

definition is_source :: "string \<Rightarrow> bool" where
  "is_source x = (endswith x ''.h'' \<or> endswith x ''.cpp'')"

definition formatted_filenames :: "fmt_env \<Rightarrow> string list \<Rightarrow> string \<Rightarrow> string list" where
  "formatted_filenames env exclude_globs source_dir =
     concat (map (\<lambda>(directory, subdirs, filenames).
       filter (\<lambda>filename. \<not> list_ex (fnmatch filename) exclude_globs)
         (filter is_source (map (path_join2 directory) filenames)))
       (walk env source_dir))"

definition print_line :: "string \<Rightarrow> fmt_state \<Rightarrow> fmt_state" where
  "print_line l st = st\<lparr>out_lines := out_lines st @ [l]\<rparr>"

definition check_file :: "fmt_env \<Rightarrow> fmt_args \<Rightarrow> string \<Rightarrow> bool \<Rightarrow> fmt_state \<Rightarrow> (bool \<times> fmt_state) py" where
  "check_file env args filename error st =
     (let st = (if \<not> quiet args then print_line (''Checking '' @ filename) st else st) in
      case texts st filename of
        None \<Rightarrow> Inl IOError
      | Some original \<Rightarrow>
          (case format_output env (clang_format_binary args) (texts st) filename of
             None \<Rightarrow> Inl CalledProcessError
           | Some formatted \<Rightarrow>
               (let diff = unified_diff env (splitlines_keep original) (splitlines_keep formatted)
                             filename (filename @ '' (after clang format)'')
                in if diff \<noteq> [] then
                     Inr (True, let st = print_line (filename @ '' had clang-format style issues'') st in
                       st\<lparr>err_lines := err_lines st @ diff\<rparr>)
                   else Inr (error, st))))"

fun check_files :: "fmt_env \<Rightarrow> fmt_args \<Rightarrow> string list \<Rightarrow> bool \<Rightarrow> fmt_state \<Rightarrow> (bool \<times> fmt_state) py" where
  "check_files env args [] error st = Inr (error, st)"
| "check_files env args (f # fs) error st =
     py_bind (check_file env args f error st) (\<lambda>(error, st). check_files env args fs error st)"

definition format_check :: "fmt_env \<Rightarrow> fmt_args \<Rightarrow> string list \<Rightarrow> string \<Rightarrow> fmt_state \<Rightarrow> (bool \<times> fmt_state) py" where
  "format_check env args exclude_globs source_dir st =
     (let names = formatted_filenames env exclude_globs source_dir in
      if fix_opt args then
        (let st = (if \<not> quiet args
                   then print_line (str_join [newline] (map (\<lambda>x. ''Formatting '' @ x) names)) st else st)
         in case format_in_place env (clang_format_binary args) names (texts st) of
              None \<Rightarrow> Inl CalledProcessError
            | Some t \<Rightarrow> Inr (False, st\<lparr>texts := t\<rparr>))
      else check_files env args names False st)"

text \<open>The loop over the directories of the main program: \<open>had_err\<close> is that of the last one.\<close>

fun format_dirs :: "fmt_env \<Rightarrow> fmt_args \<Rightarrow> string list \<Rightarrow> string list \<Rightarrow> bool \<Rightarrow> fmt_state \<Rightarrow> (bool \<times> fmt_state) py" where
  "format_dirs env args globs [] had_err st = Inr (had_err, st)"
| "format_dirs env args globs (d # ds) had_err st =
     (if length d > 0
      then py_bind (format_check env args globs d st) (\<lambda>(had_err, st). format_dirs env args globs ds had_err st)
      else format_dirs env args globs ds had_err st)"

definition format_main :: "fmt_env \<Rightarrow> fmt_args \<Rightarrow> string list \<Rightarrow> fmt_state \<Rightarrow> (int \<times> fmt_state) py" where
  "format_main env args glob_lines st =
     py_bind (format_dirs env args (map str_strip glob_lines) (str_split (CHR '','') (source_dirs args)) False st)
       (\<lambda>(had_err, st). Inr (if had_err then 1 else 0, st))"

section \<open>Lemmas\<close>

lemma splitlines_keep_concat [simp]: "concat (splitlines_keep s) = s"
  by (induction s) (auto split: list.splits)

lemma splitlines_keep_inj: "splitlines_keep a = splitlines_keep b \<longleftrightarrow> a = b"
  by (metis splitlines_keep_concat)

text \<open>What a check of a file's format is about: its text differs from what clang-format makes of it.\<close>

definition misformatted :: "fmt_env \<Rightarrow> fmt_args \<Rightarrow> file_texts \<Rightarrow> string \<Rightarrow> bool" where
  "misformatted env args t f = (format_output env (clang_format_binary args) t f \<noteq> t f)"

definition checkable :: "fmt_env \<Rightarrow> fmt_args \<Rightarrow> file_texts \<Rightarrow> string \<Rightarrow> bool" where
  "checkable env args t f = (t f \<noteq> None \<and> format_output env (clang_format_binary args) t f \<noteq> None)"

lemma print_line_texts [simp]: "texts (print_line l st) = texts st" "err_lines (print_line l st) = err_lines st"
  by (simp_all add: print_line_def)

lemma check_file_correct:
  assumes "\<And>a b f t. unified_diff env a b f t = [] \<longleftrightarrow> a = b" "checkable env args (texts st) f"
  shows "\<exists>st'. check_file env args f error st = Inr (error \<or> misformatted env args (texts st) f, st') \<and>
    texts st' = texts st \<and> (err_lines st' = err_lines st \<longleftrightarrow> \<not> misformatted env args (texts st) f)"
  using assms by (auto simp: check_file_def checkable_def misformatted_def splitlines_keep_inj Let_def)

lemma check_files_correct:
  assumes diff: "\<And>a b f t. unified_diff env a b f t = [] \<longleftrightarrow> a = b"
  shows "list_all (checkable env args (texts st)) fs \<Longrightarrow>
    \<exists>st'. check_files env args fs error st = Inr (error \<or> list_ex (misformatted env args (texts st)) fs, st') \<and>
      texts st' = texts st"
proof (induction fs arbitrary: error st)
  case (Cons f fs)
  then have "checkable env args (texts st) f" by simp
  from check_file_correct [OF diff this] obtain st1 where
    1: "check_file env args f error st = Inr (error \<or> misformatted env args (texts st) f, st1)" "texts st1 = texts st"
    by blast
  with Cons.IH [of st1 "error \<or> misformatted env args (texts st) f"] Cons.prems show ?case by auto
qed simp

section \<open>A sample system\<close>

text \<open>Two directories; only the file of the first one is not formatted.\<close>

definition sample_fmt_env :: fmt_env where
  "sample_fmt_env = \<lparr>walk = (\<lambda>d. [(d, [], [''x.cpp'', ''notes.txt''])]),
     format_output = (\<lambda>b t f. Some ''int x;''), format_in_place = (\<lambda>b fs t. Some t),
     unified_diff = (\<lambda>a b f t. if a = b then [] else [f])\<rparr>"

definition sample_fmt_args :: fmt_args where
  "sample_fmt_args = \<lparr>clang_format_binary = ''clang-format'', source_dirs = ''a,b'', fix_opt = False, quiet = True\<rparr>"

definition sample_fmt_state :: fmt_state where
  "sample_fmt_state = \<lparr>texts = (\<lambda>f. if f = ''a/x.cpp'' then Some ''int  x;'' else Some ''int x;''), out_lines = [], err_lines = []\<rparr>"

lemma map_sum_fst_Inr: "map_sum id fst r = Inr x \<Longrightarrow> \<exists>y. r = Inr (x, y)"
  by (cases r) auto

section \<open>Properties\<close>

text \<open>C28. Checking a directory: if every source file found below it can be read and formatted,
  the result is that an issue was found exactly when some file's text differs from what
  clang-format makes of it (the file names end in \<open>.h\<close> or \<open>.cpp\<close> and match none of the
  globs), and no file is changed.  Assumed of \<open>difflib\<close>: a difference is empty exactly for
  equal lists of lines.\<close>

theorem format_check_correct:
  assumes diff: "\<And>a b f t. unified_diff env a b f t = [] \<longleftrightarrow> a = b"
    and "\<not> fix_opt args"
    and "\<forall>f \<in> set (formatted_filenames env globs d). \<exists>a b. texts st f = Some a \<and>
           format_output env (clang_format_binary args) (texts st) f = Some b"
  shows "\<exists>st'. format_check env args globs d st =
      Inr (\<exists>f \<in> set (formatted_filenames env globs d).
             format_output env (clang_format_binary args) (texts st) f \<noteq> texts st f, st') \<and>
    texts st' = texts st \<and>
    (\<forall>f \<in> set (formatted_filenames env globs d). is_source f \<and> (\<forall>g \<in> set globs. \<not> fnmatch f g))"
proof -
  have "list_all (checkable env args (texts st)) (formatted_filenames env globs d)"
    using assms(3) by (auto simp: list_all_iff checkable_def)
  from check_files_correct [OF diff this, of False] obtain st' where
    "format_check env args globs d st =
       Inr (list_ex (misformatted env args (texts st)) (formatted_filenames env globs d), st')" "texts st' = texts st"
    using assms(2) by (auto simp: format_check_def)
  then show ?thesis
    by (auto simp: list_ex_iff misformatted_def) (auto simp: formatted_filenames_def list_ex_iff)
qed

theorem format_check_correct_witness:
  "\<exists>st'. format_check sample_fmt_env sample_fmt_args [] ''a'' sample_fmt_state =
      Inr (\<exists>f \<in> set (formatted_filenames sample_fmt_env [] ''a'').
             format_output sample_fmt_env (clang_format_binary sample_fmt_args) (texts sample_fmt_state) f \<noteq>
             texts sample_fmt_state f, st') \<and>
    texts st' = texts sample_fmt_state \<and>
    (\<forall>f \<in> set (formatted_filenames sample_fmt_env [] ''a''). is_source f \<and> (\<forall>g \<in> set []. \<not> fnmatch f g))"
  by (rule format_check_correct) (auto simp: sample_fmt_env_def sample_fmt_args_def sample_fmt_state_def)

text \<open>C40. The exit code of the script is that of the last directory given: whatever was found in
  the directories before it is forgotten.\<close>

theorem format_exit_last_dir:
  assumes "str_split (CHR '','') (source_dirs args) = ds @ [d]" "d \<noteq> []"
    and "format_dirs env args (map str_strip globs) ds False st = Inr (issues_before, st1)"
    and "format_check env args (map str_strip globs) d st1 = Inr (issues, st2)"
  shows "format_main env args globs st = Inr (if issues then 1 else 0, st2)"
proof -
  have "format_dirs env args gs (ds @ [d]) e st = Inr (issues, st2)"
    if "format_dirs env args gs ds e st = Inr (eb, st1)" "format_check env args gs d st1 = Inr (issues, st2)" for gs e eb
    using that
  proof (induction ds arbitrary: e st)
    case Nil
    then show ?case using assms(2) by simp
  next
    case (Cons a ds)
    then show ?case by (auto simp: py_bind_Inr_iff split: if_splits)
  qed
  from this [OF assms(3,4)] show ?thesis by (simp add: format_main_def assms(1))
qed

theorem format_exit_last_dir_witness:
  "\<exists>st1 st2. format_check sample_fmt_env sample_fmt_args [] ''a'' sample_fmt_state = Inr (True, st1) \<and>
     format_main sample_fmt_env sample_fmt_args [] sample_fmt_state = Inr (0, st2)"
proof -
  let ?r = "format_check sample_fmt_env sample_fmt_args [] ''a'' sample_fmt_state"
  let ?b = "py_bind ?r (\<lambda>(e, st). format_check sample_fmt_env sample_fmt_args [] ''b'' st)"
  have "map_sum id fst ?r = Inr True" "map_sum id fst ?b = Inr False" by code_simp+
  then obtain st1 st2 where r: "?r = Inr (True, st1)"
    "format_check sample_fmt_env sample_fmt_args [] ''b'' st1 = Inr (False, st2)"
    using map_sum_fst_Inr [of ?r True] map_sum_fst_Inr [of ?b False] by fastforce
  have s: "str_split (CHR '','') (source_dirs sample_fmt_args) = [''a''] @ [''b'']" by code_simp
  have "format_main sample_fmt_env sample_fmt_args [] sample_fmt_state = Inr (if False then 1 else 0, st2)"
    by (rule format_exit_last_dir [OF s]) (use r in simp_all)
  with r(1) show ?thesis by simp
qed

end
