(* ===== verification/Clang_Tidy.thy ===== *)
theory Clang_Tidy
  imports Py_Regex Py_Path "HOL-Library.Multiset"
begin

text \<open>
  \<open>run_clang_tidy.py\<close> and \<open>run_clang_tidy_extra.py\<close>: the parallel runner of clang-tidy.  The
  main thread fills a bounded queue with the files of the compilation database, the worker
  threads (\<open>run_tidy\<close>) take them out and run clang-tidy, and the main thread waits until
  every task is done.

  The threads are a step relation on the record \<open>tidy_state\<close>: one rule per statement that
  touches shared state, in any order the scheduler likes.  What clang-tidy answers for a file
  and which files exist are fields of \<open>tidy_env\<close>.
\<close>

section \<open>Which files are skipped\<close>

definition ignore_pats :: "string list" where
  "ignore_pats = [''.*/third_party/.*'']"

definition should_skip :: "string \<Rightarrow> bool" where
  "should_skip path = list_ex (\<lambda>pat. re_match (re_const pat) path \<noteq> None) ignore_pats"

section \<open>Paths and command lines\<close>

text \<open>
  What the script asks of the system: whether a path is a file, the real path (symbolic links
  resolved) of a path, whether a command can be run with success or can be
  started at all, the exit code and the decoded standard output of a clang-tidy command line
  (None if its output or its error output is not valid UTF-8), the compilation database below a
  directory (file and directory of each entry, or the exception of opening, parsing or indexing it), the number of
  processors, the names of a fresh temporary directory and of a fresh temporary file (the
  files made before are the second argument), and which files can be opened for writing.
\<close>

record tidy_env =
  isfile :: "string \<Rightarrow> bool"
  realpath :: "string \<Rightarrow> string"
  command_ok :: "string list \<Rightarrow> bool"
  can_start :: "string list \<Rightarrow> bool"
  tidy_returncode :: "string list \<Rightarrow> int"
  tidy_output :: "string list \<Rightarrow> string option"
  load_database :: "string \<Rightarrow> (string \<times> string) list py"
  cpu_count :: int
  mkdtemp :: string
  mkstemp :: "string \<Rightarrow> string list \<Rightarrow> string"
  writable :: "string \<Rightarrow> bool"

partial_function (option) climb_database :: "tidy_env \<Rightarrow> string \<Rightarrow> string \<Rightarrow> string py option" where
  "climb_database env path result =
     (if isfile env (path_join2 result path) then Some (Inr (realpath env result))
      else if realpath env result = ''/'' then Some (Inl (SystemExit 1))
      else climb_database env path (result @ ''../''))"

declare climb_database.simps [code]

definition find_compilation_database :: "tidy_env \<Rightarrow> string \<Rightarrow> string py" where
  "find_compilation_database env path =
     (case climb_database env path ''./'' of None \<Rightarrow> Inl Diverges | Some r \<Rightarrow> r)"

definition make_absolute :: "string \<Rightarrow> string \<Rightarrow> string" where
  "make_absolute f directory = (if path_isabs f then f else path_normpath (path_join2 directory f))"

text \<open>The options of the command line, with the defaults of the argument parser.\<close>

record tidy_args =
  clang_tidy_binary :: string
  clang_apply_replacements_binary :: string
  checks :: "string option"
  config :: "string option"
  header_filter :: "string option"
  export_fixes :: "string option"
  jobs :: int
  file_patterns :: "string list"
  fix_its :: bool
  reformat :: bool
  style :: string
  build_path_arg :: "string option"
  extra_arg :: "string list"
  extra_arg_before :: "string list"
  quiet_mode :: bool

definition default_args :: tidy_args where
  "default_args = \<lparr>clang_tidy_binary = ''clang-tidy'',
     clang_apply_replacements_binary = ''clang-apply-replacements'',
     checks = None, config = None, header_filter = None, export_fixes = None, jobs = 0,
     file_patterns = [''.*''], fix_its = False, reformat = False, style = ''file'', build_path_arg = None,
     extra_arg = [], extra_arg_before = [], quiet_mode = False\<rparr>"

text \<open>An option that is None or empty is false in a condition.\<close>

definition truthy :: "string option \<Rightarrow> bool" where
  "truthy opt = (opt \<noteq> None \<and> opt \<noteq> Some [])"

text \<open>\<open>tmpname\<close> is the name of the temporary file made for the fixes, if there is a directory for it.\<close>

definition get_tidy_invocation :: "string \<Rightarrow> string \<Rightarrow> string option \<Rightarrow> string option \<Rightarrow> string \<Rightarrow>
    string option \<Rightarrow> string list \<Rightarrow> string list \<Rightarrow> bool \<Rightarrow> string option \<Rightarrow> string list" where
  "get_tidy_invocation f binary check_list tmpname path hfilter extra extra_before quiet conf =
     [binary] @
     (case hfilter of Some h \<Rightarrow> [''-header-filter='' @ h] | None \<Rightarrow> []) @
     (if truthy check_list then [''-checks='' @ the check_list] else []) @
     (case tmpname of Some name \<Rightarrow> [''-export-fixes'', name] | None \<Rightarrow> []) @
     map (\<lambda>arg. ''-extra-arg='' @ arg) extra @
     map (\<lambda>arg. ''-extra-arg-before='' @ arg) extra_before @
     [''-p='' @ path] @
     (if quiet then [''-quiet''] else []) @
     (if truthy conf then [''-config='' @ the conf] else []) @
     [f]"

section \<open>The threads\<close>

text \<open>A worker is waiting for a file, has taken one, or has the output of its run to print; or its thread
  ended with an exception, as clang-tidy could not be started on its file or the output could not be
  decoded, in both cases without a call of \<open>task_done\<close>.\<close>

datatype worker = Waiting | Took string "string list" | Ran "string option" | NotStarted string | Undecoded

datatype main_pc = Filling "string list" | Joining | Finished int

record tidy_setup =
  tidy_args_of :: tidy_args
  tmpdir :: "string option"
  build_path :: string
  file_name_re :: regex
  max_task :: int

record tidy_state =
  task_queue :: "string list"
  unfinished_tasks :: nat
  workers :: "worker list"
  main_at :: main_pc
  failed_files :: "string list"
  temp_files :: "string list"
  printed :: "string list"

text \<open>\<open>queue.Queue(max_task)\<close>: without a positive bound the queue is never full.\<close>

definition queue_full :: "tidy_setup \<Rightarrow> string list \<Rightarrow> bool" where
  "queue_full su q = (0 < max_task su \<and> max_task su \<le> int (length q))"

definition new_temp :: "tidy_env \<Rightarrow> tidy_setup \<Rightarrow> string list \<Rightarrow> string option" where
  "new_temp env su temps = map_option (\<lambda>d. mkstemp env d temps) (tmpdir su)"

definition invocation :: "tidy_setup \<Rightarrow> string \<Rightarrow> string option \<Rightarrow> string list" where
  "invocation su name tmpname =
     (let args = tidy_args_of su in
      get_tidy_invocation name (clang_tidy_binary args) (checks args) tmpname (build_path su)
        (header_filter args) (extra_arg args) (extra_arg_before args) (quiet_mode args) (config args))"

definition take_task :: "tidy_env \<Rightarrow> tidy_setup \<Rightarrow> nat \<Rightarrow> string \<Rightarrow> string list \<Rightarrow> tidy_state \<Rightarrow> tidy_state" where
  "take_task env su i name rest s =
     (let tmp = new_temp env su (temp_files s) in
      s\<lparr>task_queue := rest,
        workers := (workers s)[i := Took name (invocation su name tmp)],
        temp_files := temp_files s @ (case tmp of None \<Rightarrow> [] | Some t \<Rightarrow> [t]),
        printed := printed s @ [CHR 0x0D # '' Checking: '' @ name]\<rparr>)"

definition run_task :: "tidy_env \<Rightarrow> nat \<Rightarrow> string \<Rightarrow> string list \<Rightarrow> tidy_state \<Rightarrow> tidy_state" where
  "run_task env i name cmd s =
     s\<lparr>workers := (workers s)[i := Ran (tidy_output env cmd)],
       failed_files := failed_files s @ (if tidy_returncode env cmd \<noteq> 0 then [name] else [])\<rparr>"

definition task_done :: "nat \<Rightarrow> tidy_state \<Rightarrow> tidy_state" where
  "task_done i s = s\<lparr>workers := (workers s)[i := Waiting], unfinished_tasks := unfinished_tasks s - 1\<rparr>"

definition print_output :: "string \<Rightarrow> tidy_state \<Rightarrow> tidy_state" where
  "print_output out s = s\<lparr>printed := printed s @ (if out \<noteq> [] then [[newline], out] else [])\<rparr>"

definition worker_ends :: "nat \<Rightarrow> worker \<Rightarrow> tidy_state \<Rightarrow> tidy_state" where
  "worker_ends i w s = s\<lparr>workers := (workers s)[i := w]\<rparr>"

text \<open>
  One rule per step of the main thread (the loop that fills the queue, then the join) and of
  a worker.  A name that the filter does not match leaves the main thread where it is:
  \<open>put_file\<close> stays false and the loop starts over.
\<close>

inductive tidy_step :: "tidy_env \<Rightarrow> tidy_setup \<Rightarrow> tidy_state \<Rightarrow> tidy_state \<Rightarrow> bool" for env su where
  put: "main_at s = Filling (name # rest) \<Longrightarrow> re_search (file_name_re su) name \<noteq> None \<Longrightarrow>
    \<not> queue_full su (task_queue s) \<Longrightarrow>
    tidy_step env su s (s\<lparr>task_queue := task_queue s @ [name], unfinished_tasks := unfinished_tasks s + 1,
      main_at := Filling rest\<rparr>)"
| timed_out: "main_at s = Filling (name # rest) \<Longrightarrow> re_search (file_name_re su) name \<noteq> None \<Longrightarrow>
    queue_full su (task_queue s) \<Longrightarrow>
    tidy_step env su s (s\<lparr>printed := printed s @ [''Still waiting to put files into clang-tidy queue.'']\<rparr>)"
| no_match: "main_at s = Filling (name # rest) \<Longrightarrow> re_search (file_name_re su) name = None \<Longrightarrow>
    tidy_step env su s s"
| join: "main_at s = Filling [] \<Longrightarrow> tidy_step env su s (s\<lparr>main_at := Joining\<rparr>)"
| joined: "main_at s = Joining \<Longrightarrow> unfinished_tasks s = 0 \<Longrightarrow>
    tidy_step env su s (s\<lparr>main_at := Finished (if failed_files s \<noteq> [] then 1 else 0)\<rparr>)"
| take: "i < length (workers s) \<Longrightarrow> workers s ! i = Waiting \<Longrightarrow> task_queue s = name # rest \<Longrightarrow>
    tidy_step env su s (take_task env su i name rest s)"
| skip: "i < length (workers s) \<Longrightarrow> workers s ! i = Took name cmd \<Longrightarrow> should_skip name \<Longrightarrow>
    tidy_step env su s (task_done i s)"
| run: "i < length (workers s) \<Longrightarrow> workers s ! i = Took name cmd \<Longrightarrow> \<not> should_skip name \<Longrightarrow> can_start env cmd \<Longrightarrow>
    tidy_step env su s (run_task env i name cmd s)"
| not_started: "i < length (workers s) \<Longrightarrow> workers s ! i = Took name cmd \<Longrightarrow> \<not> should_skip name \<Longrightarrow> \<not> can_start env cmd \<Longrightarrow>
    tidy_step env su s (worker_ends i (NotStarted name) s)"
| finish: "i < length (workers s) \<Longrightarrow> workers s ! i = Ran (Some out) \<Longrightarrow>
    tidy_step env su s (task_done i (print_output out s))"
| undecoded: "i < length (workers s) \<Longrightarrow> workers s ! i = Ran None \<Longrightarrow>
    tidy_step env su s (worker_ends i Undecoded s)"

section \<open>Before and after the threads\<close>

definition check_clang_apply_replacements_binary :: "tidy_env \<Rightarrow> tidy_args \<Rightarrow> unit py" where
  "check_clang_apply_replacements_binary env args =
     (if command_ok env [clang_apply_replacements_binary args, ''--version''] then Inr () else Inl (SystemExit 1))"

definition list_checks_invocation :: "tidy_args \<Rightarrow> string \<Rightarrow> string list" where
  "list_checks_invocation args path =
     [clang_tidy_binary args, ''-list-checks'', ''-p='' @ path] @
     (if truthy (checks args) then [''-checks='' @ the (checks args)] else []) @ [''-'']"

definition tidy_start :: "tidy_env \<Rightarrow> tidy_args \<Rightarrow> (tidy_setup \<times> tidy_state) py" where
  "tidy_start env args =
     py_bind (case build_path_arg args of Some p \<Rightarrow> Inr p
              | None \<Rightarrow> find_compilation_database env ''compile_commands.json'') (\<lambda>path.
     if \<not> command_ok env (list_checks_invocation args path) then Inl (SystemExit 1)
     else
     py_bind (load_database env (path_join2 path ''compile_commands.json'')) (\<lambda>database.
     let files = map (\<lambda>(f, directory). make_absolute f directory) database;
         max_task = (if jobs args = 0 then cpu_count env else jobs args)
     in
     py_bind (if fix_its args \<or> truthy (export_fixes args)
              then py_bind (check_clang_apply_replacements_binary env args) (\<lambda>_. Inr (Some (mkdtemp env)))
              else Inr None) (\<lambda>tmpdir.
     py_bind (case re_compile (str_join ''|'' (file_patterns args)) of
                Some r \<Rightarrow> Inr r | None \<Rightarrow> Inl ReError) (\<lambda>r.
     Inr (\<lparr>tidy_args_of = args, tmpdir = tmpdir, build_path = path, file_name_re = r, max_task = max_task\<rparr>,
          \<lparr>task_queue = [], unfinished_tasks = 0, workers = replicate (nat max_task) Waiting,
           main_at = Filling files, failed_files = [], temp_files = [], printed = []\<rparr>)))))"

text \<open>
  Merging the fixes of all files.  The script has no module \<open>yaml\<close> (its import is commented
  out), so reading the first of them raises NameError; without any, the output is emptied.
\<close>

definition merge_replacement_files :: "tidy_env \<Rightarrow> string list \<Rightarrow> string \<Rightarrow> unit py" where
  "merge_replacement_files env yaml_files mergefile =
     (if yaml_files \<noteq> [] then Inl NameError
      else if writable env mergefile then Inr () else Inl IOError)"

definition apply_fixes_invocation :: "tidy_args \<Rightarrow> string \<Rightarrow> string list" where
  "apply_fixes_invocation args dir =
     [clang_apply_replacements_binary args] @ (if reformat args then [''-format''] else []) @
     (if style args \<noteq> [] then [''-style='' @ style args] else []) @ [dir]"

text \<open>The exit code of the script from the return code at the end of the join.\<close>

definition tidy_exit :: "tidy_env \<Rightarrow> tidy_setup \<Rightarrow> tidy_state \<Rightarrow> int \<Rightarrow> int" where
  "tidy_exit env su s return_code =
     (let args = tidy_args_of su;
          rc = (if truthy (export_fixes args) then
                  (case merge_replacement_files env (temp_files s) (the (export_fixes args)) of
                     Inl _ \<Rightarrow> 1 | Inr _ \<Rightarrow> return_code)
                else return_code)
      in if fix_its args then
           (case tmpdir su of
              Some d \<Rightarrow> if can_start env (apply_fixes_invocation args d) then rc else 1
            | None \<Rightarrow> 1)
         else rc)"

section \<open>Systems that can always finish\<close>

text \<open>
  The interface of a step relation with an invariant and a measure: wherever the invariant
  holds, either the state is final or some step makes the measure smaller.  Then every state
  can reach a final one.
\<close>

locale progress_system =
  fixes step :: "'s \<Rightarrow> 's \<Rightarrow> bool"
    and Inv :: "'s \<Rightarrow> bool"
    and final :: "'s \<Rightarrow> bool"
    and work :: "'s \<Rightarrow> nat"
  assumes step_inv: "\<And>s s'. Inv s \<Longrightarrow> step s s' \<Longrightarrow> Inv s'"
    and progress: "\<And>s. Inv s \<Longrightarrow> \<not> final s \<Longrightarrow> \<exists>s'. step s s' \<and> work s' < work s"
begin

lemma reachable_inv: "step\<^sup>*\<^sup>* s s' \<Longrightarrow> Inv s \<Longrightarrow> Inv s'"
  by (induction rule: rtranclp_induct) (auto intro: step_inv)

lemma can_finish: "Inv s \<Longrightarrow> \<exists>s'. step\<^sup>*\<^sup>* s s' \<and> final s'"
proof (induction "work s" arbitrary: s rule: less_induct)
  case less
  show ?case
  proof (cases "final s")
    case False
    from progress [OF less.prems this] obtain s1 where s1: "step s s1" "work s1 < work s" by blast
    from less.hyps [OF s1(2) step_inv [OF less.prems s1(1)]] s1(1) show ?thesis
      by (meson converse_rtranclp_into_rtranclp)
  qed blast
qed

lemma reachable_can_finish: "Inv s \<Longrightarrow> step\<^sup>*\<^sup>* s s' \<Longrightarrow> \<exists>s''. step\<^sup>*\<^sup>* s' s'' \<and> final s''"
  using reachable_inv can_finish by blast

end

text \<open>
  An execution is an endless sequence of states: each is followed by the one that some step leads to, or, if no step is
  possible, by itself; so a deadlock is an execution too, which stands still from there on.  It is fair if it does not idle for ever
  while a step that is not idle is possible all the time.
\<close>

definition run_of :: "('s \<Rightarrow> 's \<Rightarrow> bool) \<Rightarrow> (nat \<Rightarrow> 's) \<Rightarrow> bool" where
  "run_of step r = (\<forall>i. step (r i) (r (Suc i)) \<or> (\<nexists>s'. step (r i) s') \<and> r (Suc i) = r i)"

definition fair_run :: "('s \<Rightarrow> 's \<Rightarrow> bool) \<Rightarrow> ('s \<Rightarrow> 's \<Rightarrow> bool) \<Rightarrow> (nat \<Rightarrow> 's) \<Rightarrow> bool" where
  "fair_run step idle r =
     (\<forall>i. (\<forall>j \<ge> i. \<exists>s'. step (r j) s' \<and> \<not> idle (r j) s') \<longrightarrow> (\<exists>j \<ge> i. \<not> idle (r j) (r (Suc j))))"

lemma fair_run_exists: "\<exists>r. r 0 = s \<and> run_of step r \<and> fair_run step idle r"
proof -
  have "\<forall>s. \<exists>s'. (step s s' \<or> (\<nexists>t. step s t) \<and> s' = s) \<and> ((\<exists>t. step s t \<and> \<not> idle s t) \<longrightarrow> \<not> idle s s')" by blast
  from choice [OF this] obtain nxt where n: "step s (nxt s) \<or> (\<nexists>t. step s t) \<and> nxt s = s"
    "\<exists>t. step s t \<and> \<not> idle s t \<Longrightarrow> \<not> idle s (nxt s)" for s by blast
  define r where "r i = (nxt ^^ i) s" for i
  have r: "r 0 = s" "r (Suc i) = nxt (r i)" for i by (simp_all add: r_def)
  have "run_of step r" "fair_run step idle r" unfolding run_of_def fair_run_def r(2) using n by blast+
  with r(1) show ?thesis by blast
qed

text \<open>
  If in addition every step that is not idle makes the measure smaller, an execution can take only as many such steps as
  the measure says, and every fair one reaches a final state: where it has not, the progress law gives a step that is not idle.
\<close>

locale terminating_system = progress_system step Inv final work for step Inv final work +
  fixes idle :: "'s \<Rightarrow> 's \<Rightarrow> bool"
  assumes step_work: "\<And>s s'. Inv s \<Longrightarrow> step s s' \<Longrightarrow> if idle s s' then work s' = work s else work s' < work s"
begin

lemma run_inv: "run_of step r \<Longrightarrow> Inv (r 0) \<Longrightarrow> Inv (r i)"
proof (induction i)
  case (Suc i)
  then show ?case using step_inv [of "r i" "r (Suc i)"] unfolding run_of_def by metis
qed

lemma working_step: "Inv s \<Longrightarrow> \<not> final s \<Longrightarrow> \<exists>s'. step s s' \<and> \<not> idle s s'"
  using progress [of s] step_work [of s] by (metis less_irrefl)

lemma run_finishes:
  assumes "run_of step r" "Inv (r 0)" "fair_run step idle r"
  shows "\<exists>i. final (r i)"
proof (rule ccontr)
  assume nf: "\<not> (\<exists>i. final (r i))"
  note inv = run_inv [OF assms(1,2)]
  from nf working_step [OF inv] have working: "\<exists>s'. step (r i) s' \<and> \<not> idle (r i) s'" for i by blast
  with assms(1) have st: "step (r i) (r (Suc i))" for i unfolding run_of_def by blast
  note w = step_work [OF inv st]
  then have "work (r (Suc i)) \<le> work (r i)" for i by (metis less_or_eq_imp_le)
  then have mono: "work (r j) \<le> work (r i)" if "i \<le> j" for i j using that by (rule lift_Suc_antimono_le)
  have "\<exists>j. work (r j) + n \<le> work (r 0)" for n
  proof (induction n)
    case (Suc n)
    then obtain j where j: "work (r j) + n \<le> work (r 0)" by blast
    from assms(3) working obtain k where k: "j \<le> k" "\<not> idle (r k) (r (Suc k))" unfolding fair_run_def by blast
    with w [of k] mono [OF k(1)] j show ?case by (intro exI [of _ "Suc k"]) simp
  qed auto
  from this [of "Suc (work (r 0))"] show False by auto
qed

end

section \<open>The invariant of the threads\<close>

fun to_fill :: "main_pc \<Rightarrow> string list" where
  "to_fill (Filling fs) = fs"
| "to_fill _ = []"

fun is_finished :: "main_pc \<Rightarrow> bool" where
  "is_finished (Finished _) = True"
| "is_finished _ = False"

definition busy :: "tidy_state \<Rightarrow> nat" where
  "busy s = length (filter (\<lambda>w. w \<noteq> Waiting) (workers s))"

text \<open>The files a worker has taken and not run.\<close>

fun taken :: "worker \<Rightarrow> string list" where
  "taken (Took name cmd) = [name]"
| "taken (NotStarted name) = [name]"
| "taken _ = []"

definition pending :: "tidy_state \<Rightarrow> string list" where
  "pending s = to_fill (main_at s) @ task_queue s @ concat (map taken (workers s))"

definition tidy_fails :: "tidy_env \<Rightarrow> tidy_setup \<Rightarrow> string \<Rightarrow> bool" where
  "tidy_fails env su name = (\<not> should_skip name \<and> tidy_returncode env (invocation su name None) \<noteq> 0)"

text \<open>
  Every task put is unfinished until its worker is done with it; the queue keeps its bound;
  the main thread is past the join only with nothing left to do; commands belong to the
  files taken; the failures so far and those still to come are those of the database.
\<close>

definition tidy_inv :: "tidy_env \<Rightarrow> tidy_setup \<Rightarrow> string list \<Rightarrow> tidy_state \<Rightarrow> bool" where
  "tidy_inv env su files s =
     (unfinished_tasks s = length (task_queue s) + busy s \<and>
      (0 < max_task su \<longrightarrow> int (length (task_queue s)) \<le> max_task su) \<and>
      (\<forall>rc. main_at s = Finished rc \<longrightarrow> unfinished_tasks s = 0 \<and> rc = (if failed_files s \<noteq> [] then 1 else 0)) \<and>
      (tmpdir su = None \<longrightarrow>
        (\<forall>name cmd. Took name cmd \<in> set (workers s) \<longrightarrow> cmd = invocation su name None) \<and>
        mset (failed_files s) + mset (filter (tidy_fails env su) (pending s)) = mset (filter (tidy_fails env su) files)))"

lemma busy_update:
  assumes "i < length ws"
  shows "length (filter P (ws[i := w])) + (if P (ws ! i) then 1 else 0) = length (filter P ws) + (if P w then 1 else 0)"
  using assms
proof (induction ws arbitrary: i)
  case (Cons v ws)
  show ?case
  proof (cases i)
    case (Suc j)
    then show ?thesis using Cons.IH [of j] Cons.prems by simp
  qed simp
qed simp

lemma taken_update:
  assumes "i < length ws"
  shows "mset (concat (map taken (ws[i := w]))) + mset (taken (ws ! i)) = mset (concat (map taken ws)) + mset (taken w)"
  using assms
proof (induction ws arbitrary: i)
  case (Cons v ws)
  then show ?case by (cases i) (simp_all add: ac_simps)
qed simp

lemma taken_update_filter:
  assumes "i < length ws"
  shows "mset (filter P (concat (map taken (ws[i := w])))) + mset (filter P (taken (ws ! i))) =
    mset (filter P (concat (map taken ws))) + mset (filter P (taken w))"
  using arg_cong [OF taken_update [OF assms, of w], of "filter_mset P"] by (simp add: mset_filter)

lemma took_update: "Took nm c \<in> set (ws[i := w]) \<Longrightarrow> Took nm c \<in> set ws \<or> w = Took nm c"
  using set_update_subset_insert [of ws i w] by auto

lemma busy_done:
  assumes "i < length (workers s)" "workers s ! i \<noteq> Waiting"
  shows "Suc (length (filter (\<lambda>w. w \<noteq> Waiting) ((workers s)[i := Waiting]))) = busy s"
  using assms(2) busy_update [OF assms(1), of "\<lambda>w. w \<noteq> Waiting" Waiting] by (simp add: busy_def)

lemma task_done_inv:
  assumes "tidy_inv env su files s" "i < length (workers s)" "workers s ! i \<noteq> Waiting"
    and "filter (tidy_fails env su) (taken (workers s ! i)) = []"
  shows "tidy_inv env su files (task_done i s)"
proof -
  have "Suc (busy (task_done i s)) = busy s" using busy_done [OF assms(2,3)] by (simp add: task_done_def busy_def)
  moreover have "mset (filter (tidy_fails env su) (pending (task_done i s))) = mset (filter (tidy_fails env su) (pending s))"
    using taken_update_filter [OF assms(2), of "tidy_fails env su" Waiting] assms(4)
    by (simp add: pending_def task_done_def)
  moreover have "Took nm c \<in> set (workers (task_done i s)) \<Longrightarrow> Took nm c \<in> set (workers s)" for nm c
    using took_update [of nm c "workers s" i Waiting] by (simp add: task_done_def)
  ultimately show ?thesis using assms(1) by (auto simp: tidy_inv_def task_done_def)
qed

lemma print_output_inv: "tidy_inv env su files (print_output out s) = tidy_inv env su files s"
  by (simp add: print_output_def busy_def pending_def tidy_inv_def)

lemma take_task_inv:
  assumes "tidy_inv env su files s" "i < length (workers s)" "workers s ! i = Waiting" "task_queue s = name # rest"
  shows "tidy_inv env su files (take_task env su i name rest s)"
proof -
  let ?s' = "take_task env su i name rest s"
  let ?w = "Took name (invocation su name (new_temp env su (temp_files s)))"
  have s': "workers ?s' = (workers s)[i := ?w]" "main_at ?s' = main_at s" "task_queue ?s' = rest"
    "failed_files ?s' = failed_files s" "unfinished_tasks ?s' = unfinished_tasks s"
    by (simp_all add: take_task_def Let_def)
  have "busy ?s' = Suc (busy s)"
    using assms(3) busy_update [OF assms(2), of "\<lambda>w. w \<noteq> Waiting" ?w] by (simp add: busy_def s')
  moreover have "mset (filter P (pending ?s')) = mset (filter P (pending s))" for P
    using taken_update_filter [OF assms(2), of P ?w] assms(3,4) by (auto simp: pending_def s')
  moreover have "cmd = invocation su nm None" if "tmpdir su = None" "Took nm cmd \<in> set (workers ?s')" for nm cmd
    using that assms(1) took_update [of nm cmd "workers s" i ?w] by (auto simp: tidy_inv_def new_temp_def s')
  ultimately show ?thesis using assms(1,4) by (auto simp: tidy_inv_def s')
qed

lemma run_task_inv:
  assumes "tidy_inv env su files s" "i < length (workers s)" "workers s ! i = Took name cmd" "\<not> should_skip name"
  shows "tidy_inv env su files (run_task env i name cmd s)"
proof -
  let ?s' = "run_task env i name cmd s" and ?w = "Ran (tidy_output env cmd)"
  have s': "workers ?s' = (workers s)[i := ?w]" "main_at ?s' = main_at s" "task_queue ?s' = task_queue s"
    "unfinished_tasks ?s' = unfinished_tasks s"
    by (simp_all add: run_task_def)
  have "busy ?s' = busy s"
    using assms(3) busy_update [OF assms(2), of "\<lambda>w. w \<noteq> Waiting" ?w] by (simp add: busy_def s')
  moreover have "0 < busy s" using busy_done [OF assms(2)] assms(3) by fastforce
  moreover have "mset (failed_files ?s') + mset (filter (tidy_fails env su) (pending ?s')) =
      mset (failed_files s) + mset (filter (tidy_fails env su) (pending s))" if "tmpdir su = None"
  proof -
    have "Took name cmd \<in> set (workers s)" using assms(2,3) by (metis nth_mem)
    then have "cmd = invocation su name None" using assms(1) that by (simp add: tidy_inv_def)
    then show ?thesis
      using taken_update_filter [OF assms(2), of "tidy_fails env su" ?w] assms(3,4)
      by (auto simp: pending_def run_task_def tidy_fails_def)
  qed
  moreover have "Took nm c \<in> set (workers ?s') \<Longrightarrow> Took nm c \<in> set (workers s)" for nm c
    using took_update [of nm c "workers s" i ?w] by (auto simp: s')
  ultimately show ?thesis using assms(1) by (auto simp: tidy_inv_def s')
qed

lemma worker_ends_inv:
  assumes "tidy_inv env su files s" "i < length (workers s)" "workers s ! i \<noteq> Waiting" "w \<noteq> Waiting"
    and "taken w = taken (workers s ! i)" "\<forall>nm c. w \<noteq> Took nm c"
  shows "tidy_inv env su files (worker_ends i w s)"
proof -
  let ?s' = "worker_ends i w s"
  have s': "workers ?s' = (workers s)[i := w]" "main_at ?s' = main_at s" "task_queue ?s' = task_queue s"
    "failed_files ?s' = failed_files s" "unfinished_tasks ?s' = unfinished_tasks s"
    by (simp_all add: worker_ends_def)
  have "busy ?s' = busy s"
    using assms(3,4) busy_update [OF assms(2), of "\<lambda>w. w \<noteq> Waiting" w] by (simp add: busy_def s')
  moreover have "mset (filter P (pending ?s')) = mset (filter P (pending s))" for P
    using taken_update_filter [OF assms(2), of P w] assms(5) by (auto simp: pending_def s')
  moreover have "Took nm c \<in> set (workers ?s') \<Longrightarrow> Took nm c \<in> set (workers s)" for nm c
    using took_update [of nm c "workers s" i w] assms(6) by (auto simp: s')
  ultimately show ?thesis using assms(1) by (auto simp: tidy_inv_def s')
qed

lemma tidy_step_inv:
  assumes "tidy_step env su s s'" "tidy_inv env su files s"
  shows "tidy_inv env su files s'"
  using assms(1)
proof cases
  case (skip i name cmd)
  then show ?thesis using task_done_inv [OF assms(2)] by (simp add: tidy_fails_def)
next
  case (finish i out)
  then show ?thesis using task_done_inv [of env su files "print_output out s" i] assms(2)
    by (simp add: print_output_inv) (simp add: print_output_def)
next
  case (put name rest)
  then show ?thesis using assms(2) by (auto simp: tidy_inv_def busy_def pending_def queue_full_def ac_simps)
next
  case joined
  then show ?thesis using assms(2) by (auto simp: tidy_inv_def busy_def pending_def)
next
  case (take i name rest)
  then show ?thesis using take_task_inv [OF assms(2)] by simp
next
  case (run i name cmd)
  then show ?thesis using run_task_inv [OF assms(2)] by simp
next
  case (not_started i name cmd)
  then show ?thesis using worker_ends_inv [OF assms(2)] by simp
next
  case (undecoded i)
  then show ?thesis using worker_ends_inv [OF assms(2)] by simp
qed (use assms(2) in \<open>simp_all add: tidy_inv_def busy_def pending_def\<close>)

text \<open>The tasks still to be done: a file not yet put weighs most, then one in the queue, one taken, one run.\<close>

fun worker_work :: "worker \<Rightarrow> nat" where
  "worker_work Waiting = 0"
| "worker_work (Took name cmd) = 2"
| "worker_work (Ran out) = 1"
| "worker_work _ = 0"

fun main_work :: "main_pc \<Rightarrow> nat" where
  "main_work (Filling fs) = 4 * length fs + 2"
| "main_work Joining = 1"
| "main_work (Finished rc) = 0"

definition tidy_work :: "tidy_state \<Rightarrow> nat" where
  "tidy_work s = main_work (main_at s) + 3 * length (task_queue s) + sum_list (map worker_work (workers s))"

lemma worker_work_update:
  "i < length ws \<Longrightarrow> sum_list (map worker_work (ws[i := w])) + worker_work (ws ! i) =
     sum_list (map worker_work ws) + worker_work w"
proof (induction ws arbitrary: i)
  case (Cons v ws)
  show ?case
  proof (cases i)
    case (Suc j)
    then show ?thesis using Cons.IH [of j] Cons.prems by simp
  qed simp
qed simp

definition all_match :: "tidy_setup \<Rightarrow> tidy_state \<Rightarrow> bool" where
  "all_match su s = (\<forall>name \<in> set (to_fill (main_at s)). re_search (file_name_re su) name \<noteq> None)"

text \<open>clang-tidy can be run on a file, with output that can be decoded; no worker was or will be lost.\<close>

definition runs_well :: "tidy_env \<Rightarrow> tidy_setup \<Rightarrow> string \<Rightarrow> bool" where
  "runs_well env su name =
     (should_skip name \<or> (\<forall>tmp. can_start env (invocation su name tmp) \<and> tidy_output env (invocation su name tmp) \<noteq> None))"

definition worker_well :: "tidy_env \<Rightarrow> worker \<Rightarrow> bool" where
  "worker_well env w =
     (case w of Waiting \<Rightarrow> True
      | Took name cmd \<Rightarrow> should_skip name \<or> (can_start env cmd \<and> tidy_output env cmd \<noteq> None)
      | Ran out \<Rightarrow> out \<noteq> None
      | NotStarted name \<Rightarrow> False
      | Undecoded \<Rightarrow> False)"

definition all_well :: "tidy_env \<Rightarrow> tidy_setup \<Rightarrow> tidy_state \<Rightarrow> bool" where
  "all_well env su s =
     ((\<forall>name \<in> set (to_fill (main_at s) @ task_queue s). runs_well env su name) \<and> (\<forall>w \<in> set (workers s). worker_well env w))"

lemma waiting_well [simp]: "worker_well env Waiting"
  by (simp add: worker_well_def)

lemma update_well: "\<forall>w \<in> set ws. worker_well env w \<Longrightarrow> worker_well env v \<Longrightarrow> w \<in> set (ws[i := v]) \<Longrightarrow> worker_well env w"
  using set_update_subset_insert [of ws i v] by blast

lemma tidy_step_well:
  assumes "tidy_step env su s s'" "all_well env su s"
  shows "all_well env su s'"
proof -
  have w: "worker_well env (workers s ! i)" if "i < length (workers s)" for i
    using assms(2) that by (simp add: all_well_def)
  from assms show ?thesis
  proof cases
    case (take i name rest)
    then have "runs_well env su name" using assms(2) by (simp add: all_well_def)
    then have "worker_well env (Took name (invocation su name tmp))" for tmp by (auto simp: runs_well_def worker_well_def)
    with take assms(2) show ?thesis by (auto simp: all_well_def take_task_def Let_def dest: update_well)
  next
    case (run i name cmd)
    then have "worker_well env (Ran (tidy_output env cmd))" using w [of i] by (simp add: worker_well_def)
    with run assms(2) show ?thesis by (auto simp: all_well_def run_task_def dest: update_well)
  next
    case (not_started i name cmd)
    then show ?thesis using w [of i] by (simp add: worker_well_def)
  next
    case (undecoded i)
    then show ?thesis using w [of i] by (simp add: worker_well_def)
  qed (auto simp: all_well_def task_done_def print_output_def intro: update_well [OF _ waiting_well])
qed

text \<open>A worker that is not waiting can step, and each of its steps is progress.\<close>

lemma busy_progress:
  assumes "i < length (workers s)" "workers s ! i \<noteq> Waiting" "worker_well env (workers s ! i)"
  shows "\<exists>s'. tidy_step env su s s' \<and> tidy_work s' < tidy_work s"
proof (cases "workers s ! i")
  case (Took name cmd)
  show ?thesis
  proof (cases "should_skip name")
    case True
    with Took tidy_step.skip [OF assms(1)] worker_work_update [OF assms(1), of Waiting] show ?thesis
      by (intro exI [of _ "task_done i s"]) (auto simp: tidy_work_def task_done_def)
  next
    case False
    then have "can_start env cmd" using Took assms(3) by (simp add: worker_well_def)
    with False Took tidy_step.run [OF assms(1)] worker_work_update [OF assms(1), of "Ran (tidy_output env cmd)"] show ?thesis
      by (intro exI [of _ "run_task env i name cmd s"]) (auto simp: tidy_work_def run_task_def)
  qed
next
  case (Ran r)
  with assms(3) obtain out where "workers s ! i = Ran (Some out)" by (auto simp: worker_well_def)
  with tidy_step.finish [OF assms(1)] worker_work_update [OF assms(1), of Waiting] show ?thesis
    by (intro exI [of _ "task_done i (print_output out s)"]) (auto simp: tidy_work_def task_done_def print_output_def)
qed (use assms in \<open>simp_all add: worker_well_def\<close>)

lemma take_progress:
  assumes "i < length (workers s)" "workers s ! i = Waiting" "task_queue s = name # rest"
  shows "\<exists>s'. tidy_step env su s s' \<and> tidy_work s' < tidy_work s"
  using tidy_step.take [OF assms] assms
    worker_work_update [OF assms(1), of "Took name (invocation su name (new_temp env su (temp_files s)))"]
  by (intro exI [of _ "take_task env su i name rest s"]) (auto simp: tidy_work_def take_task_def Let_def)

lemma workers_progress:
  assumes "workers s \<noteq> []" "all_well env su s" "task_queue s \<noteq> [] \<or> busy s > 0"
  shows "\<exists>s'. tidy_step env su s s' \<and> tidy_work s' < tidy_work s"
proof (cases "\<exists>w \<in> set (workers s). w \<noteq> Waiting")
  case True
  then obtain i where "i < length (workers s)" "workers s ! i \<noteq> Waiting" by (metis in_set_conv_nth)
  moreover from this assms(2) have "worker_well env (workers s ! i)" by (simp add: all_well_def)
  ultimately show ?thesis by (rule busy_progress)
next
  case False
  then have "busy s = 0" by (auto simp: busy_def)
  with assms(3) obtain name rest where "task_queue s = name # rest" by (cases "task_queue s") auto
  moreover have "0 < length (workers s)" "workers s ! 0 = Waiting" using False assms(1) by auto
  ultimately show ?thesis using take_progress by blast
qed

lemma tidy_progress:
  assumes "tidy_inv env su files s" "workers s \<noteq> []" "all_match su s" "all_well env su s" "\<not> is_finished (main_at s)"
  shows "\<exists>s'. tidy_step env su s s' \<and> tidy_work s' < tidy_work s"
proof (cases "main_at s")
  case (Filling fs)
  show ?thesis
  proof (cases fs)
    case Nil
    with Filling tidy_step.join [of s env su] show ?thesis by (auto simp: tidy_work_def)
  next
    case (Cons name rest)
    show ?thesis
    proof (cases "queue_full su (task_queue s)")
      case True
      then have "task_queue s \<noteq> []" by (auto simp: queue_full_def)
      with workers_progress [OF assms(2,4)] show ?thesis by blast
    next
      case False
      with Filling Cons assms(3) tidy_step.put [of s name rest su env] show ?thesis
        by (auto simp: tidy_work_def all_match_def)
    qed
  qed
next
  case Joining
  show ?thesis
  proof (cases "unfinished_tasks s = 0")
    case True
    with Joining tidy_step.joined [of s env su] show ?thesis by (auto simp: tidy_work_def)
  next
    case False
    then have "task_queue s \<noteq> [] \<or> busy s > 0" using assms(1) by (auto simp: tidy_inv_def)
    then show ?thesis by (rule workers_progress [OF assms(2,4)])
  qed
qed (use assms(5) in simp)

lemma tidy_step_keeps:
  assumes "tidy_step env su s s'"
  shows "length (workers s') = length (workers s)" "all_match su s \<Longrightarrow> all_match su s'"
  using assms by (induction; simp add: take_task_def run_task_def task_done_def print_output_def worker_ends_def Let_def all_match_def)+

interpretation Tidy: progress_system "tidy_step env su"
  "\<lambda>s. tidy_inv env su files s \<and> workers s \<noteq> [] \<and> all_match su s \<and> all_well env su s" "\<lambda>s. is_finished (main_at s)" tidy_work
  for env su files
proof unfold_locales
  fix s s' assume "tidy_inv env su files s \<and> workers s \<noteq> [] \<and> all_match su s \<and> all_well env su s" "tidy_step env su s s'"
  then show "tidy_inv env su files s' \<and> workers s' \<noteq> [] \<and> all_match su s' \<and> all_well env su s'"
    using tidy_step_inv tidy_step_keeps tidy_step_well by (metis length_0_conv)
qed (blast intro: tidy_progress)

text \<open>A step that only prints: the main thread waits for room in the queue.\<close>

definition waits :: "tidy_state \<Rightarrow> tidy_state \<Rightarrow> bool" where
  "waits s s' = (s' = s\<lparr>printed := printed s'\<rparr>)"

lemma tidy_step_work:
  assumes "tidy_step env su s s'" "all_match su s" "all_well env su s"
  shows "if waits s s' then tidy_work s' = tidy_work s else tidy_work s' < tidy_work s"
proof -
  have "waits s s' \<Longrightarrow> tidy_work s' = tidy_work s"
    unfolding waits_def by (erule ssubst) (simp add: tidy_work_def)
  moreover have "waits s s' \<or> tidy_work s' < tidy_work s"
    using assms(1)
  proof cases
    case (take i name rest)
    then show ?thesis
      using worker_work_update [OF take(2), of "Took name (invocation su name (new_temp env su (temp_files s)))"]
      by (simp add: tidy_work_def take_task_def Let_def)
  next
    case (skip i name cmd)
    then show ?thesis using worker_work_update [OF skip(2), of Waiting] by (simp add: tidy_work_def task_done_def)
  next
    case (run i name cmd)
    then show ?thesis using worker_work_update [OF run(2), of "Ran (tidy_output env cmd)"] by (simp add: tidy_work_def run_task_def)
  next
    case (finish i out)
    then show ?thesis using worker_work_update [OF finish(2), of Waiting]
      by (simp add: tidy_work_def task_done_def print_output_def)
  next
    case (not_started i name cmd)
    then show ?thesis using worker_work_update [OF not_started(2), of "NotStarted name"] by (simp add: tidy_work_def worker_ends_def)
  next
    case (undecoded i)
    then show ?thesis using worker_work_update [OF undecoded(2), of Undecoded] by (simp add: tidy_work_def worker_ends_def)
  qed (simp_all add: tidy_work_def waits_def)
  ultimately show ?thesis by auto
qed

interpretation Tidy_run: terminating_system "tidy_step env su"
  "\<lambda>s. tidy_inv env su files s \<and> workers s \<noteq> [] \<and> all_match su s \<and> all_well env su s" "\<lambda>s. is_finished (main_at s)" tidy_work waits
  for env su files
  by unfold_locales (use tidy_step_work in blast)

section \<open>Runs of the script\<close>

lemma tidy_start_Inr:
  assumes "tidy_start env args = Inr (su, s)"
  shows "\<exists>files. main_at s = Filling files \<and> tidy_inv env su files s \<and> workers s = replicate (nat (max_task su)) Waiting"
    and "temp_files s = []" "task_queue s = []" "tidy_args_of su = args"
    and "tmpdir su = None \<longleftrightarrow> \<not> fix_its args \<and> \<not> truthy (export_fixes args)"
proof -
  have c: "concat (map taken (replicate n Waiting)) = []" for n by (induction n) auto
  show "\<exists>files. main_at s = Filling files \<and> tidy_inv env su files s \<and> workers s = replicate (nat (max_task su)) Waiting"
    and "temp_files s = []" "task_queue s = []" "tidy_args_of su = args"
    and "tmpdir su = None \<longleftrightarrow> \<not> fix_its args \<and> \<not> truthy (export_fixes args)"
    using assms
    by (auto simp: tidy_start_def py_bind_Inr_iff Let_def tidy_inv_def busy_def pending_def c split: if_splits)
qed

lemma start_ready:
  assumes "tidy_start env args = Inr (su, s0)" "main_at s0 = Filling files" "0 < max_task su"
    and "\<forall>f \<in> set files. re_search (file_name_re su) f \<noteq> None" "\<forall>f \<in> set files. runs_well env su f"
  shows "tidy_inv env su files s0 \<and> workers s0 \<noteq> [] \<and> all_match su s0 \<and> all_well env su s0"
  using tidy_start_Inr [OF assms(1)] assms(2-5) by (auto simp: all_match_def all_well_def worker_well_def)

text \<open>A worker whose thread ended stays as it is.\<close>

fun lost :: "worker \<Rightarrow> bool" where
  "lost (NotStarted name) = True"
| "lost Undecoded = True"
| "lost _ = False"

lemma lost_step: "tidy_step env su s s' \<Longrightarrow> lost (workers s ! i) \<Longrightarrow> workers s' ! i = workers s ! i"
proof (induction rule: tidy_step.induct)
qed (auto simp: take_task_def run_task_def task_done_def print_output_def worker_ends_def Let_def nth_list_update)

lemma lost_reachable: "(tidy_step env su)\<^sup>*\<^sup>* s s' \<Longrightarrow> lost (workers s ! i) \<Longrightarrow> workers s' ! i = workers s ! i"
  by (induction rule: rtranclp_induct) (auto simp: lost_step)

lemma reachable_tidy_inv: "(tidy_step env su)\<^sup>*\<^sup>* s s' \<Longrightarrow> tidy_inv env su files s \<Longrightarrow> tidy_inv env su files s'"
  by (induction rule: rtranclp_induct) (auto intro: tidy_step_inv)

lemma finished_inv:
  assumes "tidy_inv env su files s" "main_at s = Finished rc"
  shows "task_queue s = []" "pending s = []" "rc = (if failed_files s \<noteq> [] then 1 else 0)"
proof -
  from assms have b: "task_queue s = []" "busy s = 0" by (auto simp: tidy_inv_def)
  then have "\<forall>w \<in> set (workers s). w = Waiting" by (auto simp: busy_def filter_empty_conv)
  then have "\<forall>w \<in> set (workers s). taken w = []" by auto
  then show "task_queue s = []" "pending s = []" using b(1) assms(2) by (auto simp: pending_def)
  show "rc = (if failed_files s \<noteq> [] then 1 else 0)" using assms by (auto simp: tidy_inv_def)
qed

lemma stuck_step:
  "tidy_step env su s s' \<Longrightarrow> main_at s = Filling (name # rest) \<Longrightarrow> re_search (file_name_re su) name = None \<Longrightarrow>
   main_at s' = main_at s"
  by (induction rule: tidy_step.induct) (auto simp: take_task_def run_task_def task_done_def print_output_def worker_ends_def Let_def)

lemma take_reachable:
  "i < length (workers s) \<Longrightarrow> workers s ! i = Waiting \<Longrightarrow> task_queue s = name # rest \<Longrightarrow>
   (tidy_step env su)\<^sup>*\<^sup>* s (take_task env su i name rest s)"
  by (rule r_into_rtranclp, rule tidy_step.take)

text \<open>As long as no temporary file was made, no file has left the queue.\<close>

lemma no_temp_step:
  assumes "tidy_step env su s s'" "tmpdir su \<noteq> None"
    and "temp_files s = [] \<longrightarrow> task_queue s @ to_fill (main_at s) = files"
  shows "temp_files s' = [] \<longrightarrow> task_queue s' @ to_fill (main_at s') = files"
  using assms
  by (induction rule: tidy_step.induct)
    (auto simp: take_task_def new_temp_def run_task_def task_done_def print_output_def worker_ends_def Let_def)

lemma no_temp_reachable:
  assumes "(tidy_step env su)\<^sup>*\<^sup>* s s'" "tmpdir su \<noteq> None"
    and "temp_files s = [] \<longrightarrow> task_queue s @ to_fill (main_at s) = files"
  shows "temp_files s' = [] \<longrightarrow> task_queue s' @ to_fill (main_at s') = files"
  using assms(1,3) by (induction rule: rtranclp_induct) (use no_temp_step assms(2) in blast)+

text \<open>The directories that the search for the database visits.\<close>

definition climb_dir :: "nat \<Rightarrow> string" where
  "climb_dir k = ''./'' @ concat (replicate k ''../'')"

lemma climb_dir_Suc: "climb_dir k @ ''../'' = climb_dir (Suc k)"
proof -
  have "concat (replicate k x) @ x = x @ concat (replicate k x)" for x :: string by (induction k) auto
  then show ?thesis by (simp add: climb_dir_def)
qed

lemma climb_database_found:
  assumes "\<forall>j < k. \<not> isfile env (path_join2 (climb_dir (n + j)) path) \<and> realpath env (climb_dir (n + j)) \<noteq> ''/''"
    and "isfile env (path_join2 (climb_dir (n + k)) path) \<or> realpath env (climb_dir (n + k)) = ''/''"
  shows "climb_database env path (climb_dir n) =
    Some (if isfile env (path_join2 (climb_dir (n + k)) path) then Inr (realpath env (climb_dir (n + k)))
          else Inl (SystemExit 1))"
  using assms
proof (induction k arbitrary: n)
  case 0
  then show ?case by (subst climb_database.simps) auto
next
  case (Suc k)
  have "\<forall>j < k. \<not> isfile env (path_join2 (climb_dir (Suc n + j)) path) \<and> realpath env (climb_dir (Suc n + j)) \<noteq> ''/''"
    using Suc.prems(1) by (metis Suc_less_eq add_Suc_shift)
  with Suc.IH [of "Suc n"] Suc.prems show ?case
    by (subst climb_database.simps) (auto simp: climb_dir_Suc)
qed

section \<open>A sample system\<close>

text \<open>A project of one file, on which clang-tidy fails; the runs below start there.\<close>

definition sample_env :: tidy_env where
  "sample_env = \<lparr>isfile = (\<lambda>p. p = ''./../compile_commands.json''),
     realpath = (\<lambda>p. if p = ''./'' then ''/w/build'' else if p = ''./../'' then ''/w'' else ''/''),
     command_ok = (\<lambda>c. True), can_start = (\<lambda>c. True), tidy_returncode = (\<lambda>c. 1), tidy_output = (\<lambda>c. Some ''warning''),
     load_database = (\<lambda>p. Inr [(''a.cpp'', ''/w'')]), cpu_count = 2, mkdtemp = ''/tmp/t'',
     mkstemp = (\<lambda>d fs. d @ ''/x.yaml''), writable = (\<lambda>p. True)\<rparr>"

definition good_start :: "tidy_env \<Rightarrow> tidy_args \<Rightarrow> string \<Rightarrow> bool" where
  "good_start env args file =
     (case tidy_start env args of Inl e \<Rightarrow> False
      | Inr (su, s0) \<Rightarrow> main_at s0 = Filling [file] \<and> 0 < max_task su \<and> re_search (file_name_re su) file \<noteq> None)"

lemma sample_good_start:
  "good_start sample_env default_args ''/w/a.cpp''"
  "good_start sample_env (default_args\<lparr>export_fixes := Some ''fixes.yaml''\<rparr>) ''/w/a.cpp''"
  by code_simp+

lemma sample_start:
  assumes "good_start sample_env args ''/w/a.cpp''"
  obtains su s0 s rc where "tidy_start sample_env args = Inr (su, s0)" "main_at s0 = Filling [''/w/a.cpp'']"
    "0 < max_task su" "\<forall>f \<in> set [''/w/a.cpp'']. re_search (file_name_re su) f \<noteq> None"
    "\<forall>f \<in> set [''/w/a.cpp'']. runs_well sample_env su f"
    "(tidy_step sample_env su)\<^sup>*\<^sup>* s0 s" "main_at s = Finished rc"
proof -
  from assms obtain su s0 where s0: "tidy_start sample_env args = Inr (su, s0)" "main_at s0 = Filling [''/w/a.cpp'']"
    "0 < max_task su" "\<forall>f \<in> set [''/w/a.cpp'']. re_search (file_name_re su) f \<noteq> None"
    by (auto simp: good_start_def split: sum.splits)
  have w: "\<forall>f \<in> set [''/w/a.cpp'']. runs_well sample_env su f" by (simp add: runs_well_def sample_env_def)
  from Tidy.can_finish [OF start_ready [OF s0 w]] obtain s where "(tidy_step sample_env su)\<^sup>*\<^sup>* s0 s" "is_finished (main_at s)" by blast
  with that [OF s0 w] show ?thesis by (cases "main_at s") auto
qed

text \<open>The same project, with a clang-tidy whose output is not valid UTF-8.\<close>

definition garbled_env :: tidy_env where
  "garbled_env = sample_env\<lparr>tidy_output := (\<lambda>c. None)\<rparr>"

lemma garbled_good_start: "good_start garbled_env default_args ''/w/a.cpp''" "\<not> should_skip ''/w/a.cpp''"
  by code_simp+

lemma garbled_run:
  obtains su s0 s where "tidy_start garbled_env default_args = Inr (su, s0)" "(tidy_step garbled_env su)\<^sup>*\<^sup>* s0 s"
    "0 < length (workers s)" "workers s ! 0 = Undecoded"
proof -
  let ?f = "''/w/a.cpp''"
  from garbled_good_start(1) obtain su s0 where s0: "tidy_start garbled_env default_args = Inr (su, s0)" "main_at s0 = Filling [?f]"
    "0 < max_task su" "re_search (file_name_re su) ?f \<noteq> None"
    by (auto simp: good_start_def split: sum.splits)
  have w: "workers s0 = replicate (nat (max_task su)) Waiting" "task_queue s0 = []"
    using tidy_start_Inr(1,3) [OF s0(1)] by auto
  let ?s1 = "s0\<lparr>task_queue := [?f], unfinished_tasks := unfinished_tasks s0 + 1, main_at := Filling []\<rparr>"
  let ?s2 = "take_task garbled_env su 0 ?f [] ?s1"
  let ?cmd = "invocation su ?f (new_temp garbled_env su (temp_files s0))"
  let ?s3 = "run_task garbled_env 0 ?f ?cmd ?s2"
  have e: "can_start garbled_env c" "tidy_output garbled_env c = None" for c by (simp_all add: garbled_env_def sample_env_def)
  have "tidy_step garbled_env su s0 ?s1"
    using tidy_step.put [of s0 ?f "[]" su garbled_env] s0 w by (simp add: queue_full_def)
  moreover have "tidy_step garbled_env su ?s1 ?s2" using w s0(3) by (intro tidy_step.take) simp_all
  moreover have "tidy_step garbled_env su ?s2 ?s3"
    using w s0(3) garbled_good_start(2) e by (intro tidy_step.run) (simp_all add: take_task_def Let_def)
  moreover have "tidy_step garbled_env su ?s3 (worker_ends 0 Undecoded ?s3)"
    using w s0(3) e by (intro tidy_step.undecoded) (simp_all add: take_task_def run_task_def Let_def)
  ultimately have "(tidy_step garbled_env su)\<^sup>*\<^sup>* s0 (worker_ends 0 Undecoded ?s3)" by auto
  with that [OF s0(1) this] w s0(3) show ?thesis by (simp add: worker_ends_def take_task_def run_task_def Let_def)
qed

section \<open>Properties\<close>

text \<open>C11. The exit code of the parallel run: without fixes, whenever the main thread gets past
  the join, in whatever order the threads ran, the queue is empty, the failed files are
  exactly those of the database that are not skipped and for which clang-tidy failed, each as
  often as the database lists it, and the script exits with 1 if there is one, else with 0.\<close>

theorem tidy_exit_code:
  assumes "tidy_start env args = Inr (su, s0)" "main_at s0 = Filling files"
    and "\<not> fix_its args" "\<not> truthy (export_fixes args)"
    and "(tidy_step env su)\<^sup>*\<^sup>* s0 s" "main_at s = Finished rc"
  shows "task_queue s = [] \<and> mset (failed_files s) = mset (filter (tidy_fails env su) files) \<and>
    tidy_exit env su s rc = (if \<exists>f \<in> set files. tidy_fails env su f then 1 else 0)"
proof -
  note start = tidy_start_Inr [OF assms(1)]
  have t: "tmpdir su = None" using start(5) assms(3,4) by simp
  have inv: "tidy_inv env su files s" using reachable_tidy_inv [OF assms(5)] start(1) assms(2) by auto
  note fin = finished_inv [OF inv assms(6)]
  have m: "mset (failed_files s) = mset (filter (tidy_fails env su) files)"
    using inv t fin(2) by (auto simp: tidy_inv_def)
  then have "failed_files s = [] \<longleftrightarrow> filter (tidy_fails env su) files = []" by (metis mset_zero_iff)
  with m fin start(4) assms(3,4) show ?thesis by (auto simp: tidy_exit_def filter_empty_conv)
qed

theorem tidy_exit_code_witness:
  "\<exists>su s0 s rc. tidy_start sample_env default_args = Inr (su, s0) \<and> (tidy_step sample_env su)\<^sup>*\<^sup>* s0 s \<and>
     main_at s = Finished rc \<and> tidy_exit sample_env su s rc = 1 \<and> mset (failed_files s) = {#''/w/a.cpp''#}"
proof -
  obtain su s0 s rc where r: "tidy_start sample_env default_args = Inr (su, s0)" "main_at s0 = Filling [''/w/a.cpp'']"
    "(tidy_step sample_env su)\<^sup>*\<^sup>* s0 s" "main_at s = Finished rc"
    by (rule sample_start [OF sample_good_start(1)])
  have "tidy_fails sample_env su ''/w/a.cpp''"
    unfolding tidy_fails_def by (rule conjI, code_simp) (simp add: sample_env_def)
  moreover have "\<not> fix_its default_args" "\<not> truthy (export_fixes default_args)" by code_simp+
  ultimately show ?thesis using tidy_exit_code [OF r(1,2) _ _ r(3,4)] r by auto
qed

text \<open>The run can always finish: if there is at least one worker, every file matches the
  filter and clang-tidy can be started on every file that is not skipped, with output that can be decoded, then from every state that the threads can reach, whatever the scheduler did so
  far, the main thread can still get past the join.\<close>

theorem tidy_can_finish:
  assumes "tidy_start env args = Inr (su, s0)" "main_at s0 = Filling files" "0 < max_task su"
    and "\<forall>f \<in> set files. re_search (file_name_re su) f \<noteq> None" "\<forall>f \<in> set files. runs_well env su f"
    and "(tidy_step env su)\<^sup>*\<^sup>* s0 s"
  shows "\<exists>s' rc. (tidy_step env su)\<^sup>*\<^sup>* s s' \<and> main_at s' = Finished rc"
proof -
  from Tidy.reachable_can_finish [OF start_ready [OF assms(1-5)] assms(6)] obtain s' where
    "(tidy_step env su)\<^sup>*\<^sup>* s s'" "is_finished (main_at s')" by blast
  then show ?thesis by (cases "main_at s'") auto
qed

theorem tidy_can_finish_witness:
  "\<exists>su s0 s' rc. tidy_start sample_env default_args = Inr (su, s0) \<and> (tidy_step sample_env su)\<^sup>*\<^sup>* s0 s' \<and>
     main_at s' = Finished rc"
proof -
  obtain su s0 where r: "tidy_start sample_env default_args = Inr (su, s0)" "main_at s0 = Filling [''/w/a.cpp'']"
    "0 < max_task su" "\<forall>f \<in> set [''/w/a.cpp'']. re_search (file_name_re su) f \<noteq> None"
    "\<forall>f \<in> set [''/w/a.cpp'']. runs_well sample_env su f"
    by (rule sample_start [OF sample_good_start(1)])
  from tidy_can_finish [OF r rtranclp.rtrancl_refl] r(1) show ?thesis by blast
qed

text \<open>C26. The run does finish: if there is at least one worker, every file matches the filter and clang-tidy can be started
  on every file that is not skipped, with output that can be decoded, then every execution of the threads gets past the join, however they
  interleave: none deadlocks, and none goes on for ever unless the scheduler has the main thread wait for room in the queue for ever
  although a worker could work all the time.  An execution that can take no step any more stands still; it counts as one that
  does not finish.\<close>

theorem tidy_always_finishes:
  assumes "tidy_start env args = Inr (su, s0)" "main_at s0 = Filling files" "0 < max_task su"
    and "\<forall>f \<in> set files. re_search (file_name_re su) f \<noteq> None" "\<forall>f \<in> set files. runs_well env su f"
    and "r 0 = s0" "run_of (tidy_step env su) r" "fair_run (tidy_step env su) waits r"
  shows "\<exists>i rc. main_at (r i) = Finished rc"
proof -
  have "tidy_inv env su files (r 0) \<and> workers (r 0) \<noteq> [] \<and> all_match su (r 0) \<and> all_well env su (r 0)"
    unfolding assms(6) by (rule start_ready [OF assms(1-5)])
  from Tidy_run.run_finishes [OF assms(7) this assms(8)] obtain i where "is_finished (main_at (r i))" by blast
  then show ?thesis by (cases "main_at (r i)") auto
qed

theorem tidy_always_finishes_witness:
  "\<exists>su s0 r i rc. tidy_start sample_env default_args = Inr (su, s0) \<and> r 0 = s0 \<and>
     run_of (tidy_step sample_env su) r \<and> main_at (r i) = Finished rc"
proof -
  obtain su s0 where s0: "tidy_start sample_env default_args = Inr (su, s0)" "main_at s0 = Filling [''/w/a.cpp'']"
    "0 < max_task su" "\<forall>f \<in> set [''/w/a.cpp'']. re_search (file_name_re su) f \<noteq> None"
    "\<forall>f \<in> set [''/w/a.cpp'']. runs_well sample_env su f"
    by (rule sample_start [OF sample_good_start(1)])
  from fair_run_exists [of s0 "tidy_step sample_env su" waits] obtain r where
    r: "r 0 = s0" "run_of (tidy_step sample_env su) r" "fair_run (tidy_step sample_env su) waits r" by blast
  from tidy_always_finishes [OF s0 r] s0(1) r(1,2) show ?thesis by blast
qed

text \<open>C38. A worker that is lost hangs the run: once clang-tidy could not be started for a file, or its
  output is not valid UTF-8, the thread of that worker is gone without \<open>task_done\<close>, and in no
  further state does the main thread get past the join, so the script never exits.\<close>

theorem lost_worker_hangs:
  assumes "tidy_start env args = Inr (su, s0)" "(tidy_step env su)\<^sup>*\<^sup>* s0 s"
    and "i < length (workers s)" "(\<exists>name. workers s ! i = NotStarted name) \<or> workers s ! i = Undecoded"
    and "(tidy_step env su)\<^sup>*\<^sup>* s s'"
  shows "0 < unfinished_tasks s' \<and> (\<forall>rc. main_at s' \<noteq> Finished rc)"
proof -
  have "lost (workers s ! i)" using assms(4) by auto
  then have "workers s' ! i \<noteq> Waiting" using lost_reachable [OF assms(5)] by fastforce
  moreover have "length (workers s') = length (workers s)"
    using assms(5) by (induction rule: rtranclp_induct) (auto simp: tidy_step_keeps(1))
  ultimately have "0 < busy s'" using busy_done [of i s'] assms(3) by linarith
  moreover obtain files where "tidy_inv env su files s'"
    using tidy_start_Inr(1) [OF assms(1)] reachable_tidy_inv [OF rtranclp_trans [OF assms(2,5)]] by blast
  ultimately show ?thesis by (auto simp: tidy_inv_def)
qed

theorem lost_worker_hangs_witness:
  "\<exists>su s0 s. tidy_start garbled_env default_args = Inr (su, s0) \<and> (tidy_step garbled_env su)\<^sup>*\<^sup>* s0 s \<and>
     (\<forall>s' rc. (tidy_step garbled_env su)\<^sup>*\<^sup>* s s' \<longrightarrow> main_at s' \<noteq> Finished rc)"
proof -
  obtain su s0 s where r: "tidy_start garbled_env default_args = Inr (su, s0)" "(tidy_step garbled_env su)\<^sup>*\<^sup>* s0 s"
    "0 < length (workers s)" "workers s ! 0 = Undecoded"
    by (rule garbled_run)
  then show ?thesis using lost_worker_hangs [OF r(1-3)] by blast
qed

text \<open>C37. A file name that the filter does not match blocks the run for good: once the main thread
  is at such a name it stays there in every further state, so the script never exits.\<close>

theorem tidy_stuck:
  assumes "main_at s = Filling (name # rest)" "re_search (file_name_re su) name = None"
    and "(tidy_step env su)\<^sup>*\<^sup>* s s'"
  shows "main_at s' = Filling (name # rest)"
  using assms(3)
proof (induction rule: rtranclp_induct)
  case (step s1 s2)
  then show ?case using stuck_step assms(2) by fastforce
qed (rule assms(1))

theorem tidy_stuck_witness:
  "let su = \<lparr>tidy_args_of = default_args, tmpdir = None, build_path = ''/w'', file_name_re = re_const ''storage'', max_task = 1\<rparr>;
       s = \<lparr>task_queue = [''/w/storage/b.cpp''], unfinished_tasks = 1, workers = [Waiting], main_at = Filling [''/w/a.cpp''],
            failed_files = [], temp_files = [], printed = []\<rparr>
   in main_at (take_task sample_env su 0 ''/w/storage/b.cpp'' [] s) = Filling [''/w/a.cpp'']"
  unfolding Let_def
  by (rule tidy_stuck [OF _ _ take_reachable]) (simp, code_simp, simp_all)

text \<open>C31. In every reachable state the queue holds no more than \<open>max_task\<close> files and no more than
  \<open>max_task\<close> workers are busy, and the count of unfinished tasks is that of the files in the
  queue and in the hands of workers.\<close>

theorem tidy_queue_bounds:
  assumes "tidy_start env args = Inr (su, s0)" "0 < max_task su" "(tidy_step env su)\<^sup>*\<^sup>* s0 s"
  shows "int (length (task_queue s)) \<le> max_task su \<and> int (busy s) \<le> max_task su \<and>
    unfinished_tasks s = length (task_queue s) + busy s"
proof -
  from tidy_start_Inr(1) [OF assms(1)] obtain files where
    f: "tidy_inv env su files s0" "length (workers s0) = nat (max_task su)" by auto
  from assms(3) have "length (workers s) = length (workers s0)"
    by (induction rule: rtranclp_induct) (auto simp: tidy_step_keeps(1))
  then have "int (busy s) \<le> max_task su"
    using f(2) assms(2) length_filter_le [of "\<lambda>w. w \<noteq> Waiting" "workers s"] by (simp add: busy_def)
  with reachable_tidy_inv [OF assms(3) f(1)] assms(2) show ?thesis by (simp add: tidy_inv_def)
qed

theorem tidy_queue_bounds_witness:
  "\<exists>su s0. tidy_start sample_env default_args = Inr (su, s0) \<and> int (length (task_queue s0)) \<le> max_task su"
proof -
  obtain su s0 where r: "tidy_start sample_env default_args = Inr (su, s0)" "0 < max_task su"
    by (rule sample_start [OF sample_good_start(1)])
  from tidy_queue_bounds [OF r rtranclp.rtrancl_refl] r(1) show ?thesis by blast
qed

text \<open>The search for the compilation database ends if some ancestor's real path is the root,
  and finds the nearest directory that has it; without one it exits with code 1.\<close>

theorem find_database_nearest:
  assumes "realpath env (climb_dir n) = ''/''"
  shows "\<exists>k \<le> n. (\<forall>j < k. \<not> isfile env (path_join2 (climb_dir j) path)) \<and>
    find_compilation_database env path =
      (if isfile env (path_join2 (climb_dir k) path) then Inr (realpath env (climb_dir k)) else Inl (SystemExit 1)) \<and>
    (isfile env (path_join2 (climb_dir k) path) \<or> realpath env (climb_dir k) = ''/'')"
proof -
  define k where "k = (LEAST k. isfile env (path_join2 (climb_dir k) path) \<or> realpath env (climb_dir k) = ''/'')"
  have k: "isfile env (path_join2 (climb_dir k) path) \<or> realpath env (climb_dir k) = ''/''" "k \<le> n"
    unfolding k_def by (rule LeastI [of _ n], simp add: assms) (rule Least_le, simp add: assms)
  have j: "\<forall>j < k. \<not> isfile env (path_join2 (climb_dir j) path) \<and> realpath env (climb_dir j) \<noteq> ''/''"
    unfolding k_def using not_less_Least by blast
  have "climb_dir 0 = ''./''" by (simp add: climb_dir_def)
  then show ?thesis
    using climb_database_found [of k env 0 path] k j by (auto simp: find_compilation_database_def)
qed

theorem find_database_nearest_witness:
  "\<exists>k \<le> 2. (\<forall>j < k. \<not> isfile sample_env (path_join2 (climb_dir j) ''compile_commands.json'')) \<and>
    find_compilation_database sample_env ''compile_commands.json'' =
      (if isfile sample_env (path_join2 (climb_dir k) ''compile_commands.json'')
       then Inr (realpath sample_env (climb_dir k)) else Inl (SystemExit 1)) \<and>
    (isfile sample_env (path_join2 (climb_dir k) ''compile_commands.json'') \<or> realpath sample_env (climb_dir k) = ''/'')"
  by (rule find_database_nearest) code_simp

text \<open>C39. Exporting fixes fails: with \<open>-export-fixes\<close> and at least one file in the database, a
  run that gets past the join exits with code 1, even if clang-tidy succeeded on every file
  (the merge of the fixes raises, as the script has no YAML module).\<close>

theorem export_fixes_fails:
  assumes "tidy_start env args = Inr (su, s0)" "main_at s0 = Filling files" "files \<noteq> []"
    and "truthy (export_fixes args)" "(tidy_step env su)\<^sup>*\<^sup>* s0 s" "main_at s = Finished rc"
  shows "tidy_exit env su s rc = 1"
proof -
  note start = tidy_start_Inr [OF assms(1)]
  have inv: "tidy_inv env su files s" using reachable_tidy_inv [OF assms(5)] start(1) assms(2) by auto
  have "tmpdir su \<noteq> None" using start(5) assms(4) by simp
  from no_temp_reachable [OF assms(5) this, of files] start(2,3) assms(2,3,6) finished_inv(1) [OF inv assms(6)]
  have "temp_files s \<noteq> []" by auto
  then show ?thesis using assms(4) start(4)
    by (auto simp: tidy_exit_def merge_replacement_files_def split: option.split)
qed

theorem export_fixes_fails_witness:
  "\<exists>su s0 s rc. tidy_start sample_env (default_args\<lparr>export_fixes := Some ''fixes.yaml''\<rparr>) = Inr (su, s0) \<and>
     (tidy_step sample_env su)\<^sup>*\<^sup>* s0 s \<and> main_at s = Finished rc \<and> tidy_exit sample_env su s rc = 1"
proof -
  let ?args = "default_args\<lparr>export_fixes := Some ''fixes.yaml''\<rparr>"
  obtain su s0 s rc where r: "tidy_start sample_env ?args = Inr (su, s0)" "main_at s0 = Filling [''/w/a.cpp'']"
    "(tidy_step sample_env su)\<^sup>*\<^sup>* s0 s" "main_at s = Finished rc"
    by (rule sample_start [OF sample_good_start(2)])
  have "truthy (export_fixes ?args)" by code_simp
  with export_fixes_fails [OF r(1,2) _ _ r(3,4)] r show ?thesis by auto
qed

end
