(* ===== verification/Spec2Isabelle.thy ===== *)
theory Spec2Isabelle
  imports Driver Clang_Format Clang_Tidy
begin

text \<open>
  \<^bold>\<open>A verification library for the Python tools of BusTub (\<open>src/build_support\<close>).\<close>

  The repository is the BusTub database system (C++) with the tools that guard its sources:
  the linter \<open>cpplint.py\<close>, the parallel runner of clang-tidy (\<open>run_clang_tidy.py\<close> with
  \<open>run_clang_tidy_extra.py\<close>) and the runner of clang-format (\<open>run_clang_format.py\<close>).  This
  library models these tools.

  \<^bold>\<open>The program.\<close>  \<open>cpplint.py\<close> reads a file, makes several cleansed copies of it (raw
  strings, comments and string literals taken out), then goes through the lines once.  Three
  objects carry state from line to line: the nesting of blocks, the include order, the
  length of the current function.  Every check may call the error callback, which consults
  the suppressions made by NOLINT comments, the verbosity and the category filters, and counts.
  \<open>run_clang_tidy.py\<close> feeds the files of the compilation database to worker threads through a
  bounded queue.  \<open>run_clang_format.py\<close> compares each source file with the output of
  clang-format.

  \<^bold>\<open>Theories.\<close>
  \<^item> \<open>Py_Prelude\<close>, \<open>Py_Regex\<close>, \<open>Regex_Groups\<close>, \<open>Py_Path\<close>: the part of Python that the tools
    use: exceptions as values (\<open>'a py\<close>), indexing and slicing, methods of \<open>str\<close>, the \<open>re\<close>
    module (a parser of patterns, a backtracking matcher, and its declarative
    specification \<open>matches\<close> / \<open>mcap\<close> with soundness and completeness), \<open>os.path\<close>.
  \<^item> \<open>Lint_State\<close>: the module state, \<open>_CppLintState\<close>, filters, NOLINT suppressions, \<open>Error\<close>.
    A check is an \<open>action\<close> (module state to module state or exception).  The locale
    \<open>reporter\<close> is the contract between the checks and the callback: a report of a known
    category with a confidence from 0 to 5 returns and keeps an invariant.  Its
    interpretations \<open>Err\<close>, \<open>Named\<close>, \<open>Verbose\<close>, \<open>File\<close> and \<open>Muted\<close> discharge the contract for \<open>Error\<close>.
  \<^item> \<open>Include_State\<close>, \<open>Function_State\<close>: the classes \<open>_IncludeState\<close> and \<open>_FunctionState\<close>.
  \<^item> \<open>Cleansing\<close>: \<open>CleanseRawStrings\<close> to \<open>CleansedLines\<close>.  \<open>Expressions\<close>: the search for
    matching brackets, forwards and backwards, on one line and over lines.
  \<^item> \<open>File_Info\<close>, \<open>Header_Guard\<close>: \<open>FileInfo\<close>, the header guard and its check.
  \<^item> \<open>Nesting\<close>: the block classes and \<open>NestingState\<close>.  The source copies stacks deeply and
    compares blocks by identity, so blocks carry an identity here.
  \<^item> \<open>Include_Checks\<close>, \<open>Line_Checks\<close>: the checks of include lines and of single lines.
    The locale \<open>naming_reporter\<close> extends \<open>reporter\<close> by the naming of files.
  \<^item> \<open>Spacing_Checks\<close>, \<open>Brace_Checks\<close>: the checks of white space, braces, bodies and CHECK macros, and
    \<open>CheckStyle\<close>.  \<open>Language_Checks\<close>: \<open>CheckLanguage\<close>, casts, references, printf calls.
    \<open>Class_Checks\<close>: \<open>CheckForNonStandardConstructs\<close> with the check of constructors.
    \<open>Include_Use\<close>: \<open>CheckForIncludeWhatYouUse\<close>.
  \<^item> \<open>Process_File\<close>: \<open>ProcessLine\<close> and \<open>ProcessFileData\<close>, which run all checks on a file.  The locales
    \<open>line_reporter\<close> and \<open>file_reporter\<close> extend \<open>naming_reporter\<close> by what the checks of the lines and of the file as a whole need.
  \<^item> \<open>File_Reports\<close>: what the checks of a file do to the module state.  The interpretation \<open>File\<close> has the settings of the
    module, the error count and the filters that every recorded failure passes in its invariant; \<open>Muted\<close> has that no failure is
    recorded which a suppression in force covers.  A failure is recorded if it is counted and, depending on the output format, in the
    JUnit report or a line on standard error (\<open>logged\<close>, \<open>report_text\<close>).
  \<^item> \<open>Config_Files\<close>: \<open>ProcessConfigOverrides\<close>.  \<open>JUnit_Report\<close>: \<open>FormatJUnitXML\<close>.
    \<open>Driver\<close>: \<open>ProcessFile\<close>, \<open>ParseArguments\<close>, \<open>main\<close>.
  \<^item> \<open>Clang_Tidy\<close>: the threads as an inductive step relation; the locale \<open>progress_system\<close>
    (invariant, measure) gives that a run can always finish, and its extension
    \<open>terminating_system\<close> that every fair execution does; a deadlock is an execution that stands still.  \<open>Clang_Format\<close>: the checks of a
    directory and the loop over directories.

  \<^bold>\<open>What is shown.\<close>  Safety of the whole linter (\<open>main_outcome\<close> below): on every command line,
  file system and file content it ends, by one of a few listed exceptions or with exit code 1 exactly
  if an error was reported; this rests on the safety of each check on each line of any file
  (\<open>Named\<close>, \<open>File\<close>), on the invariants of the nesting and include states, and on the outcome of
  \<open>ProcessFileData\<close> (settings unchanged, counts consistent, only failures that filters and verbosity admit) and
  \<open>ProcessFile\<close> (filters restored).  Suppressions reach every check: by NOLINT on a line, by a marker for the whole file; so do
  the filters and the verbosity of the command line (\<open>command_line_effective\<close>, \<open>last_filter_decides\<close>).
  Refinement and equivalence: the bracket search finds
  exactly the end that the grammar of balanced text gives, so does the search for the text of a call, the brace loop
  is a counter of depth, the include-order machine is its specification, the missing headers are exactly the required ones
  that are not included.  Functional behaviour of the
  cleansing steps, of suppressions and filters, of conditionals, of header guards.  For the
  threads: the exit code is right under every interleaving, the queue keeps its bound, and
  every fair execution finishes, and none deadlocks, if every file matches the filter and no worker is lost to an exception.  Termination or divergence of the
  loops over directories.  Where the code does not do what it means to (a run that hangs on a file
  that the filter does not match or on a worker that died, an exit code overwritten by the last directory, an export of
  fixes that always fails, a climb that never ends, two reads behind the end of a list, settings of a configuration
  file that outlive their file or override nested ones), a theorem states what it does.

  \<^bold>\<open>Bounds and termination.\<close>  Loops of the source are structural recursions or
  \<open>function\<close>s with a termination proof; a climb through directories that may not end is a
  \<open>partial_function\<close> whose missing result is \<open>Inl Diverges\<close>.  The parser of patterns has the
  length of the pattern as fuel, as each step uses a character; so has the matcher of globs.

  \<^bold>\<open>Assumptions.\<close>  Texts have code points below 256, paths are POSIX paths.  What exists in
  the file system, what external programs answer and what \<open>difflib\<close> prints are
  parameters (\<open>os_env\<close>, \<open>lint_env\<close>, \<open>tidy_env\<close>, \<open>fmt_env\<close>).  Reading the standard input may raise: under
  Python 3 it raises TypeError, as the stream is wrapped in a decoder of bytes.  The text of a configuration file can be decoded.  A Python set is a list
  without repetitions, in the order of insertion.  A pattern that a user gives is invalid in the model if it uses back references
  or named groups.

  \<^bold>\<open>Not modelled.\<close>  The C++ code of the database; \<open>argparse\<close> in the runners (\<open>getopt\<close> of the linter is
  modelled); the usage text, as a call that prints it ends the process; the replacement of \<open>sys.stderr\<close>
  by one that encodes with replacement characters, and the helpers that choose between Python 2 and 3.  The replacement
  character U+FFFD is tested for, but lies outside the modelled code points.  In the runner of clang-tidy: the keyboard
  interrupt, which kills the process group at once, so that a run with one is cut short.
\<close>

section \<open>The linter as a whole\<close>

text \<open>C1. The linter as a whole: on every command line and every file system in which the search for a repository ends,
  \<open>main\<close> ends.  It exits through the usage text (0 or 1), with ValueError for an invalid number or filter, with one
  of the exceptions of a check or of a configuration file, with whatever but IOError reading the standard input raises, or it
  returns: then the exit code is 1 if at
  least one error was reported and 0 otherwise, the counts by category are consistent, and in JUnit output, which
  starts without failures, the report holds one failure for each error counted.\<close>

theorem main_outcome:
  assumes "\<forall>st f. \<exists>name. RepositoryName (os_of env) st f = Inr name"
  shows "case main env args st of
      Inr (code, st') \<Rightarrow> lint_inv st' \<and> code = (if error_count (lstate st') > 0 then 1 else 0) \<and>
        (junit_failures (lstate st) = [] \<and> output_format (lstate st') = ''junit'' \<longrightarrow>
         length (junit_failures (lstate st')) = error_count (lstate st'))
    | Inl e \<Rightarrow> e = SystemExit 0 \<or> e = SystemExit 1 \<or> e = IndexError \<or> e = ReError \<or> (\<exists>m. e = ValueError m) \<or>
        stdin_text env = Inl e \<and> e \<noteq> IOError"
proof (cases "ParseArguments env args st")
  case (Inl e)
  with ParseArguments_outcome [of st env args] show ?thesis by (auto simp: main_def usage_exit_def)
next
  case (Inr r)
  then obtain filenames st1 where r: "r = (filenames, st1)" by fastforce
  with ParseArguments_outcome [of st env args] Inr
  have i: "lint_inv (with_lstate ResetErrorCounts st1)" and j: "junit_failures (lstate st1) = junit_failures (lstate st)"
    by (simp_all add: lint_inv_reset)
  from process_files_outcome [OF i, of env filenames] assms have
    p: "case for_each filenames (\<lambda>filename st. ProcessFile env filename (verbose_level (lstate st)) [] st) (with_lstate ResetErrorCounts st1) of
      Inr st' \<Rightarrow> lint_inv st' \<and> file_frame (with_lstate ResetErrorCounts st1) st' | Inl e \<Rightarrow> lint_exception env e"
    by (simp add: all_named_def)
  show ?thesis
  proof (cases "for_each filenames (\<lambda>filename st. ProcessFile env filename (verbose_level (lstate st)) [] st) (with_lstate ResetErrorCounts st1)")
    case (Inl e)
    with p Inr r show ?thesis by (auto simp: main_def lint_exception_def)
  next
    case ok: (Inr st2)
    with p have "lint_inv st2" and f: "file_frame (with_lstate ResetErrorCounts st1) st2" by simp_all
    then have "lint_inv st3" if "lstate st3 = lstate st2" for st3 using that by (simp add: lint_inv_def)
    moreover have "length (junit_failures (lstate st2)) = error_count (lstate st2)"
      if "junit_failures (lstate st) = []" "output_format (lstate st2) = ''junit''"
      using f j that by (simp add: file_frame_def more_errors_def with_lstate_def ResetErrorCounts_def)
    ultimately show ?thesis using ok Inr r by (simp add: main_def Let_def stderr_write_def)
  qed
qed

theorem main_outcome_witness:
  "case main bare_env [''--output=junit'', ''a.cc''] (lint_init CppLintState_init) of
      Inr (code, st') \<Rightarrow> lint_inv st' \<and> code = (if error_count (lstate st') > 0 then 1 else 0) \<and>
        (junit_failures (lstate (lint_init CppLintState_init)) = [] \<and> output_format (lstate st') = ''junit'' \<longrightarrow>
         length (junit_failures (lstate st')) = error_count (lstate st'))
    | Inl e \<Rightarrow> e = SystemExit 0 \<or> e = SystemExit 1 \<or> e = IndexError \<or> e = ReError \<or> (\<exists>m. e = ValueError m) \<or>
        stdin_text bare_env = Inl e \<and> e \<noteq> IOError"
  by (rule main_outcome [OF bare_env_named])

text \<open>C4. From the command line to the report: without configuration files, every error that \<open>main\<close> counts,
  in whatever file, is a failure of a listed category that passes the filters and reaches the verbosity that the command line set; it is
  in the JUnit report if that was asked for, and else its text is among those on standard error.\<close>

theorem command_line_effective:
  assumes "\<forall>st f. \<exists>name. RepositoryName (os_of env) st f = Inr name" "\<forall>d. \<not> path_isfile env (path_join2 d ''CPPLINT.cfg'')"
    and "ParseArguments env args st = Inr (filenames, st1)" "main env args st = Inr (code, st')"
  shows "recorded_among (admitted (lstate st1)) (with_lstate ResetErrorCounts st1) st'"
proof -
  let ?p = "\<lambda>filename st. ProcessFile env filename (verbose_level (lstate st)) [] st" and ?st0 = "with_lstate ResetErrorCounts st1"
  from ParseArguments_outcome [of st env args] assms(3) have i: "lint_inv ?st0" by (simp add: lint_inv_reset)
  from assms(3,4) obtain st2 where 2: "for_each filenames ?p ?st0 = Inr st2" by (auto simp: main_def py_bind_Inr_iff)
  with assms(3,4) have e: "lstate st' = lstate st2" "output_format (lstate st2) \<noteq> ''junit'' \<Longrightarrow> stderr st' = stderr st2"
    by (auto simp: main_def Let_def stderr_write_def split: if_splits)
  from process_files_recorded [OF i _ _ 2] assms(1,2) have "recorded_among (admitted (lstate st1)) ?st0 st2"
    by (simp add: all_named_def no_config_def admitted_def with_lstate_def ResetErrorCounts_def)
  then show ?thesis by (rule recorded_among_end [OF e(1), rotated]) (rule e(2))
qed

theorem command_line_effective_witness:
  "\<exists>st1 code st'. ParseArguments bare_env [''--output=junit'', ''--filter=-legal'', ''a.cc''] (lint_init CppLintState_init) =
       Inr ([''a.cc''], st1) \<and> filters (lstate st1) = DEFAULT_FILTERS @ [''-legal''] \<and>
     main bare_env [''--output=junit'', ''--filter=-legal'', ''a.cc''] (lint_init CppLintState_init) = Inr (code, st') \<and>
     code = 0 \<and> recorded_among (admitted (lstate st1)) (with_lstate ResetErrorCounts st1) st'"
proof -
  let ?env = "bare_env" and ?args = "[''--output=junit'', ''--filter=-legal'', ''a.cc'']"
  have "case ParseArguments ?env ?args (lint_init CppLintState_init) of
      Inr (fs, st1) \<Rightarrow> fs = [''a.cc''] \<and> filters (lstate st1) = DEFAULT_FILTERS @ [''-legal''] | Inl e \<Rightarrow> False" by code_simp
  then obtain st1 where 1: "ParseArguments ?env ?args (lint_init CppLintState_init) = Inr ([''a.cc''], st1)"
    "filters (lstate st1) = DEFAULT_FILTERS @ [''-legal'']" by (auto split: sum.splits)
  have "case main ?env ?args (lint_init CppLintState_init) of Inr (code, st') \<Rightarrow> code = 0 | Inl e \<Rightarrow> False" by code_simp
  then obtain code st' where 2: "main ?env ?args (lint_init CppLintState_init) = Inr (code, st')" "code = 0"
    by (auto split: sum.splits)
  have n: "\<forall>st f. \<exists>name. RepositoryName (os_of ?env) st f = Inr name" by (rule bare_env_named)
  have "\<forall>d. \<not> path_isfile ?env (path_join2 d ''CPPLINT.cfg'')" by (simp add: bare_env_def)
  from command_line_effective [OF n this 1(1) 2(1)] 1 2 show ?thesis by blast
qed

end
